(* ===== verification/Prelude.thy ===== *)
theory Prelude
  imports Main "HOL-Library.Word"
begin

text \<open>
  Shared vocabulary of the development: the machine words of the IA-32 target, the byte
  memory the C code runs on, the two shapes of counted loop the kernel uses, and the word
  and loop lemmas every component needs.

  \<^item> \<open>unsigned int\<close>, \<open>unsigned long\<close>, \<open>size_t\<close> and every pointer are 32 bits wide on i686, so
    they are all \<open>u32\<close>; \<open>uint8_t\<close>, \<open>char\<close> and \<open>unsigned char\<close> are \<open>u8\<close> (\<open>char\<close> is signed: a
    comparison of two of them reads them with \<open>sint\<close>).
  \<^item> \<open>for_loop i n body s\<close> is \<open>for(; i < n; i++) body\<close> with the loop state \<open>s\<close>, and
    \<open>for_search i n body\<close> is the same loop whose body returns from the function
    (\<open>Some r\<close>) or goes on (\<open>None\<close>).
\<close>

unbundle bit_operations_syntax

subsection \<open>Types\<close>

type_synonym u8 = "8 word"
type_synonym u16 = "16 word"
type_synonym u32 = "32 word"
type_synonym u64 = "64 word"

type_synonym mem = "u32 \<Rightarrow> u8"

abbreviation NULL :: u32 where "NULL \<equiv> 0"

abbreviation MINUS_ONE :: u32 where "MINUS_ONE \<equiv> - 1"

subsection \<open>Lemma collections\<close>

named_theorems unat_simps \<open>word operations read as natural numbers\<close>
named_theorems frame_simps \<open>fields an operation leaves alone\<close>

subsection \<open>Words as natural numbers\<close>

lemma unat_inc: "(i::u32) < n \<Longrightarrow> unat (i + 1) = Suc (unat i)"
  by unat_arith

lemma unat_lt_2p32: "unat (i::u32) < 4294967296"
  using unsigned_less [of i] by simp

lemma unat_add_small:
  "unat a + unat b < 2 ^ 32 \<Longrightarrow> unat (a + b :: u32) = unat a + unat b"
  by (simp add: unat_word_ariths)

lemma unat_mult_small:
  "unat a * unat b < 2 ^ 32 \<Longrightarrow> unat (a * b :: u32) = unat a * unat b"
  by (simp add: unat_word_ariths)

lemma unat_sub_le: "b \<le> a \<Longrightarrow> unat (a - b :: u32) = unat a - unat b"
  by unat_arith

lemma unat_of_nat_small: "k < 2 ^ 32 \<Longrightarrow> unat (of_nat k :: u32) = k"
  by (simp add: unat_of_nat)

lemma word_add_cancel_of_nat: "(p::u32) + of_nat (unat i) = p + i"
  by simp

lemma word_between: "(i::u32) \<le> n \<Longrightarrow> \<not> i < n \<Longrightarrow> i = n"
  by simp

lemma word_inc_le: "(i::u32) < n \<Longrightarrow> i + 1 \<le> n"
  by unat_arith

lemma word_lt_inc: "(i::u32) < n \<Longrightarrow> j < i + 1 \<longleftrightarrow> j \<le> i"
  by unat_arith

lemma word_le_inc: "(i::u32) < n \<Longrightarrow> i \<le> x \<longleftrightarrow> i + 1 \<le> x \<or> x = i"
  by unat_arith

text \<open>Two blocks of \<open>n\<close> bytes that do not run past the end of the address space.\<close>

lemma block_distance:
  assumes "(a::u32) < b" and "unat b + unat n \<le> 2 ^ 32"
  shows "n \<le> a - b"
proof -
  have "unat (a - b) = 2 ^ 32 + unat a - unat b"
    using assms(1) by (simp add: unat_sub_if_size word_size word_less_nat_alt)
  then show ?thesis using assms by (simp add: word_le_nat_alt)
qed

lemma shifted_past: "(i::u32) < n \<Longrightarrow> n \<le> e \<Longrightarrow> \<not> (i + 1 \<le> e + i \<and> e + i < n)"
  by unat_arith

lemma window_shift:
  assumes "(c::u32) < n"
  shows "x - c < n - c \<longleftrightarrow> c \<le> x \<and> x < n"
proof (cases "c \<le> x")
  case True
  then show ?thesis
    using assms unat_sub_le [OF True] unat_sub_le [of c n]
    by (auto simp: word_less_nat_alt word_le_nat_alt)
next
  case False
  then have "unat (x - c) = 4294967296 + unat x - unat c"
    by (simp add: unat_sub_if_size word_size word_le_nat_alt)
  then have "unat n - unat c \<le> unat (x - c)"
    using unat_lt_2p32 [of n] by linarith
  then show ?thesis
    using False assms unat_sub_le [OF less_imp_le [OF assms]] by (simp add: word_less_nat_alt)
qed

text \<open>Two blocks of \<open>n\<close> bytes at distance \<open>e\<close> that do not overlap.\<close>

lemma apart_blocks:
  assumes "(i::u32) < n" and "n \<le> e" and "n \<le> - e"
  shows "\<not> e + i < n"
proof -
  have "e \<noteq> 0" using assms by auto
  then have "unat e \<noteq> 0" by (simp add: unat_eq_0)
  then have "unat (0 - e) = 4294967296 - unat e"
    unfolding unat_sub_if_size by (simp add: word_size)
  then have "unat e + unat i < 4294967296"
    using assms by (simp add: word_less_nat_alt word_le_nat_alt)
  then have "unat (e + i) = unat e + unat i" by (simp add: unat_add_small)
  then show ?thesis using assms(2) by (simp add: word_less_nat_alt word_le_nat_alt)
qed

lemma unat_ucast8: "unat (ucast (i :: u8) :: u32) = unat i"
proof -
  have "unat i < 2 ^ 8" using unsigned_less [of i, where ?'a = nat] by simp
  then have "unat i < 2 ^ 32" by simp
  then show ?thesis by (simp add: unsigned_ucast_eq take_bit_nat_eq_self)
qed

lemma unat_minus_one: "unat (- 1 :: u32) = 4294967295"
  by (simp add: unsigned_minus_1_eq_mask mask_eq_exp_minus_1)

lemma unat_inc_max:
  assumes "(n::u32) \<noteq> - 1"
  shows "n < n + 1"
proof -
  have "unat n \<noteq> unat (- 1 :: u32)"
    using assms by (simp add: word_unat_eq_iff)
  then have "unat n + unat (1::u32) < 2 ^ 32"
    using unat_lt_2p32 [of n] unat_minus_one by simp
  then show ?thesis
    using unat_add_small [of n 1] by (simp add: word_less_nat_alt)
qed

lemma less_neq_max: "(i::u32) < n \<Longrightarrow> i \<noteq> - 1"
  using unat_minus_one unat_lt_2p32 [of n] by (auto simp: word_less_nat_alt)

text \<open>\<open>w & (1 << n)\<close> tests bit \<open>n\<close>.\<close>

lemma and_exp_nonzero_iff: "(w :: u32) AND 2 ^ n \<noteq> 0 \<longleftrightarrow> bit w n"
  by (simp add: and_exp_eq_0_iff_not_bit)

subsection \<open>Counted loops\<close>

function for_loop :: "u32 \<Rightarrow> u32 \<Rightarrow> (u32 \<Rightarrow> 's \<Rightarrow> 's) \<Rightarrow> 's \<Rightarrow> 's" where
  "for_loop i n body s = (if i < n then for_loop (i + 1) n body (body i s) else s)"
  by pat_completeness auto
termination
  by (relation "measure (\<lambda>(i, n, _, _). unat n - unat i)") (auto simp: unat_inc word_less_nat_alt)

function for_search :: "u32 \<Rightarrow> u32 \<Rightarrow> (u32 \<Rightarrow> 'r option) \<Rightarrow> 'r option" where
  "for_search i n body =
     (if i < n then
        (case body i of Some r \<Rightarrow> Some r | None \<Rightarrow> for_search (i + 1) n body)
      else None)"
  by pat_completeness auto
termination
  by (relation "measure (\<lambda>(i, n, _). unat n - unat i)") (auto simp: unat_inc word_less_nat_alt)

declare for_loop.simps [simp del] for_search.simps [simp del]

lemma for_loop_done [simp]: "\<not> i < n \<Longrightarrow> for_loop i n body s = s"
  by (subst for_loop.simps) simp

lemma for_loop_zero [simp]: "for_loop i 0 body s = s"
  by simp

text \<open>The invariant rule: \<open>P i s\<close> is what holds when the counter is \<open>i\<close>.\<close>

lemma for_loop_invariant:
  assumes "P i s" and "i \<le> n"
    and "\<And>j t. i \<le> j \<Longrightarrow> j < n \<Longrightarrow> P j t \<Longrightarrow> P (j + 1) (body j t)"
  shows "P n (for_loop i n body s)"
  using assms
proof (induction i n body s rule: for_loop.induct)
  case (1 i n body s)
  show ?case
  proof (cases "i < n")
    case True
    have step: "P (i + 1) (body i s)"
      using True "1.prems"(1,3) by simp
    have le: "i + 1 \<le> n"
      using True by (rule word_inc_le)
    have later: "P (j + 1) (body j t)" if "i + 1 \<le> j" "j < n" "P j t" for j t
    proof -
      have "i \<le> j" using that(1) True by unat_arith
      with "1.prems"(3) that(2,3) show ?thesis by blast
    qed
    have "P n (for_loop (i + 1) n body (body i s))"
      using "1.IH" [OF True step le] later by blast
    then show ?thesis
      using True by (simp add: for_loop.simps [of i n])
  next
    case False
    with "1.prems"(1,2) show ?thesis by simp
  qed
qed

lemma for_search_None_iff:
  "for_search i n body = None \<longleftrightarrow> (\<forall>j. i \<le> j \<longrightarrow> j < n \<longrightarrow> body j = None)"
proof (induction i n body rule: for_search.induct)
  case (1 i n body)
  show ?case
  proof (cases "i < n")
    case True
    have split: "(\<forall>j. i \<le> j \<longrightarrow> j < n \<longrightarrow> body j = None) \<longleftrightarrow>
        body i = None \<and> (\<forall>j. i + 1 \<le> j \<longrightarrow> j < n \<longrightarrow> body j = None)"
    proof -
      have "i \<le> j \<longleftrightarrow> j = i \<or> i + 1 \<le> j" for j
        using True by unat_arith
      then show ?thesis using True by auto
    qed
    show ?thesis
      using True "1.IH" split by (simp add: for_search.simps [of i n] split: option.split)
  next
    case False
    then have "i \<le> j \<longrightarrow> \<not> j < n" for j by auto
    with False show ?thesis by (auto simp: for_search.simps [of i n])
  qed
qed

lemma for_search_hit:
  "i \<le> k \<Longrightarrow> k < n \<Longrightarrow> body k = Some r \<Longrightarrow> for_search i n body \<noteq> None"
  by (metis for_search_None_iff option.distinct(1))

lemma for_search_SomeE:
  assumes "for_search i n body = Some r"
  obtains j where "i \<le> j" "j < n" "body j = Some r" "\<And>k. i \<le> k \<Longrightarrow> k < j \<Longrightarrow> body k = None"
  using assms
proof (induction i n body arbitrary: thesis rule: for_search.induct)
  case (1 i n body)
  have lt: "i < n"
    using "1.prems"(2) by (auto simp: for_search.simps [of i n] split: if_splits)
  show ?case
  proof (cases "body i")
    case (Some r')
    then have "r' = r"
      using "1.prems"(2) lt by (simp add: for_search.simps [of i n])
    with Some lt show ?thesis by (intro "1.prems"(1) [of i]) auto
  next
    case None
    then have rest: "for_search (i + 1) n body = Some r"
      using "1.prems"(2) lt by (simp add: for_search.simps [of i n])
    obtain j where j: "i + 1 \<le> j" "j < n" "body j = Some r"
        "\<And>k. i + 1 \<le> k \<Longrightarrow> k < j \<Longrightarrow> body k = None"
      using "1.IH" [OF lt None _ rest] by blast
    have "i \<le> j" using j(1) lt by unat_arith
    moreover have "body k = None" if "i \<le> k" "k < j" for k
    proof (cases "k = i")
      case False
      then have "i + 1 \<le> k" using that(1) lt by unat_arith
      then show ?thesis using j(4) that(2) by blast
    qed (use None in simp)
    ultimately show ?thesis using j(2,3) by (intro "1.prems"(1)) auto
  qed
qed

subsection \<open>Counted loops whose body may not return\<close>

function for_loop_opt :: "u32 \<Rightarrow> u32 \<Rightarrow> (u32 \<Rightarrow> 's \<Rightarrow> 's option) \<Rightarrow> 's \<Rightarrow> 's option" where
  "for_loop_opt i n body s =
     (if i < n then (case body i s of None \<Rightarrow> None | Some t \<Rightarrow> for_loop_opt (i + 1) n body t) else Some s)"
  by pat_completeness auto
termination
  by (relation "measure (\<lambda>(i, n, _, _). unat n - unat i)") (auto simp: unat_inc word_less_nat_alt)

declare for_loop_opt.simps [simp del]

lemma for_loop_opt_done [simp]: "\<not> i < n \<Longrightarrow> for_loop_opt i n body s = Some s"
  by (subst for_loop_opt.simps) simp

lemma for_loop_opt_le:
  assumes "\<And>j t. body j t = None \<or> body j t = body' j t"
  shows "for_loop_opt i n body s = None \<or> for_loop_opt i n body s = for_loop_opt i n body' s"
  using assms
proof (induction i n body s rule: for_loop_opt.induct)
  case (1 i n body s)
  show ?case
  proof (cases "i < n \<and> body i s \<noteq> None")
    case True
    then obtain t where t: "i < n" "body i s = Some t" "body' i s = Some t"
      using "1.prems" [of i s] by auto
    have "for_loop_opt (i + 1) n body t = None \<or> for_loop_opt (i + 1) n body t = for_loop_opt (i + 1) n body' t"
      using "1.IH" [OF t(1,2)] "1.prems" by blast
    then show ?thesis using t by (simp add: for_loop_opt.simps [of i n])
  next
    case False
    then show ?thesis by (cases "i < n") (auto simp: for_loop_opt.simps [of i n])
  qed
qed

lemma for_loop_opt_mono [partial_function_mono]:
  fixes B :: "('b \<Rightarrow> 'c option) \<Rightarrow> u32 \<Rightarrow> 's \<Rightarrow> 's option"
  assumes "\<And>j t. mono_option (\<lambda>f. B f j t)"
  shows "mono_option (\<lambda>f. for_loop_opt i n (B f) s)"
proof (rule monotoneI)
  fix f g :: "'b \<Rightarrow> 'c option"
  assume "fun_ord option_ord f g"
  then have "B f j t = None \<or> B f j t = B g j t" for j t
    using assms [of j t] by (auto simp: monotone_def flat_ord_def)
  then show "option_ord (for_loop_opt i n (B f) s) (for_loop_opt i n (B g) s)"
    unfolding flat_ord_def by (rule for_loop_opt_le)
qed

text \<open>The invariant rule for a body that returns: \<open>P i s\<close> is what holds when the counter is \<open>i\<close>.\<close>

lemma for_loop_opt_invariant:
  assumes "P i s" and "i \<le> n"
    and "\<And>j t. i \<le> j \<Longrightarrow> j < n \<Longrightarrow> P j t \<Longrightarrow> \<exists>t'. body j t = Some t' \<and> P (j + 1) t'"
  shows "\<exists>t. for_loop_opt i n body s = Some t \<and> P n t"
  using assms
proof (induction i n body s rule: for_loop_opt.induct)
  case (1 i n body s)
  show ?case
  proof (cases "i < n")
    case True
    then obtain t where t: "body i s = Some t" "P (i + 1) t"
      using "1.prems"(1) "1.prems"(3) [of i s] by auto
    have later: "\<exists>t'. body j u = Some t' \<and> P (j + 1) t'" if "i + 1 \<le> j" "j < n" "P j u" for j u
    proof -
      have "i \<le> j" using that(1) True by unat_arith
      with "1.prems"(3) that(2,3) show ?thesis by blast
    qed
    have "\<exists>u. for_loop_opt (i + 1) n body t = Some u \<and> P n u"
      using "1.IH" [OF True t(1)] t(2) word_inc_le [OF True] later by blast
    then show ?thesis using True t(1) by (simp add: for_loop_opt.simps [of i n])
  next
    case False
    then show ?thesis using "1.prems"(1,2) by simp
  qed
qed

end
