(* ===== verification/Libc.thy ===== *)
theory Libc
  imports Prelude
begin

text \<open>
  \<^verbatim>\<open>src/include/libc\<close>: the freestanding \<open>string.h\<close> and \<open>ctype.h\<close> routines, over the
  byte memory \<open>mem\<close>. A routine that returns one of its pointer arguments is modelled by the
  memory it leaves. A scan for a NUL byte may never end in C; it is a
  \<^theory_text>\<open>partial_function\<close> whose value \<open>None\<close> means that the call does not return.

  \<open>strchr\<close> has no \<open>return\<close> on the path where the character is found, so its result there
  is whatever the calling convention leaves in the result register: the parameter \<open>noret\<close>,
  a function of the memory and of the two arguments. Nothing is assumed of it.
\<close>

subsection \<open>Copying and filling\<close>

definition memcpy :: "mem \<Rightarrow> u32 \<Rightarrow> u32 \<Rightarrow> u32 \<Rightarrow> mem" where
  "memcpy m dest src n = for_loop 0 n (\<lambda>index m. m(dest + index := m (src + index))) m"

definition memset :: "mem \<Rightarrow> u32 \<Rightarrow> u8 \<Rightarrow> u32 \<Rightarrow> mem" where
  "memset m buff c n = for_loop 0 n (\<lambda>i m. m(buff + i := c)) m"

text \<open>\<open>while(n--)\<close> with the pointers moving up, and with the pointers moving down.\<close>

primrec memmove_up :: "nat \<Rightarrow> mem \<Rightarrow> u32 \<Rightarrow> u32 \<Rightarrow> mem" where
  "memmove_up 0 m dest_p src_p = m"
| "memmove_up (Suc n) m dest_p src_p =
     memmove_up n (m(dest_p := m src_p)) (dest_p + 1) (src_p + 1)"

primrec memmove_down :: "nat \<Rightarrow> mem \<Rightarrow> u32 \<Rightarrow> u32 \<Rightarrow> mem" where
  "memmove_down 0 m dest_p src_p = m"
| "memmove_down (Suc n) m dest_p src_p =
     memmove_down n (m(dest_p - 1 := m (src_p - 1))) (dest_p - 1) (src_p - 1)"

definition memmove :: "mem \<Rightarrow> u32 \<Rightarrow> u32 \<Rightarrow> u32 \<Rightarrow> mem" where
  "memmove m dest src n =
     (if dest < src then memmove_up (unat n) m dest src
      else memmove_down (unat n) m (dest + n) (src + n))"

text \<open>What a copy of \<open>n\<close> bytes is meant to do: the block at \<open>dest\<close> holds the old block.\<close>

definition copied :: "mem \<Rightarrow> u32 \<Rightarrow> u32 \<Rightarrow> u32 \<Rightarrow> mem" where
  "copied m dest src n = (\<lambda>a. if a - dest < n then m (src + (a - dest)) else m a)"

lemma copied_0 [simp]: "copied m dest src 0 = m"
  by (simp add: copied_def)

lemma copied_inside: "i < n \<Longrightarrow> copied m dest src n (dest + i) = m (src + i)"
  by (simp add: copied_def)

lemma copied_outside: "\<not> a - dest < n \<Longrightarrow> copied m dest src n a = m a"
  by (simp add: copied_def)

text \<open>The next byte to be copied has not been overwritten.\<close>

lemma copied_source:
  assumes "i < n" and "dest = src \<or> n \<le> dest - src"
  shows "copied m dest src i (src + i) = m (src + i)"
proof -
  have "\<not> src + i - dest < i \<or> dest = src"
    using assms by (cases "dest = src") (simp, unat_arith)
  then show ?thesis by (auto simp: copied_def)
qed

lemma copied_step:
  assumes "i < n" and "dest = src \<or> n \<le> dest - src"
  shows "(copied m dest src i)(dest + i := copied m dest src i (src + i)) =
         copied m dest src (i + 1)"
proof
  fix a
  have src_old: "copied m dest src i (src + i) = m (src + i)"
    using assms by (rule copied_source)
  have "a - dest < i + 1 \<longleftrightarrow> a - dest < i \<or> a = dest + i"
    using assms(1) by (metis (no_types) add_diff_cancel_left' add.commute diff_add_cancel
        order_le_less word_lt_inc)
  then show "((copied m dest src i)(dest + i := copied m dest src i (src + i))) a =
      copied m dest src (i + 1) a"
    unfolding src_old by (auto simp: copied_def)
qed

lemma copied_apart:
  assumes "i < n" and "k \<le> n" and "n \<le> dest - src" and "n \<le> src - dest"
  shows "copied m dest src k (src + i) = m (src + i)"
proof -
  have "\<not> src - dest + i < n"
    using apart_blocks [of i n "src - dest"] assms by simp
  then have "\<not> src + i - dest < k"
    using assms(2) by (auto simp: algebra_simps dest: order_less_le_trans)
  then show ?thesis by (rule copied_outside)
qed

lemma memcpy_copied:
  assumes "dest = src \<or> n \<le> dest - src"
  shows "memcpy m dest src n = copied m dest src n"
  unfolding memcpy_def
proof (rule for_loop_invariant [where P = "\<lambda>i t. t = copied m dest src i"])
  show "m = copied m dest src 0" by simp
next
  fix j t assume "j < n" and "t = copied m dest src j"
  then show "t(dest + j := t (src + j)) = copied m dest src (j + 1)"
    using copied_step [OF _ assms] by simp
qed simp

lemma memset_eq: "memset m buff c n = (\<lambda>a. if a - buff < n then c else m a)"
  unfolding memset_def
proof (rule for_loop_invariant [where P = "\<lambda>i t. t = (\<lambda>a. if a - buff < i then c else m a)"])
  fix j t assume j: "j < n" and t: "t = (\<lambda>a. if a - buff < j then c else m a)"
  have "a - buff < j + 1 \<longleftrightarrow> a - buff < j \<or> a = buff + j" for a
    using word_lt_inc [OF j] by (metis add_diff_cancel_left' diff_add_cancel add.commute order_le_less)
  then show "t(buff + j := c) = (\<lambda>a. if a - buff < j + 1 then c else m a)"
    unfolding t by auto
qed auto

lemma memmove_up_copied:
  assumes "unat i + k = unat n" and "dest = src \<or> n \<le> dest - src"
  shows "memmove_up k (copied m dest src i) (dest + i) (src + i) = copied m dest src n"
  using assms(1)
proof (induction k arbitrary: i)
  case 0
  then have "i = n" by (simp add: word_unat_eq_iff)
  then show ?case by simp
next
  case (Suc k)
  have lt: "i < n" using Suc.prems by (simp add: word_less_nat_alt)
  have "unat (i + 1) + k = unat n" using Suc.prems unat_inc [OF lt] by simp
  from Suc.IH [OF this] show ?case
    using copied_step [OF lt assms(2)] by (simp add: add.assoc)
qed

text \<open>The downward copy has moved the bytes from offset \<open>i\<close> on.\<close>

definition copied_from :: "mem \<Rightarrow> u32 \<Rightarrow> u32 \<Rightarrow> u32 \<Rightarrow> u32 \<Rightarrow> mem" where
  "copied_from m dest src n i =
     (\<lambda>a. if i \<le> a - dest \<and> a - dest < n then m (src + (a - dest)) else m a)"

lemma copied_from_step:
  assumes "i < n" and "dest = src \<or> n \<le> src - dest"
  shows "(copied_from m dest src n (i + 1))
           (dest + i := copied_from m dest src n (i + 1) (src + i)) =
         copied_from m dest src n i"
proof
  fix a
  have ni: "\<not> (i + 1 \<le> src + i - dest \<and> src + i - dest < n) \<or> dest = src"
    using assms shifted_past [of i n "src - dest"] by (auto simp: algebra_simps)
  have src_old: "copied_from m dest src n (i + 1) (src + i) = m (src + i)"
    using ni by (auto simp: copied_from_def)
  have at: "i \<le> a - dest \<longleftrightarrow> i + 1 \<le> a - dest \<or> a = dest + i"
  proof -
    have "i \<le> a - dest \<longleftrightarrow> i + 1 \<le> a - dest \<or> a - dest = i"
      using assms(1) by (rule word_le_inc)
    moreover have "a - dest = i \<longleftrightarrow> a = dest + i"
      by (auto simp: diff_eq_eq add.commute)
    ultimately show ?thesis by simp
  qed
  show "((copied_from m dest src n (i + 1))
           (dest + i := copied_from m dest src n (i + 1) (src + i))) a =
      copied_from m dest src n i a"
    unfolding src_old using at assms(1) by (auto simp: copied_from_def)
qed

lemma memmove_down_copied:
  assumes "unat i \<le> unat n" and "dest = src \<or> n \<le> src - dest"
  shows "memmove_down (unat i) (copied_from m dest src n i) (dest + i) (src + i) =
         copied m dest src n"
  using assms(1)
proof (induction "unat i" arbitrary: i)
  case 0
  then have "i = 0" by (simp add: unat_eq_0)
  then show ?case by (simp add: copied_from_def copied_def)
next
  case (Suc k)
  define j where "j = i - 1"
  have i: "i = j + 1" and uj: "unat j = k"
    using Suc.hyps(2) unfolding j_def by (simp, unat_arith)
  have lt: "j < n"
    using Suc.prems Suc.hyps(2) uj by (simp add: word_less_nat_alt)
  have "unat j \<le> unat n" using lt by (simp add: word_less_nat_alt)
  from Suc.hyps(1) [OF uj [symmetric] this]
  have "memmove_down k (copied_from m dest src n j) (dest + j) (src + j) = copied m dest src n"
    by (simp add: uj)
  then show ?case
    using copied_from_step [OF lt assms(2)] Suc.hyps(2) [symmetric] by (simp add: i)
qed

lemma memmove_copied:
  assumes "unat dest + unat n \<le> 2 ^ 32" and "unat src + unat n \<le> 2 ^ 32"
  shows "memmove m dest src n = copied m dest src n"
proof (cases "dest < src")
  case True
  then have "dest = src \<or> n \<le> dest - src"
    using block_distance [of dest src n] assms(2) by simp
  then show ?thesis
    using memmove_up_copied [of 0 "unat n" n dest src m] True by (simp add: memmove_def)
next
  case False
  then have sep: "dest = src \<or> n \<le> src - dest"
    using block_distance [of src dest n] assms(1) by (cases "src < dest") auto
  have "copied_from m dest src n n = m"
    by (rule ext) (auto simp: copied_from_def)
  then show ?thesis
    using memmove_down_copied [OF _ sep, of n m] False by (simp add: memmove_def)
qed

subsection \<open>NUL-terminated strings\<close>

partial_function (option) strlen_from :: "mem \<Rightarrow> u32 \<Rightarrow> u32 \<Rightarrow> u32 option" where
  "strlen_from m s s_idx =
     (if m (s + s_idx) \<noteq> 0 then strlen_from m s (s_idx + 1) else Some s_idx)"

definition strlen :: "mem \<Rightarrow> u32 \<Rightarrow> u32 option" where
  "strlen m s = strlen_from m s 0"

text \<open>\<open>is_cstr m p xs\<close>: at \<open>p\<close> stands the C string whose characters are \<open>xs\<close>.\<close>

fun is_cstr :: "mem \<Rightarrow> u32 \<Rightarrow> u8 list \<Rightarrow> bool" where
  "is_cstr m p [] \<longleftrightarrow> m p = 0"
| "is_cstr m p (x # xs) \<longleftrightarrow> m p = x \<and> x \<noteq> 0 \<and> is_cstr m (p + 1) xs"

lemma is_cstr_nth:
  "is_cstr m p xs \<Longrightarrow> i < length xs \<Longrightarrow> m (p + of_nat i) = xs ! i \<and> xs ! i \<noteq> 0"
proof (induction xs arbitrary: p i)
  case (Cons x xs)
  show ?case
  proof (cases i)
    case (Suc j)
    then have "m (p + 1 + of_nat j) = xs ! j \<and> xs ! j \<noteq> 0"
      using Cons.IH [of "p + 1" j] Cons.prems by simp
    then show ?thesis using Suc by (simp add: algebra_simps)
  qed (use Cons.prems in simp)
qed simp

lemma is_cstr_end: "is_cstr m p xs \<Longrightarrow> m (p + of_nat (length xs)) = 0"
proof (induction xs arbitrary: p)
  case (Cons x xs)
  then have "m (p + 1 + of_nat (length xs)) = 0" by simp
  then show ?case by (simp add: algebra_simps)
qed simp

lemma is_cstr_length: "is_cstr m p xs \<Longrightarrow> length xs < 2 ^ 32"
proof (rule ccontr)
  assume s: "is_cstr m p xs" and ge: "\<not> length xs < 2 ^ 32"
  from ge have j: "length xs = (length xs - 2 ^ 32) + 2 ^ 32" (is "_ = ?j + _") by simp
  have "(of_nat (length xs) :: u32) = of_nat ?j"
    by (subst j) (simp add: word_of_nat_eq_iff take_bit_eq_mod)
  then have "m (p + of_nat ?j) = 0" using is_cstr_end [OF s] by simp
  moreover have "?j < length xs" using ge by simp
  ultimately show False using is_cstr_nth [OF s] by fastforce
qed

lemma is_cstr_unique: "is_cstr m p xs \<Longrightarrow> is_cstr m p ys \<Longrightarrow> xs = ys"
proof (induction xs arbitrary: p ys)
  case Nil
  then show ?case by (cases ys) auto
next
  case (Cons x xs)
  then show ?case by (cases ys) auto
qed

lemma is_cstr_nonzero: "is_cstr m p xs \<Longrightarrow> 0 \<notin> set xs"
  by (induction xs arbitrary: p) auto

lemma is_cstr_cong:
  assumes "is_cstr m p xs" and "\<And>i. i \<le> length xs \<Longrightarrow> m' (p + of_nat i) = m (p + of_nat i)"
  shows "is_cstr m' p xs"
  using assms
proof (induction xs arbitrary: p)
  case Nil
  then show ?case using Nil.prems(2) [of 0] by simp
next
  case (Cons x xs)
  have "m' (p + 1 + of_nat i) = m (p + 1 + of_nat i)" if "i \<le> length xs" for i
    using Cons.prems(2) [of "Suc i"] that by (simp add: algebra_simps)
  then show ?case
    using Cons.IH [of "p + 1"] Cons.prems(1) Cons.prems(2) [of 0] by simp
qed

lemma strlen_from_cstr:
  "is_cstr m (s + i) xs \<Longrightarrow> strlen_from m s i = Some (i + of_nat (length xs))"
proof (induction xs arbitrary: i)
  case Nil
  then show ?case by (simp add: strlen_from.simps)
next
  case (Cons x xs)
  then show ?case
    using Cons.IH [of "i + 1"] by (simp add: strlen_from.simps [of m s i] algebra_simps)
qed

lemma strlen_cstr: "is_cstr m s xs \<Longrightarrow> strlen m s = Some (of_nat (length xs))"
  using strlen_from_cstr [of m s 0 xs] by (simp add: strlen_def)

text \<open>A scan that returns has met the first NUL byte.\<close>

lemma strlen_from_SomeD:
  assumes "strlen_from m s i = Some n"
  shows "\<exists>xs. is_cstr m (s + i) xs \<and> n = i + of_nat (length xs)"
proof (rule strlen_from.raw_induct
    [where P = "\<lambda>m s i n. \<exists>xs. is_cstr m (s + i) xs \<and> n = i + of_nat (length xs)", OF _ assms])
  fix f m s i n
  assume IH: "\<And>m s i n. f m s i = Some n \<Longrightarrow>
      \<exists>xs. is_cstr m (s + i) xs \<and> n = i + of_nat (length xs)"
    and eq: "(if m (s + i) \<noteq> 0 then f m s (i + 1) else Some i) = Some n"
  show "\<exists>xs. is_cstr m (s + i) xs \<and> n = i + of_nat (length xs)"
  proof (cases "m (s + i) = 0")
    case True
    then show ?thesis using eq by (intro exI [of _ "[]"]) simp
  next
    case False
    then obtain xs where "is_cstr m (s + (i + 1)) xs" "n = i + 1 + of_nat (length xs)"
      using eq IH [of m s "i + 1" n] by auto
    then show ?thesis
      using False by (intro exI [of _ "m (s + i) # xs"]) (simp add: algebra_simps)
  qed
qed

lemma strlen_Some_iff:
  "strlen m s = Some n \<longleftrightarrow> (\<exists>xs. is_cstr m s xs \<and> n = of_nat (length xs))"
  using strlen_from_SomeD [of m s 0 n] strlen_cstr by (auto simp: strlen_def)

function strncpy_loop :: "u32 \<Rightarrow> u32 \<Rightarrow> u32 \<Rightarrow> u32 \<Rightarrow> mem \<Rightarrow> mem" where
  "strncpy_loop s1 s2 n c m =
     (if c < n then
        (if m (s2 + c) = 0 then memset m (s1 + c) 0 (n - c)
         else strncpy_loop s1 s2 n (c + 1) (m(s1 + c := m (s2 + c))))
      else m)"
  by pat_completeness auto
termination
  by (relation "measure (\<lambda>(_, _, n, c, _). unat n - unat c)")
    (auto simp: unat_inc word_less_nat_alt)

declare strncpy_loop.simps [simp del]

lemma strncpy_loop_done [simp]: "\<not> c < n \<Longrightarrow> strncpy_loop s1 s2 n c m = m"
  by (subst strncpy_loop.simps) simp

definition strncpy :: "mem \<Rightarrow> u32 \<Rightarrow> u32 \<Rightarrow> u32 \<Rightarrow> mem" where
  "strncpy m s1 s2 n = strncpy_loop s1 s2 n 0 m"

partial_function (option) strcat_loop :: "u32 \<Rightarrow> u32 \<Rightarrow> u32 \<Rightarrow> u32 \<Rightarrow> mem \<Rightarrow> mem option" where
  "strcat_loop s1_end s2 s2_len idx m =
     (if idx \<le> s2_len then
        (let m' = m(s1_end + idx := m (s2 + idx)) in
         if m' (s2 + idx) = 0 then Some m'
         else strcat_loop s1_end s2 s2_len (idx + 1) m')
      else Some m)"

definition strcat :: "mem \<Rightarrow> u32 \<Rightarrow> u32 \<Rightarrow> mem option" where
  "strcat m s1 s2 =
     (case strlen m s1 of
        None \<Rightarrow> None
      | Some s1_end \<Rightarrow>
          (case strlen m s2 of
             None \<Rightarrow> None
           | Some s2_len \<Rightarrow> strcat_loop (s1 + s1_end) s2 s2_len 0 m))"

function strncat_loop :: "u32 \<Rightarrow> u32 \<Rightarrow> u32 \<Rightarrow> u32 \<Rightarrow> mem \<Rightarrow> mem" where
  "strncat_loop dst s2 n idx m =
     (if idx < n then
        (if m (s2 + idx) = 0 then m
         else strncat_loop dst s2 n (idx + 1) (m(dst + idx := m (s2 + idx))))
      else m)"
  by pat_completeness auto
termination
  by (relation "measure (\<lambda>(_, _, n, idx, _). unat n - unat idx)")
    (auto simp: unat_inc word_less_nat_alt)

declare strncat_loop.simps [simp del]

text \<open>\<open>s1_end\<close> is \<open>strlen(s1)-1\<close>, the index of the last character of \<open>s1\<close>.\<close>

definition strncat :: "mem \<Rightarrow> u32 \<Rightarrow> u32 \<Rightarrow> u32 \<Rightarrow> mem option" where
  "strncat m s1 s2 n =
     (case strlen m s1 of
        None \<Rightarrow> None
      | Some len \<Rightarrow>
          (let s1_end = len - 1; m' = strncat_loop (s1 + s1_end) s2 n 0 m
           in Some (m'(s1 + s1_end + n := 0))))"

subsection \<open>Comparing and searching\<close>

text \<open>\<open>char\<close> is signed on this target, so \<open>*s1 > *s2\<close> compares with \<open>sint\<close>.\<close>

partial_function (option) strcmp :: "mem \<Rightarrow> u32 \<Rightarrow> u32 \<Rightarrow> int option" where
  "strcmp m s1 s2 =
     (if m s1 \<noteq> 0 \<and> m s2 \<noteq> 0 then
        (if m s1 \<noteq> m s2 then Some (if sint (m s1) > sint (m s2) then 1 else - 1)
         else strcmp m (s1 + 1) (s2 + 1))
      else if m s1 = 0 \<and> m s2 = 0 then Some 0
      else if m s1 = 0 then Some (- 1)
      else Some 1)"

definition memchr :: "mem \<Rightarrow> u32 \<Rightarrow> u8 \<Rightarrow> u32 \<Rightarrow> u32" where
  "memchr m s c n =
     (case for_search 0 n (\<lambda>idx. if m (s + idx) = c then Some s else None) of
        Some r \<Rightarrow> r
      | None \<Rightarrow> NULL)"

partial_function (option) strchr_loop :: "(mem \<Rightarrow> u32 \<Rightarrow> u8 \<Rightarrow> u32) \<Rightarrow> mem \<Rightarrow> u32 \<Rightarrow> u8 \<Rightarrow> u32 \<Rightarrow> u32 option" where
  "strchr_loop noret m s c idx =
     (if m (s + idx) \<noteq> c then
        (let idx' = idx + 1 in
         if m (s + idx') = 0 then Some (if c = 0 then s + idx' else NULL)
         else strchr_loop noret m s c idx')
      else Some (noret m s c))"

definition strchr :: "(mem \<Rightarrow> u32 \<Rightarrow> u8 \<Rightarrow> u32) \<Rightarrow> mem \<Rightarrow> u32 \<Rightarrow> u8 \<Rightarrow> u32 option" where
  "strchr noret m s c = strchr_loop noret m s c 0"

subsection \<open>Tokens\<close>

partial_function (option) strtok_skip :: "(mem \<Rightarrow> u32 \<Rightarrow> u8 \<Rightarrow> u32) \<Rightarrow> mem \<Rightarrow> u32 \<Rightarrow> u32 \<Rightarrow> u32 option" where
  "strtok_skip noret m s2 start =
     (if m start \<noteq> 0 then
        Option.bind (strchr noret m s2 (m start))
          (\<lambda>r. if r \<noteq> NULL then strtok_skip noret m s2 (start + 1) else Some start)
      else Some start)"

partial_function (option) strtok_end :: "(mem \<Rightarrow> u32 \<Rightarrow> u8 \<Rightarrow> u32) \<Rightarrow> mem \<Rightarrow> u32 \<Rightarrow> u32 \<Rightarrow> u32 option" where
  "strtok_end noret m s2 e =
     (if m e \<noteq> 0 then
        Option.bind (strchr noret m s2 (m e))
          (\<lambda>r. if r = NULL then strtok_end noret m s2 (e + 1) else Some e)
      else Some e)"

text \<open>
  \<open>saved\<close> is the \<open>static char *saved_position\<close>; the result is the returned pointer, the new
  saved position and the memory.
\<close>

definition strtok :: "(mem \<Rightarrow> u32 \<Rightarrow> u8 \<Rightarrow> u32) \<Rightarrow> mem \<Rightarrow> u32 \<Rightarrow> u32 \<Rightarrow> u32 \<Rightarrow> (u32 \<times> u32 \<times> mem) option" where
  "strtok noret m saved s1 s2 =
     (let saved = (if s1 \<noteq> NULL then s1 else saved) in
      if saved = NULL then Some (NULL, saved, m)
      else
        Option.bind (strtok_skip noret m s2 saved) (\<lambda>start.
          if m start = 0 then Some (NULL, NULL, m)
          else
            Option.bind (strtok_end noret m s2 start) (\<lambda>e.
              if m e \<noteq> 0 then Some (start, e + 1, m(e := 0))
              else Some (start, NULL, m))))"

subsection \<open>Character classes\<close>

definition isprint :: "int \<Rightarrow> bool" where
  "isprint c \<longleftrightarrow> c \<ge> 0x20 \<and> c \<le> 0x7E"

definition isdigit :: "int \<Rightarrow> bool" where
  "isdigit c \<longleftrightarrow> c \<ge> 0x30 \<and> c \<le> 0x39"

definition isalpha :: "int \<Rightarrow> bool" where
  "isalpha c \<longleftrightarrow> (c \<ge> 0x41 \<and> c \<le> 0x5A) \<or> (c \<ge> 0x61 \<and> c \<le> 0x7A)"

definition isalnum :: "int \<Rightarrow> bool" where
  "isalnum c \<longleftrightarrow> isdigit c \<or> isalpha c"

subsection \<open>What the routines compute\<close>

text \<open>
  \<open>strncpy\<close> into a separate block: the characters of the source, then NUL padding up to \<open>n\<close>;
  no NUL is written when the source has \<open>n\<close> characters or more.
\<close>

definition strncpy_spec :: "mem \<Rightarrow> u32 \<Rightarrow> u32 \<Rightarrow> u32 \<Rightarrow> u32 \<Rightarrow> mem" where
  "strncpy_spec m s1 s2 len n =
     (\<lambda>a. if a - s1 < n then (if a - s1 < len then m (s2 + (a - s1)) else 0) else m a)"

lemma strncpy_loop_cstr:
  assumes "is_cstr m (s2 + c) xs" and "c \<le> n" and sep: "n \<le> s1 - s2"
    and "unat c + length xs < 2 ^ 32"
  shows "strncpy_loop s1 s2 n c (copied m s1 s2 c) =
         strncpy_spec m s1 s2 (c + of_nat (length xs)) n"
  using assms(1,2,4)
proof (induction xs arbitrary: c)
  case Nil
  show ?case
  proof (cases "c < n")
    case True
    have src: "copied m s1 s2 c (s2 + c) = 0"
      using Nil.prems(1) copied_source [OF True] sep by simp
    have "memset (copied m s1 s2 c) (s1 + c) 0 (n - c) = strncpy_spec m s1 s2 c n"
    proof
      fix a
      have "a - (s1 + c) < n - c \<longleftrightarrow> c \<le> a - s1 \<and> a - s1 < n"
        using window_shift [OF True, of "a - s1"] by (simp add: diff_diff_add)
      then show "memset (copied m s1 s2 c) (s1 + c) 0 (n - c) a = strncpy_spec m s1 s2 c n a"
        using True by (auto simp: memset_eq strncpy_spec_def copied_def)
    qed
    then show ?thesis
      using True src by (simp add: strncpy_loop.simps [of s1 s2 n c])
  next
    case False
    then have "c = n" using Nil.prems(2) by simp
    then show ?thesis
      by (auto simp: strncpy_spec_def copied_def)
  qed
next
  case (Cons x xs)
  show ?case
  proof (cases "c < n")
    case True
    have src: "copied m s1 s2 c (s2 + c) = x"
      using Cons.prems(1) copied_source [OF True] sep by simp
    have step: "(copied m s1 s2 c)(s1 + c := x) = copied m s1 s2 (c + 1)"
      using copied_step [OF True, of s1 s2 m] sep src by simp
    have "unat (c + 1) + length xs < 2 ^ 32"
      using Cons.prems(3) unat_inc [OF True] by simp
    then show ?thesis
      using Cons.IH [of "c + 1"] Cons.prems(1) src step True word_inc_le [OF True]
      by (simp add: strncpy_loop.simps [of s1 s2 n c] algebra_simps)
  next
    case False
    then have "c = n" using Cons.prems(2) by simp
    moreover have "n \<le> n + of_nat (length (x # xs))"
      using Cons.prems(3) \<open>c = n\<close>
      by (simp add: word_le_nat_alt unat_word_ariths unat_of_nat_small del: of_nat_Suc length_Cons)
    ultimately show ?thesis
      by (auto simp: strncpy_spec_def copied_def fun_eq_iff dest: order_less_le_trans)
  qed
qed

lemma strncpy_cstr:
  assumes "is_cstr m s2 xs" and "n \<le> s1 - s2"
  shows "strncpy m s1 s2 n = strncpy_spec m s1 s2 (of_nat (length xs)) n"
  using strncpy_loop_cstr [of m s2 0 xs n s1] assms is_cstr_length [OF assms(1)]
  by (simp add: strncpy_def)

text \<open>\<open>strcat\<close>: the second string, with its NUL, is copied behind the first.\<close>

lemma strcat_loop_cstr:
  assumes "is_cstr m (s2 + idx) ys" and "unat idx + length ys = unat len"
    and "len \<noteq> - 1" and "len + 1 \<le> d - s2" and "len + 1 \<le> s2 - d"
  shows "strcat_loop d s2 len idx (copied m d s2 idx) = Some (copied m d s2 (len + 1))"
  using assms(1,2)
proof (induction ys arbitrary: idx)
  case Nil
  then have idx: "idx = len" by (simp add: word_unat_eq_iff)
  have lt: "len < len + 1" using assms(3) by (rule unat_inc_max)
  have "copied m d s2 (len + 1) (s2 + len) = 0"
    using Nil.prems(1) idx copied_apart [OF lt _ assms(4,5)] by simp
  then show ?case
    using idx copied_step [OF lt, of d s2 m] assms(4)
    by (simp add: strcat_loop.simps [of d s2 len len] Let_def)
next
  case (Cons y ys)
  have lt: "idx < len" using Cons.prems(2) by (simp add: word_less_nat_alt)
  have lt': "idx < len + 1"
    using lt unat_inc_max [OF assms(3)] by simp
  have "copied m d s2 (idx + 1) (s2 + idx) \<noteq> 0"
    using Cons.prems(1) copied_apart [OF lt' _ assms(4,5), of "idx + 1" m] word_inc_le [OF lt']
    by simp
  moreover have "unat (idx + 1) + length ys = unat len"
    using Cons.prems(2) unat_inc [OF lt] by simp
  ultimately show ?case
    using Cons.IH [of "idx + 1"] Cons.prems(1) less_imp_le [OF lt] copied_step [OF lt', of d s2 m] assms(4)
    by (simp add: strcat_loop.simps [of d s2 len idx] Let_def algebra_simps)
qed

lemma strcat_cstr:
  assumes xs: "is_cstr m s1 xs" and ys: "is_cstr m s2 ys"
    and "of_nat (length ys) \<noteq> MINUS_ONE"
    and "of_nat (length ys) + 1 \<le> s1 + of_nat (length xs) - s2"
    and "of_nat (length ys) + 1 \<le> s2 - (s1 + of_nat (length xs))"
  shows "strcat m s1 s2 =
    Some (copied m (s1 + of_nat (length xs)) s2 (of_nat (length ys) + 1))"
proof -
  have "unat (of_nat (length ys) :: u32) = length ys"
    using is_cstr_length [OF ys] by (rule unat_of_nat_small)
  then show ?thesis
    using strcat_loop_cstr [of m s2 0 ys "of_nat (length ys)" "s1 + of_nat (length xs)"] ys assms(3-5)
    by (simp add: strcat_def strlen_cstr [OF xs] strlen_cstr [OF ys])
qed

text \<open>A copy behind the first string's last character makes one string of the two.\<close>

lemma is_cstr_append_iff:
  "is_cstr m p (xs @ ys) \<longleftrightarrow>
     (\<forall>i < length xs. m (p + of_nat i) = xs ! i \<and> xs ! i \<noteq> 0) \<and>
     is_cstr m (p + of_nat (length xs)) ys"
proof (induction xs arbitrary: p)
  case (Cons x xs)
  show ?case
    using Cons.IH [of "p + 1"] by (auto simp: All_less_Suc2 algebra_simps)
qed simp

lemma copied_cstr:
  assumes "is_cstr m s2 ys" and "length ys + 1 < 2 ^ 32"
  shows "is_cstr (copied m d s2 (of_nat (length ys) + 1)) d ys"
proof -
  have "of_nat i < (of_nat (length ys) + 1 :: u32)" if "i \<le> length ys" for i
    using that assms(2) by (simp add: word_less_nat_alt unat_of_nat_small unat_word_ariths)
  then have "copied m d s2 (of_nat (length ys) + 1) (d + of_nat i) = m (s2 + of_nat i)"
    if "i \<le> length ys" for i
    using that by (simp add: copied_inside)
  then show ?thesis
    using is_cstr_nth [OF assms(1)] is_cstr_end [OF assms(1)]
      is_cstr_append_iff [of _ d ys "[]"] by simp
qed

text \<open>The reference comparison on character lists.\<close>

fun strcmp_spec :: "u8 list \<Rightarrow> u8 list \<Rightarrow> int" where
  "strcmp_spec [] [] = 0"
| "strcmp_spec [] (y # ys) = - 1"
| "strcmp_spec (x # xs) [] = 1"
| "strcmp_spec (x # xs) (y # ys) =
     (if x \<noteq> y then (if sint x > sint y then 1 else - 1) else strcmp_spec xs ys)"

lemma strcmp_cstr:
  "is_cstr m p xs \<Longrightarrow> is_cstr m q ys \<Longrightarrow> strcmp m p q = Some (strcmp_spec xs ys)"
  by (induction xs ys arbitrary: p q rule: strcmp_spec.induct) (subst strcmp.simps, simp)+

lemma strcmp_spec_0_iff: "strcmp_spec xs ys = 0 \<longleftrightarrow> xs = ys"
  by (induction xs ys rule: strcmp_spec.induct) auto

lemma strcmp_spec_sym: "strcmp_spec ys xs = - strcmp_spec xs ys"
  by (induction xs ys rule: strcmp_spec.induct) (auto dest: signed_word_eqI)

lemma memchr_eq:
  "memchr m s c n = (if \<exists>i < n. m (s + i) = c then s else NULL)"
proof (cases "for_search 0 n (\<lambda>idx. if m (s + idx) = c then Some s else None)")
  case None
  then have "\<not> (\<exists>i < n. m (s + i) = c)"
    by (auto simp: for_search_None_iff split: if_splits)
  with None show ?thesis by (auto simp: memchr_def)
next
  case (Some r)
  then obtain j where "j < n" "(if m (s + j) = c then Some s else None) = Some r"
    by (rule for_search_SomeE)
  with Some show ?thesis
    by (auto simp: memchr_def split: if_splits)
qed

lemma strchr_loop_cstr:
  "is_cstr m (s + idx) (y # ys) \<Longrightarrow> c \<noteq> 0 \<Longrightarrow>
     strchr_loop noret m s c idx = Some (if c \<in> set (y # ys) then noret m s c else NULL)"
proof (induction ys arbitrary: y idx)
  case Nil
  then show ?case
    by (subst strchr_loop.simps) (auto simp: Let_def algebra_simps)
next
  case (Cons z zs)
  have "is_cstr m (s + (idx + 1)) (z # zs)"
    using Cons.prems(1) by (simp add: algebra_simps)
  from Cons.IH [OF this Cons.prems(2)] show ?case
    using Cons.prems by (subst strchr_loop.simps) (auto simp: Let_def algebra_simps)
qed

text \<open>
  The characters \<open>D\<close> that count as delimiters are those of the (non-empty) delimiter string for
  which the missing return leaves something else than NULL.
\<close>

definition is_delims :: "(mem \<Rightarrow> u32 \<Rightarrow> u8 \<Rightarrow> u32) \<Rightarrow> mem \<Rightarrow> u32 \<Rightarrow> u8 list \<Rightarrow> u8 set \<Rightarrow> bool" where
  "is_delims noret m s2 ds D \<longleftrightarrow> ds \<noteq> [] \<and> is_cstr m s2 ds \<and> D = {d \<in> set ds. noret m s2 d \<noteq> NULL}"

lemma strchr_delims:
  assumes "is_delims noret m s2 ds D" and "c \<noteq> 0"
  shows "\<exists>r. strchr noret m s2 c = Some r \<and> (r \<noteq> NULL \<longleftrightarrow> c \<in> D)"
proof -
  obtain y ys where ds: "ds = y # ys"
    using assms(1) by (cases ds) (auto simp: is_delims_def)
  have "strchr noret m s2 c = Some (if c \<in> set ds then noret m s2 c else NULL)"
    using strchr_loop_cstr [of m s2 0 y ys c noret] assms
    unfolding strchr_def ds is_delims_def by simp
  then show ?thesis using assms(1) by (auto simp: is_delims_def)
qed

lemma strtok_skip_cstr:
  assumes "is_delims noret m s2 ds D" and "is_cstr m p (xs @ ys)" and "set xs \<subseteq> D"
    and "ys = [] \<or> hd ys \<notin> D"
  shows "strtok_skip noret m s2 p = Some (p + of_nat (length xs))"
  using assms(2,3)
proof (induction xs arbitrary: p)
  case Nil
  show ?case
  proof (cases ys)
    case Nil
    then show ?thesis using Nil.prems by (simp add: strtok_skip.simps [of noret m s2 p])
  next
    case (Cons y zs)
    then obtain r where "strchr noret m s2 y = Some r" "r = NULL"
      using strchr_delims [OF assms(1), of y] Nil.prems assms(4) by auto
    then show ?thesis
      using Cons Nil.prems by (simp add: strtok_skip.simps [of noret m s2 p])
  qed
next
  case (Cons x xs)
  obtain r where "strchr noret m s2 x = Some r" "r \<noteq> NULL"
    using strchr_delims [OF assms(1), of x] Cons.prems by auto
  then show ?case
    using Cons.IH [of "p + 1"] Cons.prems
    by (simp add: strtok_skip.simps [of noret m s2 p] algebra_simps)
qed

lemma strtok_end_cstr:
  assumes "is_delims noret m s2 ds D" and "is_cstr m p (xs @ ys)" and "set xs \<inter> D = {}"
    and "ys = [] \<or> hd ys \<in> D"
  shows "strtok_end noret m s2 p = Some (p + of_nat (length xs))"
  using assms(2,3)
proof (induction xs arbitrary: p)
  case Nil
  show ?case
  proof (cases ys)
    case Nil
    then show ?thesis using Nil.prems by (simp add: strtok_end.simps [of noret m s2 p])
  next
    case (Cons y zs)
    then obtain r where "strchr noret m s2 y = Some r" "r \<noteq> NULL"
      using strchr_delims [OF assms(1), of y] Nil.prems assms(4) by auto
    then show ?thesis
      using Cons Nil.prems by (simp add: strtok_end.simps [of noret m s2 p])
  qed
next
  case (Cons x xs)
  obtain r where "strchr noret m s2 x = Some r" "r = NULL"
    using strchr_delims [OF assms(1), of x] Cons.prems by auto
  then show ?case
    using Cons.IH [of "p + 1"] Cons.prems
    by (simp add: strtok_end.simps [of noret m s2 p] algebra_simps)
qed

text \<open>
  One call of \<open>strtok\<close> on a fresh string \<open>lead @ tok @ rest\<close>: leading delimiters are skipped,
  the token ends at the first delimiter, which becomes NUL, and the rest is saved.
\<close>

lemma strtok_cstr:
  assumes "is_delims noret m s2 ds D" and "s1 \<noteq> NULL"
    and "is_cstr m s1 (lead @ tok @ rest)"
    and "set lead \<subseteq> D" and "set tok \<inter> D = {}" and "tok \<noteq> []"
    and "rest = [] \<or> hd rest \<in> D"
  shows "strtok noret m saved s1 s2 =
    (let start = s1 + of_nat (length lead); e = start + of_nat (length tok)
     in if rest = [] then Some (start, NULL, m) else Some (start, e + 1, m(e := 0)))"
proof -
  let ?start = "s1 + of_nat (length lead)"
  let ?e = "?start + of_nat (length tok)"
  have tok: "is_cstr m ?start (tok @ rest)"
    using assms(3) by (simp add: is_cstr_append_iff)
  have skip: "strtok_skip noret m s2 s1 = Some ?start"
    using strtok_skip_cstr [OF assms(1,3,4)] assms(5,6) by (cases tok) auto
  have e: "strtok_end noret m s2 ?start = Some ?e"
    using strtok_end_cstr [OF assms(1) tok assms(5,7)] .
  have "m ?start \<noteq> 0"
    using tok assms(6) by (cases tok) auto
  moreover have "m ?e = 0 \<longleftrightarrow> rest = []"
    using tok is_cstr_end [of m ?start tok] by (cases rest) (auto simp: is_cstr_append_iff)
  ultimately show ?thesis
    using skip e assms(2) by (simp add: strtok_def Let_def)
qed

subsection \<open>Properties\<close>

text \<open>
  C7. \<open>memmove\<close> is a copy of the old block, whichever way the two blocks overlap, for blocks
  that do not run past the end of the address space: every byte of the destination holds the
  old byte of the source, and no other byte changes.
\<close>

theorem memmove_overlap:
  assumes "unat dest + unat n \<le> 2 ^ 32" and "unat src + unat n \<le> 2 ^ 32"
  shows "memmove m dest src n = (\<lambda>a. if a - dest < n then m (src + (a - dest)) else m a)"
  using memmove_copied [OF assms] by (simp add: copied_def)

definition ex_mem :: mem where
  "ex_mem = (\<lambda>_. 0)(0x100 := 0x61, 0x101 := 0x62, 0x102 := 0x20, 0x103 := 0x63,
     0x200 := 0x20, 0x201 := 0x3B, 0x300 := 0x61, 0x301 := 0xE1)"

theorem memmove_overlap_witness:
  "unat (0x101 :: u32) + unat (3 :: u32) \<le> 2 ^ 32 \<and>
   memmove ex_mem 0x101 0x100 3 0x103 = 0x20 \<and> memmove ex_mem 0x101 0x100 3 0x104 = 0"
  by (simp add: memmove_overlap [of "0x101" 3 "0x100" ex_mem]) (simp add: ex_mem_def)

text \<open>
  C13. \<open>strlen\<close> returns exactly when a NUL-terminated string starts at \<open>s\<close>, and then returns
  the number of its characters.
\<close>

theorem strlen_returns_iff:
  "strlen m s = Some n \<longleftrightarrow> (\<exists>xs. is_cstr m s xs \<and> n = of_nat (length xs))"
  by (rule strlen_Some_iff)

text \<open>
  C12. \<open>strcat\<close> returns, leaves the concatenation of the two strings at \<open>s1\<close> and changes
  no byte but those behind the first string, when the second string is not overlapped by
  the bytes written and the sum of the lengths stays below the address space.
\<close>

theorem strcat_concatenates:
  assumes "is_cstr m s1 xs" and "is_cstr m s2 ys" and "length ys + 1 < 2 ^ 32"
    and "of_nat (length ys) + 1 \<le> s1 + of_nat (length xs) - s2"
    and "of_nat (length ys) + 1 \<le> s2 - (s1 + of_nat (length xs))"
    and "length xs + length ys < 2 ^ 32"
  shows "\<exists>m'. strcat m s1 s2 = Some m' \<and> is_cstr m' s1 (xs @ ys) \<and>
    (\<forall>a. \<not> a - (s1 + of_nat (length xs)) < of_nat (length ys) + 1 \<longrightarrow> m' a = m a)"
proof -
  let ?d = "s1 + of_nat (length xs)" and ?n = "of_nat (length ys) + 1 :: u32"
  let ?m' = "copied m ?d s2 ?n"
  have len: "unat (of_nat (length ys) :: u32) = length ys"
    using assms(3) by (intro unat_of_nat_small) simp
  then have n: "unat ?n = length ys + 1"
    using assms(3) by (subst unat_add_small) simp_all
  have "of_nat (length ys) \<noteq> MINUS_ONE"
    using len assms(3) unat_minus_one by auto
  then have "strcat m s1 s2 = Some ?m'"
    using strcat_cstr [OF assms(1,2) _ assms(4,5)] by simp
  moreover have "?m' (s1 + of_nat i) = m (s1 + of_nat i)" if "i < length xs" for i
  proof (rule copied_outside)
    have "unat (of_nat i - of_nat (length xs) :: u32) = 2 ^ 32 + i - length xs"
      using that assms(6) unat_of_nat_small [of i] unat_of_nat_small [of "length xs"]
      by (simp add: unat_sub_if_size word_size)
    moreover have "2 ^ 32 + i - length xs \<ge> length ys + 1" using assms(6) that by simp
    ultimately show "\<not> s1 + of_nat i - ?d < ?n"
      using n by (simp add: word_less_nat_alt)
  qed
  then have "is_cstr ?m' s1 (xs @ ys)"
    using copied_cstr [OF assms(2,3), of ?d] is_cstr_nth [OF assms(1)]
    by (simp add: is_cstr_append_iff)
  ultimately show ?thesis using copied_outside by blast
qed

theorem strcat_concatenates_witness:
  "\<exists>m'. strcat ex_mem 0x100 0x200 = Some m' \<and>
     is_cstr m' 0x100 ([0x61, 0x62, 0x20, 0x63] @ [0x20, 0x3B])"
  using strcat_concatenates [of ex_mem "0x100" "[0x61, 0x62, 0x20, 0x63]" "0x200" "[0x20, 0x3B]"]
  by (auto simp: ex_mem_def)

text \<open>
  \<open>strncpy\<close> into a block that does not overlap its source copies the string and pads it
  with NUL bytes to \<open>n\<close>, so the result is a terminated string exactly when the source is
  shorter than \<open>n\<close>; the bytes outside the block are kept.
\<close>

theorem strncpy_pads:
  assumes "is_cstr m s2 xs" and "n \<le> s1 - s2"
  shows "strncpy m s1 s2 n = (\<lambda>a. if a - s1 < n
      then (if a - s1 < of_nat (length xs) then m (s2 + (a - s1)) else 0) else m a)"
  using strncpy_cstr [OF assms] by (simp add: strncpy_spec_def)

theorem strncpy_pads_witness:
  "is_cstr ex_mem 0x100 [0x61, 0x62, 0x20, 0x63] \<and>
   strncpy ex_mem 0x300 0x100 8 0x303 = 0x63 \<and> strncpy ex_mem 0x300 0x100 8 0x304 = 0"
  using strncpy_pads [of ex_mem "0x100" "[0x61, 0x62, 0x20, 0x63]" 8 "0x300"]
  by (simp add: ex_mem_def)

text \<open>
  \<open>strcmp\<close> of two C strings returns, its result is zero exactly for equal strings, and
  exchanging the arguments negates it; the order is that of signed characters.
\<close>

theorem strcmp_order:
  assumes "is_cstr m p xs" and "is_cstr m q ys"
  shows "\<exists>r. strcmp m p q = Some r \<and> strcmp m q p = Some (- r) \<and> (r = 0 \<longleftrightarrow> xs = ys) \<and>
    r = strcmp_spec xs ys"
  using strcmp_cstr [OF assms] strcmp_cstr [OF assms(2,1)] strcmp_spec_sym [of ys xs]
    strcmp_spec_0_iff [of xs ys] by simp

theorem strcmp_order_witness:
  "\<exists>r. strcmp ex_mem 0x100 0x300 = Some r \<and> r = 1"
  using strcmp_order [of ex_mem "0x100" "[0x61, 0x62, 0x20, 0x63]" "0x300" "[0x61, 0xE1]"]
  by (auto simp: ex_mem_def)

text \<open>
  C8. One call of \<open>strtok\<close> on a string \<open>xs\<close>, for whatever \<open>strchr\<close> leaves in the result register
  where it has no return statement: a character counts as a delimiter when it is in the delimiter
  string and that value is not NULL for it. The leading delimiters are skipped. When nothing is left
  the call gives NULL; else it returns the position of the token, the longest prefix without a
  delimiter, ends it there with NUL when more characters follow, and saves the position behind it (NULL
  when the string is used up). No other byte changes.
\<close>

theorem strtok_returns_token:
  assumes "is_cstr m s2 ds" and "ds \<noteq> []" and "s1 \<noteq> NULL" and "is_cstr m s1 xs"
    and "D = {d \<in> set ds. noret m s2 d \<noteq> NULL}"
    and "start = s1 + of_nat (length (takeWhile (\<lambda>c. c \<in> D) xs))"
    and "tail = dropWhile (\<lambda>c. c \<in> D) xs" and "tok = takeWhile (\<lambda>c. c \<notin> D) tail"
  shows "if tail = [] then strtok noret m saved s1 s2 = Some (NULL, NULL, m)
    else if tok = tail then strtok noret m saved s1 s2 = Some (start, NULL, m) \<and> is_cstr m start tok
    else (let e = start + of_nat (length tok); m' = m(e := 0) in
      strtok noret m saved s1 s2 = Some (start, e + 1, m') \<and> is_cstr m' start tok)"
proof -
  let ?lead = "takeWhile (\<lambda>c. c \<in> D) xs" and ?rest = "dropWhile (\<lambda>c. c \<notin> D) tail"
  have del: "is_delims noret m s2 ds D" using assms(1,2,5) by (simp add: is_delims_def)
  have xs: "is_cstr m s1 (?lead @ tail)" using assms(4,7) by simp
  have lead: "set ?lead \<subseteq> D" by (auto dest: set_takeWhileD)
  have parts: "tail = tok @ ?rest" "set tok \<inter> D = {}" "?rest = [] \<or> hd ?rest \<in> D"
    using hd_dropWhile [of "\<lambda>c. c \<notin> D" tail] by (auto simp: assms(8) dest: set_takeWhileD)
  show ?thesis
  proof (cases "tail = []")
    case True
    have "strtok_skip noret m s2 s1 = Some start"
      unfolding assms(6) by (rule strtok_skip_cstr [OF del xs lead]) (simp add: True)
    moreover have "m start = 0" using is_cstr_end [of m s1 ?lead] xs by (simp add: True assms(6))
    ultimately show ?thesis using True assms(3) by (simp add: strtok_def Let_def)
  next
    case False
    have "hd tail \<notin> D" using False hd_dropWhile [of "\<lambda>c. c \<in> D" xs] by (simp add: assms(7))
    then have tok: "tok \<noteq> []" using False by (cases tail) (simp_all add: assms(8))
    have split: "is_cstr m start (tok @ ?rest)"
      using xs parts(1) by (simp add: is_cstr_append_iff assms(6))
    have "length tok < 2 ^ 32" using is_cstr_length [OF split] by simp
    then have "of_nat i \<noteq> (of_nat (length tok) :: u32)" if "i < length tok" for i
      using that unat_of_nat_small [of i] unat_of_nat_small [of "length tok"] by fastforce
    then have cut: "is_cstr (m(start + of_nat (length tok) := 0)) start tok"
      using split is_cstr_append_iff [of m start tok ?rest]
        is_cstr_append_iff [of "m(start + of_nat (length tok) := 0)" start tok "[]"] by simp
    have all: "?rest = [] \<longleftrightarrow> tok = tail" using parts(1) by (metis append_Nil2 append_self_conv)
    have whole: "is_cstr m start tok" if "?rest = []" using split that by simp
    have "is_cstr m s1 (?lead @ tok @ ?rest)" using xs parts(1) by simp
    from strtok_cstr [OF del assms(3) this lead parts(2) tok parts(3), of saved]
    have res: "strtok noret m saved s1 s2 =
      (if ?rest = [] then Some (start, NULL, m)
       else Some (start, start + of_nat (length tok) + 1, m(start + of_nat (length tok) := 0)))"
      by (simp add: Let_def assms(6))
    show ?thesis
    proof (cases "?rest = []")
      case True
      then show ?thesis using False whole all by (simp only: res Let_def if_True if_False simp_thms)
    next
      case more: False
      then show ?thesis using False cut all by (simp only: res Let_def if_True if_False simp_thms)
    qed
  qed
qed

theorem strtok_returns_token_witness:
  "strtok (\<lambda>_ _ c. if c = 0x20 then 1 else NULL) ex_mem 0 0x100 0x200 = Some (0x100, 0x103, ex_mem(0x102 := 0)) \<and>
   is_cstr (ex_mem(0x102 := 0)) 0x100 [0x61, 0x62]"
  using strtok_returns_token [of ex_mem "0x200" "[0x20, 0x3B]" "0x100" "[0x61, 0x62, 0x20, 0x63]" "{0x20}"
      "\<lambda>_ _ c. if c = 0x20 then 1 else NULL" "0x100" "[0x61, 0x62, 0x20, 0x63]" "[0x61, 0x62]" 0]
  by (auto simp: ex_mem_def)

end
