(* ===== verification/Addresses.thy ===== *)
theory Addresses
  imports Prelude
begin

text \<open>
  The address arithmetic of \<^verbatim>\<open>src/include/kernel/memory_management/paging.h\<close> and
  \<^verbatim>\<open>src/include/utils.h\<close>, for the build the Makefile makes (\<open>ARCH_x86\<close>,
  \<open>PAGE_SIZE_4K\<close>). All of it is 32-bit and wraps around.
\<close>

subsection \<open>Pages and frames\<close>

definition PAGE_SIZE :: u32 where "PAGE_SIZE = 4096"

definition PAGE_FRAME_BITMASK :: u32 where "PAGE_FRAME_BITMASK = NOT (PAGE_SIZE - 1)"

definition pfn_to_phys_addy :: "u32 \<Rightarrow> u32" where
  "pfn_to_phys_addy pfn = pfn * PAGE_SIZE"

definition phys_addy_to_pfn :: "u32 \<Rightarrow> u32" where
  "phys_addy_to_pfn a = a div PAGE_SIZE"

definition num_pages_needed :: "u32 \<Rightarrow> u32" where
  "num_pages_needed sz = (sz + (PAGE_SIZE - 1)) div PAGE_SIZE"

definition get_page_above_pfn :: "u32 \<Rightarrow> u32" where
  "get_page_above_pfn address = (address + (PAGE_SIZE - 1)) div PAGE_SIZE"

definition round_up_to_nearest_page :: "u32 \<Rightarrow> u32" where
  "round_up_to_nearest_page address = (address + (PAGE_SIZE - 1)) AND PAGE_FRAME_BITMASK"

definition round_down_to_nearest_page :: "u32 \<Rightarrow> u32" where
  "round_down_to_nearest_page address = address AND PAGE_FRAME_BITMASK"

definition get_pfn :: "u32 \<Rightarrow> u32" where
  "get_pfn address = address div PAGE_SIZE"

text \<open>\<open>_kernel_vm_offset\<close> of linker.ld, and the two macros over it.\<close>

definition kernel_vm_offset :: u32 where "kernel_vm_offset = 0xC0000000"

definition phys_addy :: "u32 \<Rightarrow> u32" where
  "phys_addy a = a - kernel_vm_offset"

definition virt_addy :: "u32 \<Rightarrow> u32" where
  "virt_addy a = a + kernel_vm_offset"

subsection \<open>Page directory and page table indices\<close>

definition PAGE_TAB_INDEX_BIT_INDEX :: nat where "PAGE_TAB_INDEX_BIT_INDEX = 12"

definition PAGE_DIR_INDEX_BIT_INDEX :: nat where "PAGE_DIR_INDEX_BIT_INDEX = 22"

definition PAGE_TAB_INDEX_BITMASK :: u32 where "PAGE_TAB_INDEX_BITMASK = 0x3ff"

definition RECURSIVE_PDE_IDX :: u32 where "RECURSIVE_PDE_IDX = 0x3c3"

definition get_pte_idx :: "u32 \<Rightarrow> u32" where
  "get_pte_idx va = drop_bit PAGE_TAB_INDEX_BIT_INDEX va AND PAGE_TAB_INDEX_BITMASK"

definition get_PDE_idx :: "u32 \<Rightarrow> u32" where
  "get_PDE_idx va = drop_bit PAGE_DIR_INDEX_BIT_INDEX va"

definition paging_entry_present :: "u32 \<Rightarrow> bool" where
  "paging_entry_present v \<longleftrightarrow> v AND 1 \<noteq> 0"

definition get_pageframe_address :: "u32 \<Rightarrow> u32" where
  "get_pageframe_address v = v AND PAGE_FRAME_BITMASK"

definition get_page_tab_virtual_pointer :: "u32 \<Rightarrow> u32" where
  "get_page_tab_virtual_pointer pde_idx =
     push_bit PAGE_DIR_INDEX_BIT_INDEX RECURSIVE_PDE_IDX OR
     push_bit PAGE_TAB_INDEX_BIT_INDEX (pde_idx AND 0x3ff)"

definition construct_virtual_address :: "u32 \<Rightarrow> u32 \<Rightarrow> u32" where
  "construct_virtual_address pde_idx pte_idx =
     push_bit PAGE_DIR_INDEX_BIT_INDEX pde_idx OR push_bit PAGE_TAB_INDEX_BIT_INDEX pte_idx"

lemmas addr_defs = PAGE_SIZE_def PAGE_FRAME_BITMASK_def PAGE_TAB_INDEX_BIT_INDEX_def
  PAGE_DIR_INDEX_BIT_INDEX_def PAGE_TAB_INDEX_BITMASK_def RECURSIVE_PDE_IDX_def
  get_pte_idx_def get_PDE_idx_def get_pageframe_address_def get_page_tab_virtual_pointer_def
  construct_virtual_address_def paging_entry_present_def

subsection \<open>Facts\<close>

lemma unat_num_pages_needed:
  assumes "unat sz + 4095 < 2 ^ 32"
  shows "unat (num_pages_needed sz) = (unat sz + 4095) div 4096"
  using assms by (simp add: num_pages_needed_def PAGE_SIZE_def unat_div_distrib unat_add_small)

lemma num_pages_needed_bound: "num_pages_needed sz \<le> 0xFFFFF"
proof -
  have "unat (num_pages_needed sz) = unat (sz + 4095) div 4096"
    by (simp add: num_pages_needed_def PAGE_SIZE_def unat_div_distrib)
  also have "\<dots> \<le> 4294967295 div 4096"
    using unat_lt_2p32 [of "sz + 4095"] by (intro div_le_mono) simp
  finally show ?thesis by (simp add: word_le_nat_alt)
qed

lemma num_pages_cover:
  assumes "unat sz + 4095 < 2 ^ 32"
  shows "unat sz \<le> unat (num_pages_needed sz) * 4096"
  unfolding unat_num_pages_needed [OF assms] by linarith

lemma unat_pfn_to_phys_addy:
  assumes "pfn \<le> 0xFFFFF"
  shows "unat (pfn_to_phys_addy pfn) = unat pfn * 4096"
proof -
  have "unat pfn * unat (4096::u32) < 2 ^ 32"
    using assms by (simp add: word_le_nat_alt)
  then show ?thesis
    by (simp add: pfn_to_phys_addy_def PAGE_SIZE_def unat_mult_small)
qed

lemma pfn_round_trip:
  assumes "pfn \<le> 0xFFFFF"
  shows "phys_addy_to_pfn (pfn_to_phys_addy pfn) = pfn"
proof -
  have "unat (phys_addy_to_pfn (pfn_to_phys_addy pfn)) = unat pfn"
    by (simp add: phys_addy_to_pfn_def PAGE_SIZE_def unat_div_distrib unat_pfn_to_phys_addy assms)
  then show ?thesis by (simp add: word_unat_eq_iff)
qed

lemma pfn_to_phys_addy_inj:
  "p \<le> 0xFFFFF \<Longrightarrow> q \<le> 0xFFFFF \<Longrightarrow> pfn_to_phys_addy p = pfn_to_phys_addy q \<longleftrightarrow> p = q"
  by (metis pfn_round_trip)

lemma mask_12: "(0xfff :: u32) = mask 12"
  by (simp add: mask_eq_exp_minus_1)

lemma mask_10: "(0x3ff :: u32) = mask 10"
  by (simp add: mask_eq_exp_minus_1)

lemma page_frame_bitmask: "PAGE_FRAME_BITMASK = NOT (mask 12)"
  by (simp add: PAGE_FRAME_BITMASK_def PAGE_SIZE_def mask_eq_exp_minus_1)

lemma page_index_split:
  "construct_virtual_address (get_PDE_idx va) (get_pte_idx va) OR (va AND 0xfff) = va"
proof (rule bit_word_eqI)
  fix n assume "n < LENGTH(32)"
  then show "bit (construct_virtual_address (get_PDE_idx va) (get_pte_idx va) OR (va AND 0xfff)) n
      = bit va n"
    unfolding construct_virtual_address_def get_PDE_idx_def get_pte_idx_def
      PAGE_DIR_INDEX_BIT_INDEX_def PAGE_TAB_INDEX_BIT_INDEX_def PAGE_TAB_INDEX_BITMASK_def
      mask_12 mask_10
    by (simp only: bit_or_iff bit_and_iff bit_push_bit_iff bit_drop_bit_eq bit_mask_iff o_def)
      (cases "n < 12"; cases "n < 22"; auto simp: less_diff_conv2 not_less)
qed

end
