(* ===== verification/Memory.thy ===== *)
theory Memory
  imports Prelude
begin

text \<open>
  Reading and writing a little-endian 32-bit value in the byte memory, as the C code does
  through an \<open>unsigned int *\<close>, and an array of such values at a base address.
\<close>

definition read32 :: "mem \<Rightarrow> u32 \<Rightarrow> u32" where
  "read32 m a =
     ucast (m a) OR push_bit 8 (ucast (m (a + 1))) OR
     push_bit 16 (ucast (m (a + 2))) OR push_bit 24 (ucast (m (a + 3)))"

definition write32 :: "mem \<Rightarrow> u32 \<Rightarrow> u32 \<Rightarrow> mem" where
  "write32 m a v =
     m(a := ucast v, a + 1 := ucast (drop_bit 8 v),
       a + 2 := ucast (drop_bit 16 v), a + 3 := ucast (drop_bit 24 v))"

text \<open>Four bytes whose addresses are apart from the four at \<open>a\<close>.\<close>

definition apart32 :: "u32 \<Rightarrow> u32 \<Rightarrow> bool" where
  "apart32 a b \<longleftrightarrow> 4 \<le> a - b \<and> 4 \<le> b - a"

lemma bytes_of_word:
  "ucast (ucast v :: u8) OR push_bit 8 (ucast (ucast (drop_bit 8 v) :: u8)) OR
   push_bit 16 (ucast (ucast (drop_bit 16 v) :: u8)) OR
   push_bit 24 (ucast (ucast (drop_bit 24 v) :: u8)) = (v :: u32)"
proof (rule bit_word_eqI)
  fix n assume "n < LENGTH(32)"
  then show "bit (ucast (ucast v :: u8) OR push_bit 8 (ucast (ucast (drop_bit 8 v) :: u8)) OR
      push_bit 16 (ucast (ucast (drop_bit 16 v) :: u8)) OR
      push_bit 24 (ucast (ucast (drop_bit 24 v) :: u8)) :: u32) n = bit v n"
    by (simp only: bit_or_iff bit_push_bit_iff bit_ucast_iff bit_drop_bit_eq o_def)
      (cases "n < 8"; cases "n < 16"; cases "n < 24"; auto simp: less_diff_conv2 not_less)
qed

lemma read32_write32_same [simp]: "read32 (write32 m a v) a = v"
  using bytes_of_word [of v] by (simp add: read32_def write32_def)

lemma apart32_neq:
  assumes "apart32 a b" and "i < 4" and "j < 4"
  shows "a + i \<noteq> b + j"
proof
  assume "a + i = b + j"
  then have "a - b = j - i" and "b - a = i - j" by (simp_all add: algebra_simps)
  then have "4 \<le> j - i" "4 \<le> i - j"
    using assms(1) by (simp_all add: apart32_def)
  then show False using assms(2,3) by unat_arith
qed

lemma write32_other:
  assumes "\<And>i. i < 4 \<Longrightarrow> a + i \<noteq> b"
  shows "write32 m a v b = m b"
  using assms [of 0] assms [of 1] assms [of 2] assms [of 3] by (simp add: write32_def)

lemma read32_write32_other:
  assumes "apart32 a b"
  shows "read32 (write32 m a v) b = read32 m b"
proof -
  have "write32 m a v (b + j) = m (b + j)" if "j < 4" for j
    using apart32_neq [OF assms _ that] by (intro write32_other) auto
  from this [of 0] this [of 1] this [of 2] this [of 3] show ?thesis
    by (simp add: read32_def)
qed

text \<open>Element addresses of an array of words that fits in the address space.\<close>

lemma apart32_array:
  assumes "i < 0x40000000" and "j < 0x40000000" and "i \<noteq> j"
  shows "apart32 (base + 4 * i) (base + 4 * j)"
proof -
  have far: "4 \<le> 4 * x - 4 * y \<and> 4 \<le> 4 * y - 4 * x" if "y < x" "x < 0x40000000" for x y :: u32
  proof -
    have x: "unat (4 * x) = 4 * unat x" and y: "unat (4 * y) = 4 * unat y"
      using that by (simp_all add: unat_mult_small word_less_nat_alt)
    have "unat (4 * x - 4 * y) = 4 * unat x - 4 * unat y"
      using that(1) x y by (subst unat_sub_le) (simp_all add: word_le_nat_alt word_less_nat_alt)
    moreover have "unat (4 * y - 4 * x) = 4294967296 + 4 * unat y - 4 * unat x"
      using that(1) x y by (simp add: unat_sub_if_size word_size word_less_nat_alt)
    ultimately show ?thesis
      using that by (simp add: word_le_nat_alt word_less_nat_alt) arith
  qed
  show ?thesis
    using far [of j i] far [of i j] assms
    by (cases "i < j") (auto simp: apart32_def)
qed

lemma read32_write32_array:
  assumes "i < 0x40000000" and "j < 0x40000000"
  shows "read32 (write32 m (base + 4 * i) v) (base + 4 * j) =
    (if i = j then v else read32 m (base + 4 * j))"
  using apart32_array [OF assms] by (auto simp: read32_write32_other)

end
