(* ===== verification/Pmm.thy ===== *)
theory Pmm
  imports Addresses Memory
begin

text \<open>
  \<^verbatim>\<open>src/kernel/memory_management/pmm.c\<close>: the physical memory manager. Its bitmap is an
  array of \<open>unsigned int\<close> in kernel memory, one bit per page frame, set when the frame is
  allocated. The state is the kernel memory and the file's globals; \<open>init_pmm\<close>, which also
  maps the bitmap, is in the theory of the memory start-up.
\<close>

subsection \<open>State and operations\<close>

record pmm_state =
  kmem :: mem
  alloc_bitmap :: u32
  bitmap_num_bits :: u32
  pmm_bitmap_start_addy :: u32
  pmm_bitmap_end_addy :: u32

definition NUM_BITS_IN_ONE_BITMAP :: u32 where "NUM_BITS_IN_ONE_BITMAP = 32"

definition get_pfn_parent_bitmap :: "u32 \<Rightarrow> u32 \<Rightarrow> u32" where
  "get_pfn_parent_bitmap bitmap_start pfn = bitmap_start + 4 * (pfn div NUM_BITS_IN_ONE_BITMAP)"

definition test_bit :: "mem \<Rightarrow> u32 \<Rightarrow> u32 \<Rightarrow> bool" where
  "test_bit m bitmap bit_index =
     (let parent_bitmap = get_pfn_parent_bitmap bitmap bit_index;
          local_bit_idx = (ucast (bit_index mod NUM_BITS_IN_ONE_BITMAP) :: u8)
      in read32 m parent_bitmap AND push_bit (unat local_bit_idx) 1 \<noteq> 0)"

text \<open>
  The inner loop runs while \<open>seq_bit_idx <= bit_idx+num_sequential_bits_needed\<close>; its bound
  is written here as the exclusive \<open>bit_idx + num + 1\<close>.
\<close>

definition run_is_taken :: "mem \<Rightarrow> u32 \<Rightarrow> u32 \<Rightarrow> u32 \<Rightarrow> bool" where
  "run_is_taken m bitmap bit_idx num =
     (for_search (bit_idx + 1) (bit_idx + num + 1)
        (\<lambda>seq_bit_idx. if test_bit m bitmap seq_bit_idx then Some () else None) \<noteq> None)"

definition find_first_avail_pfn :: "mem \<Rightarrow> u32 \<Rightarrow> u32 \<Rightarrow> u32 \<Rightarrow> u32" where
  "find_first_avail_pfn m bitmap num_bits num =
     (case for_search 0 num_bits (\<lambda>bit_idx.
         if \<not> test_bit m bitmap bit_idx then
           (let last_bit_idx = bit_idx + num - 1 in
            if \<not> last_bit_idx < num_bits then Some MINUS_ONE
            else if \<not> run_is_taken m bitmap bit_idx num then Some bit_idx
            else None)
         else None) of
        Some r \<Rightarrow> r
      | None \<Rightarrow> MINUS_ONE)"

definition alloc_pfn :: "mem \<Rightarrow> u32 \<Rightarrow> u32 \<Rightarrow> bool \<times> mem" where
  "alloc_pfn m bitmap pfn =
     (let parent = get_pfn_parent_bitmap bitmap pfn;
          pfn_bit_index = unat (pfn mod NUM_BITS_IN_ONE_BITMAP)
      in if read32 m parent AND push_bit pfn_bit_index 1 \<noteq> 0 then (False, m)
         else (True, write32 m parent (read32 m parent OR push_bit pfn_bit_index 1)))"

definition free_pfn :: "mem \<Rightarrow> u32 \<Rightarrow> u32 \<Rightarrow> bool \<times> mem" where
  "free_pfn m bitmap pfn =
     (let parent = get_pfn_parent_bitmap bitmap pfn;
          pfn_bit_index = unat (pfn mod NUM_BITS_IN_ONE_BITMAP)
      in if \<not> (read32 m parent AND push_bit pfn_bit_index 1 \<noteq> 0) then (False, m)
         else (True, write32 m parent (read32 m parent AND NOT (push_bit pfn_bit_index 1))))"

text \<open>The loop of \<open>alloc_pageframe\<close>: it stops at the first frame that is already allocated.\<close>

function alloc_run :: "u32 \<Rightarrow> u32 \<Rightarrow> u32 \<Rightarrow> u32 \<Rightarrow> mem \<Rightarrow> bool \<times> mem" where
  "alloc_run bitmap first num pfn m =
     (if pfn < num then
        (case alloc_pfn m bitmap (first + pfn) of
           (alloc_success, m') \<Rightarrow>
             if \<not> alloc_success then (False, m') else alloc_run bitmap first num (pfn + 1) m')
      else (True, m))"
  by pat_completeness auto
termination
  by (relation "measure (\<lambda>(_, _, num, pfn, _). unat num - unat pfn)")
    (auto simp: unat_inc word_less_nat_alt)

declare alloc_run.simps [simp del]

definition alloc_pageframe :: "pmm_state \<Rightarrow> u32 \<Rightarrow> u32 \<times> pmm_state" where
  "alloc_pageframe p sz =
     (let num = num_pages_needed sz;
          first_avail_pfn = find_first_avail_pfn (kmem p) (alloc_bitmap p) (bitmap_num_bits p) num
      in if first_avail_pfn = MINUS_ONE then (NULL, p)
         else
           (case alloc_run (alloc_bitmap p) first_avail_pfn num 0 (kmem p) of
              (ok, m') \<Rightarrow>
                (if ok then pfn_to_phys_addy first_avail_pfn else NULL, p\<lparr>kmem := m'\<rparr>)))"

definition alloc_requested_pageframe :: "pmm_state \<Rightarrow> u32 \<Rightarrow> u32 \<Rightarrow> u32 \<times> pmm_state" where
  "alloc_requested_pageframe p physical_address sz =
     (let requested_pfn = phys_addy_to_pfn physical_address;
          num = num_pages_needed sz
      in if \<not> requested_pfn + num < bitmap_num_bits p then (NULL, p)
         else if for_search requested_pfn (requested_pfn + num)
             (\<lambda>pfn. if test_bit (kmem p) (alloc_bitmap p) pfn then Some () else None) \<noteq> None
           then (NULL, p)
         else (physical_address,
           p\<lparr>kmem := for_loop requested_pfn (requested_pfn + num)
               (\<lambda>pfn m. snd (alloc_pfn m (alloc_bitmap p) pfn)) (kmem p)\<rparr>))"

definition free_pageframe :: "pmm_state \<Rightarrow> u32 \<Rightarrow> bool \<times> pmm_state" where
  "free_pageframe p pageframe_addy =
     (let pfn_to_free = phys_addy_to_pfn pageframe_addy;
          (wasFreed, m') = free_pfn (kmem p) (alloc_bitmap p) pfn_to_free
      in (wasFreed, p\<lparr>kmem := m'\<rparr>))"

subsection \<open>One bit per frame\<close>

lemma test_bit_bit:
  "test_bit m bitmap i = bit (read32 m (get_pfn_parent_bitmap bitmap i)) (unat (i mod 32))"
proof -
  have "unat (ucast (i mod 32) :: u8) = unat (i mod 32)"
    by (simp add: unsigned_ucast_eq take_bit_eq_mod unat_mod_distrib)
  then show ?thesis
    by (simp add: test_bit_def NUM_BITS_IN_ONE_BITMAP_def Let_def and_exp_eq_0_iff_not_bit)
qed

lemma word_div_32_small: "(i::u32) div 32 < 0x40000000"
proof -
  have "unat (i div 32) \<le> 4294967295 div 32"
    using unat_lt_2p32 [of i] by (simp add: unat_div_distrib)
  then show ?thesis by (simp add: word_less_nat_alt)
qed

lemma pfn_slot_inj:
  "(i::u32) div 32 = j div 32 \<Longrightarrow> unat (i mod 32) = unat (j mod 32) \<Longrightarrow> i = j"
  by (metis div_mult_mod_eq word_unat_eq_iff)

lemma test_bit_write32:
  "test_bit (write32 m (get_pfn_parent_bitmap bitmap i) v) bitmap j =
     (if i div 32 = j div 32 then bit v (unat (j mod 32)) else test_bit m bitmap j)"
  unfolding test_bit_bit get_pfn_parent_bitmap_def NUM_BITS_IN_ONE_BITMAP_def
  by (simp add: read32_write32_array word_div_32_small)

lemma unat_mod_32: "unat ((i::u32) mod 32) < 32"
  by (simp add: unat_mod_distrib)

lemma alloc_pfn_result: "fst (alloc_pfn m bitmap i) \<longleftrightarrow> \<not> test_bit m bitmap i"
  unfolding alloc_pfn_def test_bit_bit NUM_BITS_IN_ONE_BITMAP_def Let_def
  by (simp add: and_exp_eq_0_iff_not_bit)

lemma alloc_pfn_bits:
  "test_bit (snd (alloc_pfn m bitmap i)) bitmap j \<longleftrightarrow> j = i \<or> test_bit m bitmap j"
proof (cases "test_bit m bitmap i")
  case True
  then have "snd (alloc_pfn m bitmap i) = m"
    using alloc_pfn_result [of m bitmap i] by (auto simp: alloc_pfn_def Let_def split: if_splits)
  with True show ?thesis by auto
next
  case False
  let ?v = "read32 m (get_pfn_parent_bitmap bitmap i)"
  have "snd (alloc_pfn m bitmap i) = write32 m (get_pfn_parent_bitmap bitmap i)
      (?v OR push_bit (unat (i mod 32)) 1)"
    using False alloc_pfn_result [of m bitmap i]
    by (auto simp: alloc_pfn_def Let_def NUM_BITS_IN_ONE_BITMAP_def split: if_splits)
  moreover have "test_bit m bitmap j \<longleftrightarrow> bit ?v (unat (j mod 32))" if "i div 32 = j div 32"
    using that by (simp add: test_bit_bit get_pfn_parent_bitmap_def NUM_BITS_IN_ONE_BITMAP_def)
  moreover have "j = i \<longleftrightarrow> i div 32 = j div 32 \<and> unat (j mod 32) = unat (i mod 32)"
    using pfn_slot_inj [of i j] by auto
  ultimately show ?thesis
    using unat_mod_32 [of j]
    by (cases "i div 32 = j div 32") (simp_all add: test_bit_write32 bit_or_iff bit_exp_iff disj_commute conj_commute)
qed

lemma free_pfn_result: "fst (free_pfn m bitmap i) \<longleftrightarrow> test_bit m bitmap i"
  unfolding free_pfn_def test_bit_bit NUM_BITS_IN_ONE_BITMAP_def Let_def
  by (simp add: and_exp_eq_0_iff_not_bit)

lemma free_pfn_bits:
  "test_bit (snd (free_pfn m bitmap i)) bitmap j \<longleftrightarrow> j \<noteq> i \<and> test_bit m bitmap j"
proof (cases "test_bit m bitmap i")
  case False
  then have "snd (free_pfn m bitmap i) = m"
    using free_pfn_result [of m bitmap i] by (auto simp: free_pfn_def Let_def split: if_splits)
  with False show ?thesis by auto
next
  case True
  let ?v = "read32 m (get_pfn_parent_bitmap bitmap i)"
  have "snd (free_pfn m bitmap i) = write32 m (get_pfn_parent_bitmap bitmap i)
      (?v AND NOT (push_bit (unat (i mod 32)) 1))"
    using True free_pfn_result [of m bitmap i]
    by (auto simp: free_pfn_def Let_def NUM_BITS_IN_ONE_BITMAP_def split: if_splits)
  moreover have "test_bit m bitmap j \<longleftrightarrow> bit ?v (unat (j mod 32))" if "i div 32 = j div 32"
    using that by (simp add: test_bit_bit get_pfn_parent_bitmap_def NUM_BITS_IN_ONE_BITMAP_def)
  moreover have "j = i \<longleftrightarrow> i div 32 = j div 32 \<and> unat (j mod 32) = unat (i mod 32)"
    using pfn_slot_inj [of i j] by auto
  ultimately show ?thesis
    using unat_mod_32 [of j]
    by (cases "i div 32 = j div 32") (simp_all add: test_bit_write32 bit_and_iff bit_not_iff bit_exp_iff disj_commute conj_commute)
qed

text \<open>The bitmap seen as the set of frames that are allocated.\<close>

definition allocated :: "pmm_state \<Rightarrow> u32 \<Rightarrow> bool" where
  "allocated p pfn = test_bit (kmem p) (alloc_bitmap p) pfn"

lemma alloc_run_free:
  assumes "\<And>k. pfn \<le> k \<Longrightarrow> k < num \<Longrightarrow> \<not> test_bit m bitmap (first + k)"
  shows "fst (alloc_run bitmap first num pfn m) \<and>
    (\<forall>j. test_bit (snd (alloc_run bitmap first num pfn m)) bitmap j \<longleftrightarrow>
      (\<exists>k. pfn \<le> k \<and> k < num \<and> j = first + k) \<or> test_bit m bitmap j)"
  using assms
proof (induction bitmap first num pfn m rule: alloc_run.induct)
  case (1 bitmap first num pfn m)
  show ?case
  proof (cases "pfn < num")
    case False
    then show ?thesis by (auto simp: alloc_run.simps [of _ _ num pfn])
  next
    case True
    obtain m' where ok: "alloc_pfn m bitmap (first + pfn) = (True, m')"
      using alloc_pfn_result [of m bitmap "first + pfn"] "1.prems" [of pfn] True
      by (cases "alloc_pfn m bitmap (first + pfn)") simp
    have bits: "test_bit m' bitmap j \<longleftrightarrow> j = first + pfn \<or> test_bit m bitmap j" for j
      using alloc_pfn_bits [of m bitmap "first + pfn" j] ok by simp
    have later: "pfn \<le> k \<longleftrightarrow> k = pfn \<or> pfn + 1 \<le> k" for k
      using word_le_inc [OF True, of k] by auto
    have "\<not> test_bit m' bitmap (first + k)" if "pfn + 1 \<le> k" "k < num" for k
    proof -
      have "k \<noteq> pfn" using that(1) True by unat_arith
      then show ?thesis
        using that later [of k] "1.prems" [of k] by (simp add: bits)
    qed
    from "1.IH" [OF True ok [symmetric] _ this] show ?thesis
      using True ok later by (auto simp: alloc_run.simps [of _ _ num pfn] bits)
  qed
qed

subsection \<open>First fit\<close>

text \<open>
  The search accepts frame \<open>i\<close> for a request of \<open>num\<close> frames when the request ends inside the
  bitmap and \<open>num + 1\<close> frames from \<open>i\<close> on are free: the inner loop also tests the frame
  behind the run.
\<close>

definition free_run :: "(u32 \<Rightarrow> bool) \<Rightarrow> u32 \<Rightarrow> u32 \<Rightarrow> bool" where
  "free_run taken i n \<longleftrightarrow> (\<forall>k < n. \<not> taken (i + k))"

definition pmm_ok :: "pmm_state \<Rightarrow> bool" where
  "pmm_ok p \<longleftrightarrow> bitmap_num_bits p \<le> 0xFFFFF \<and> allocated p 0"

lemma window_from:
  assumes "unat (i::u32) + unat num + 1 < 2 ^ 32"
  shows "i + 1 \<le> j \<and> j < i + num + 1 \<longleftrightarrow> (\<exists>k. 0 < k \<and> k \<le> num \<and> j = i + k)"
proof -
  have *: "i + 1 \<le> i + k \<and> i + k < i + num + 1 \<longleftrightarrow> 0 < k \<and> k \<le> num" for k
  proof -
    have "unat (i + 1) = unat i + 1" "unat (i + num + 1) = unat i + unat num + 1"
      using assms unat_add_small [of i 1] unat_add_small [of i num] unat_add_small [of "i + num" 1]
      by simp_all
    moreover have "unat (i + k) = (if unat i + unat k < 4294967296 then unat i + unat k
        else unat i + unat k - 4294967296)"
      by (simp add: unat_plus_if_size word_size)
    ultimately show ?thesis
      using assms unat_lt_2p32 [of k]
      by (auto simp: word_le_nat_alt word_less_nat_alt split: if_splits)
  qed
  show ?thesis
    using * [of "j - i"] by (metis add.commute * diff_add_cancel)
qed

lemma run_is_taken_iff:
  assumes "unat i + unat num + 1 < 2 ^ 32"
  shows "run_is_taken m bitmap i num \<longleftrightarrow> (\<exists>k. 0 < k \<and> k \<le> num \<and> test_bit m bitmap (i + k))"
proof -
  have "run_is_taken m bitmap i num \<longleftrightarrow>
      (\<exists>j. (i + 1 \<le> j \<and> j < i + num + 1) \<and> test_bit m bitmap j)"
    by (auto simp: run_is_taken_def for_search_None_iff split: if_splits)
  also have "\<dots> \<longleftrightarrow> (\<exists>k. 0 < k \<and> k \<le> num \<and> test_bit m bitmap (i + k))"
    unfolding window_from [OF assms] by blast
  finally show ?thesis .
qed

lemma free_run_Suc:
  assumes "num \<noteq> MINUS_ONE"
  shows "free_run taken i (num + 1) \<longleftrightarrow> \<not> taken i \<and> (\<forall>k. 0 < k \<and> k \<le> num \<longrightarrow> \<not> taken (i + k))"
proof -
  have "k < num + 1 \<longleftrightarrow> k = 0 \<or> 0 < k \<and> k \<le> num" for k
    using word_lt_inc [OF unat_inc_max [OF assms], of k]
    by (metis word_gt_0 word_zero_le unat_inc_max [OF assms] word_le_inc order_less_le
        word_lt_inc add.commute order_le_less not_less word_inc_le)
  then show ?thesis by (auto simp: free_run_def)
qed

text \<open>The search in terms of runs.\<close>

definition in_bitmap :: "u32 \<Rightarrow> u32 \<Rightarrow> u32 \<Rightarrow> bool" where
  "in_bitmap num_bits i num \<longleftrightarrow> unat i + unat num \<le> unat num_bits"

lemma last_bit_in_bitmap:
  assumes "i \<noteq> 0" and "i < num_bits" and "num_bits \<le> 0xFFFFF" and "num \<le> 0xFFFFF"
  shows "i + num - 1 < num_bits \<longleftrightarrow> in_bitmap num_bits i num"
proof -
  have "unat i \<noteq> 0" using assms(1) by (simp add: unat_eq_0)
  moreover have small: "unat i < 0xFFFFF" "unat num \<le> 0xFFFFF"
    using assms(2-4) by (simp_all add: word_less_nat_alt word_le_nat_alt)
  moreover have "unat (i + num) = unat i + unat num"
    using small by (intro unat_add_small) simp
  ultimately have "unat (i + num - 1) = unat i + unat num - 1"
    by (subst unat_sub_le) (simp_all add: word_le_nat_alt)
  then show ?thesis
    using \<open>unat i \<noteq> 0\<close> by (simp add: in_bitmap_def word_less_nat_alt) arith
qed

lemma run_choice:
  assumes small: "num_bits \<le> 0xFFFFF" "num \<le> 0xFFFFF" and "i < num_bits"
  shows "\<not> test_bit m bitmap i \<and> \<not> run_is_taken m bitmap i num \<longleftrightarrow>
    free_run (test_bit m bitmap) i (num + 1)"
proof -
  have "unat i + unat num + 1 < 2 ^ 32"
    using assms by (simp add: word_less_nat_alt word_le_nat_alt)
  moreover have "num < 0x100000"
    using small(2) by (simp add: word_less_nat_alt word_le_nat_alt)
  then have "num \<noteq> MINUS_ONE" by (rule less_neq_max)
  ultimately show ?thesis
    by (auto simp: run_is_taken_iff free_run_Suc)
qed

lemma find_first_avail_pfn_found:
  assumes small: "num_bits \<le> 0xFFFFF" "num \<le> 0xFFFFF" and zero: "test_bit m bitmap 0"
    and found: "find_first_avail_pfn m bitmap num_bits num = r" "r \<noteq> MINUS_ONE"
  shows "r < num_bits \<and> in_bitmap num_bits r num \<and> free_run (test_bit m bitmap) r (num + 1) \<and>
    (\<forall>i < r. \<not> free_run (test_bit m bitmap) i (num + 1))"
proof -
  let ?body = "\<lambda>bit_idx. if \<not> test_bit m bitmap bit_idx then
      (let last_bit_idx = bit_idx + num - 1 in
       if \<not> last_bit_idx < num_bits then Some MINUS_ONE
       else if \<not> run_is_taken m bitmap bit_idx num then Some bit_idx else None) else None"
  have "for_search 0 num_bits ?body = Some r"
    using found by (simp add: find_first_avail_pfn_def split: option.splits)
  then obtain j where j: "j < num_bits" "?body j = Some r" "\<And>k. k < j \<Longrightarrow> ?body k = None"
    by (rule for_search_SomeE) auto
  then have r: "r = j" "\<not> test_bit m bitmap j" "j + num - 1 < num_bits"
      "\<not> run_is_taken m bitmap j num"
    using found(2) by (auto simp: Let_def split: if_splits)
  have "j \<noteq> 0" using r(2) zero by auto
  have "\<not> free_run (test_bit m bitmap) i (num + 1)" if "i < r" for i
  proof -
    have "test_bit m bitmap i \<or> run_is_taken m bitmap i num"
      using j(3) [of i] that r(1) by (auto simp: Let_def split: if_splits)
    then show ?thesis
      using run_choice [OF small order.strict_trans [of i j num_bits]] that r(1) j(1) by auto
  qed
  then show ?thesis
    using r j(1) run_choice [OF small j(1), of m bitmap] last_bit_in_bitmap [OF \<open>j \<noteq> 0\<close> j(1) small] by simp
qed

lemma find_first_avail_pfn_none:
  assumes small: "num_bits \<le> 0xFFFFF" "num \<le> 0xFFFFF" and zero: "test_bit m bitmap 0"
    and none: "find_first_avail_pfn m bitmap num_bits num = MINUS_ONE"
    and i: "i < num_bits" "in_bitmap num_bits i num"
  shows "\<not> free_run (test_bit m bitmap) i (num + 1)"
proof
  assume free: "free_run (test_bit m bitmap) i (num + 1)"
  let ?body = "\<lambda>bit_idx. if \<not> test_bit m bitmap bit_idx then
      (let last_bit_idx = bit_idx + num - 1 in
       if \<not> last_bit_idx < num_bits then Some MINUS_ONE
       else if \<not> run_is_taken m bitmap bit_idx num then Some bit_idx else None) else None"
  have run: "\<not> test_bit m bitmap i" "\<not> run_is_taken m bitmap i num"
    using free run_choice [OF small i(1)] by auto
  have "i \<noteq> 0" using run(1) zero by auto
  then have fits: "i + num - 1 < num_bits"
    using last_bit_in_bitmap [OF _ i(1) small] i(2) by simp
  have some: "?body i = Some i"
    using run fits by (simp add: Let_def)
  have "for_search 0 num_bits ?body \<noteq> None"
    using i(1) some by (intro for_search_hit) simp_all
  then obtain r where r: "for_search 0 num_bits ?body = Some r" by blast
  then have "r = MINUS_ONE"
    using none by (simp add: find_first_avail_pfn_def)
  from r obtain j where j: "j < num_bits" "?body j = Some r" "\<And>k. k < j \<Longrightarrow> ?body k = None"
    by (rule for_search_SomeE) auto
  have "j \<noteq> MINUS_ONE" using j(1) by (rule less_neq_max)
  then have jr: "\<not> test_bit m bitmap j" "\<not> j + num - 1 < num_bits"
    using j(2) \<open>r = MINUS_ONE\<close> by (auto simp: Let_def split: if_splits)
  have "j \<le> i" using j(3) [of i] some by (auto simp: not_less [symmetric])
  moreover have "j \<noteq> 0" using jr(1) zero by auto
  ultimately show False
    using last_bit_in_bitmap [OF _ j(1) small] jr(2) i(2)
    by (simp add: in_bitmap_def word_le_nat_alt)
qed

subsection \<open>The allocator's interface\<close>

lemma pfn_to_phys_addy_0_iff: "pfn \<le> 0xFFFFF \<Longrightarrow> pfn_to_phys_addy pfn = NULL \<longleftrightarrow> pfn = 0"
  using pfn_to_phys_addy_inj [of pfn 0] by (simp add: pfn_to_phys_addy_def)

lemma alloc_pageframe_split:
  assumes ok: "pmm_ok p" and call: "alloc_pageframe p sz = (a, p')"
  obtains (full) "a = NULL" "p' = p"
      "find_first_avail_pfn (kmem p) (alloc_bitmap p) (bitmap_num_bits p) (num_pages_needed sz) =
        MINUS_ONE"
  | (found) pfn where "a = pfn_to_phys_addy pfn" "a \<noteq> NULL"
      "pfn < bitmap_num_bits p" "in_bitmap (bitmap_num_bits p) pfn (num_pages_needed sz)"
      "free_run (allocated p) pfn (num_pages_needed sz + 1)"
      "\<And>i. i < pfn \<Longrightarrow> \<not> free_run (allocated p) i (num_pages_needed sz + 1)"
      "p' = p\<lparr>kmem := kmem p'\<rparr>"
      "\<And>j. allocated p' j \<longleftrightarrow> allocated p j \<or> (\<exists>k < num_pages_needed sz. j = pfn + k)"
proof -
  let ?num = "num_pages_needed sz"
  let ?taken = "test_bit (kmem p) (alloc_bitmap p)"
  have small: "bitmap_num_bits p \<le> 0xFFFFF" and zero: "?taken 0"
    using ok by (simp_all add: pmm_ok_def allocated_def)
  define pfn where "pfn = find_first_avail_pfn (kmem p) (alloc_bitmap p) (bitmap_num_bits p) ?num"
  show thesis
  proof (cases "pfn = MINUS_ONE")
    case True
    then have "find_first_avail_pfn (kmem p) (alloc_bitmap p) (bitmap_num_bits p) ?num = MINUS_ONE"
      by (simp add: pfn_def)
    then show thesis
      using call by (intro full) (simp_all add: alloc_pageframe_def Let_def)
  next
    case False
    note run = find_first_avail_pfn_found
      [OF small num_pages_needed_bound zero pfn_def [symmetric] False]
    have small_pfn: "pfn \<le> 0xFFFFF" using run small by auto
    have lt: "?num < ?num + 1"
      using num_pages_needed_bound [of sz]
      by (intro unat_inc_max less_neq_max [of _ "0x100000"])
        (auto simp: word_le_nat_alt word_less_nat_alt)
    have free: "\<not> ?taken (pfn + k)" if "k < ?num" for k
      using run that lt by (simp add: free_run_def)
    obtain m' where m': "alloc_run (alloc_bitmap p) pfn ?num 0 (kmem p) = (True, m')"
        "\<And>j. test_bit m' (alloc_bitmap p) j \<longleftrightarrow> (\<exists>k < ?num. j = pfn + k) \<or> ?taken j"
      using alloc_run_free [of 0 ?num "kmem p" "alloc_bitmap p" pfn] free
      by (cases "alloc_run (alloc_bitmap p) pfn ?num 0 (kmem p)") auto
    have res: "a = pfn_to_phys_addy pfn" "p' = p\<lparr>kmem := m'\<rparr>"
      using call False m'(1) by (simp_all add: alloc_pageframe_def Let_def flip: pfn_def)
    have "free_run (allocated p) pfn (?num + 1)"
      using run by (simp add: free_run_def allocated_def)
    moreover have "pfn \<noteq> 0"
    proof -
      have "0 < ?num + 1" using word_zero_le lt by (rule order_le_less_trans)
      then have "\<not> ?taken (pfn + 0)" using run unfolding free_run_def by blast
      then show ?thesis using zero by auto
    qed
    ultimately show thesis
      using res run m'(2) small_pfn
      by (intro found) (auto simp: allocated_def free_run_def pfn_to_phys_addy_0_iff)
  qed
qed

text \<open>
  What a client of the frame allocator may rely on: the frames handed out were free, are
  allocated afterwards, and nothing else changes; a frame that is freed is free again.
\<close>

locale frame_allocator =
  fixes alloc :: "'s \<Rightarrow> u32 \<Rightarrow> u32 \<times> 's"
    and release :: "'s \<Rightarrow> u32 \<Rightarrow> bool \<times> 's"
    and taken :: "'s \<Rightarrow> u32 \<Rightarrow> bool"
    and inv :: "'s \<Rightarrow> bool"
  assumes alloc_inv: "inv s \<Longrightarrow> alloc s sz = (a, s') \<Longrightarrow> inv s'"
    and alloc_null: "inv s \<Longrightarrow> alloc s sz = (NULL, s') \<Longrightarrow> s' = s"
    and alloc_fresh: "inv s \<Longrightarrow> alloc s sz = (a, s') \<Longrightarrow> a \<noteq> NULL \<Longrightarrow>
      k < num_pages_needed sz \<Longrightarrow> \<not> taken s (phys_addy_to_pfn a + k)"
    and alloc_taken: "inv s \<Longrightarrow> alloc s sz = (a, s') \<Longrightarrow> a \<noteq> NULL \<Longrightarrow>
      taken s' j \<longleftrightarrow> taken s j \<or> (\<exists>k < num_pages_needed sz. j = phys_addy_to_pfn a + k)"
    and release_result: "release s a = (ok, s') \<Longrightarrow> ok \<longleftrightarrow> taken s (phys_addy_to_pfn a)"
    and release_taken: "release s a = (ok, s') \<Longrightarrow>
      taken s' j \<longleftrightarrow> taken s j \<and> j \<noteq> phys_addy_to_pfn a"
begin

lemma taken_mono: "inv s \<Longrightarrow> alloc s sz = (a, s') \<Longrightarrow> taken s j \<Longrightarrow> taken s' j"
  using alloc_taken [of s sz a s' j] alloc_null [of s sz s'] by (cases "a = NULL") auto

text \<open>Two successive allocations never share a frame.\<close>

lemma allocs_disjoint:
  assumes "inv s" and "alloc s sz = (a, s')" and "alloc s' sz2 = (b, s'')"
    and "a \<noteq> NULL" and "b \<noteq> NULL"
    and "k < num_pages_needed sz" and "l < num_pages_needed sz2"
  shows "phys_addy_to_pfn a + k \<noteq> phys_addy_to_pfn b + l"
proof
  assume eq: "phys_addy_to_pfn a + k = phys_addy_to_pfn b + l"
  have "taken s' (phys_addy_to_pfn a + k)"
    using alloc_taken [OF assms(1,2,4)] assms(6) by blast
  moreover have "\<not> taken s' (phys_addy_to_pfn b + l)"
    using alloc_fresh [OF alloc_inv [OF assms(1,2)] assms(3,5,7)] .
  ultimately show False using eq by simp
qed

text \<open>Freeing the one frame of a one-page allocation gives the old allocation back.\<close>

lemma release_alloc_page:
  assumes "inv s" and "alloc s sz = (a, s')" and "a \<noteq> NULL" and "num_pages_needed sz = 1"
    and "release s' a = (ok, s'')"
  shows "ok \<and> (\<forall>j. taken s'' j \<longleftrightarrow> taken s j)"
proof -
  have one: "k < num_pages_needed sz \<longleftrightarrow> k = 0" for k
    using assms(4) by (simp add: word_less_1)
  have "\<not> taken s (phys_addy_to_pfn a)"
    using alloc_fresh [OF assms(1-3), of 0] one by simp
  then show ?thesis
    using release_result [OF assms(5)] release_taken [OF assms(5)] alloc_taken [OF assms(1-3)] one
    by auto
qed

end

text \<open>The bitmap allocator provides the interface.\<close>

lemma alloc_pageframe_pfn:
  assumes "pmm_ok p" and "alloc_pageframe p sz = (a, p')" and "a \<noteq> NULL"
  shows "a = pfn_to_phys_addy (phys_addy_to_pfn a) \<and>
    phys_addy_to_pfn a < bitmap_num_bits p \<and>
    in_bitmap (bitmap_num_bits p) (phys_addy_to_pfn a) (num_pages_needed sz) \<and>
    free_run (allocated p) (phys_addy_to_pfn a) (num_pages_needed sz + 1) \<and>
    (\<forall>i < phys_addy_to_pfn a. \<not> free_run (allocated p) i (num_pages_needed sz + 1)) \<and>
    p' = p\<lparr>kmem := kmem p'\<rparr> \<and>
    (\<forall>j. allocated p' j \<longleftrightarrow>
      allocated p j \<or> (\<exists>k < num_pages_needed sz. j = phys_addy_to_pfn a + k))"
  using assms(1,2)
proof (cases rule: alloc_pageframe_split)
  case full
  then show ?thesis using assms(3) by simp
next
  case (found pfn)
  have "pfn \<le> 0xFFFFF" using found(3) assms(1) by (auto simp: pmm_ok_def)
  then have pfn: "phys_addy_to_pfn a = pfn" using found(1) pfn_round_trip by simp
  show ?thesis unfolding pfn using found by auto
qed

lemma num_pages_lt_Suc: "num_pages_needed sz < num_pages_needed sz + 1"
  by (intro unat_inc_max less_neq_max [of _ "0x100000"])
    (use num_pages_needed_bound [of sz] in \<open>simp add: word_le_nat_alt word_less_nat_alt\<close>)

lemma alloc_pageframe_null:
  assumes "pmm_ok p" and "alloc_pageframe p sz = (NULL, p')"
  shows "p' = p"
  using assms by (cases rule: alloc_pageframe_split) auto

lemma alloc_pageframe_ok:
  assumes ok: "pmm_ok p" and "alloc_pageframe p sz = (a, p')"
  shows "pmm_ok p'"
  using assms
proof (cases rule: alloc_pageframe_split)
  case (found pfn)
  then show ?thesis
    using ok by (metis (no_types, lifting) pmm_ok_def pmm_state.simps(2,7) pmm_state.surjective
        pmm_state.update_convs(1) pmm_state.select_convs(3))
qed (use ok in simp)

lemma free_pageframe_result:
  "free_pageframe p a = (ok, p') \<Longrightarrow> ok \<longleftrightarrow> allocated p (phys_addy_to_pfn a)"
  using free_pfn_result [of "kmem p" "alloc_bitmap p" "phys_addy_to_pfn a"]
  by (auto simp: free_pageframe_def allocated_def Let_def split: prod.splits)

lemma free_pageframe_bits:
  "free_pageframe p a = (ok, p') \<Longrightarrow> allocated p' j \<longleftrightarrow> allocated p j \<and> j \<noteq> phys_addy_to_pfn a"
  using free_pfn_bits [of "kmem p" "alloc_bitmap p" "phys_addy_to_pfn a" j]
  by (auto simp: free_pageframe_def allocated_def Let_def split: prod.splits)

interpretation bitmap: frame_allocator alloc_pageframe free_pageframe allocated pmm_ok
proof unfold_locales
  fix s s' :: pmm_state and a sz k j :: u32 and ok
  show "pmm_ok s \<Longrightarrow> alloc_pageframe s sz = (a, s') \<Longrightarrow> pmm_ok s'"
    by (rule alloc_pageframe_ok)
  show "pmm_ok s \<Longrightarrow> alloc_pageframe s sz = (NULL, s') \<Longrightarrow> s' = s"
    by (rule alloc_pageframe_null)
  show "free_pageframe s a = (ok, s') \<Longrightarrow> ok \<longleftrightarrow> allocated s (phys_addy_to_pfn a)"
    by (rule free_pageframe_result)
  show "free_pageframe s a = (ok, s') \<Longrightarrow>
      allocated s' j \<longleftrightarrow> allocated s j \<and> j \<noteq> phys_addy_to_pfn a"
    by (rule free_pageframe_bits)
  assume call: "pmm_ok s" "alloc_pageframe s sz = (a, s')" "a \<noteq> NULL"
  note found = alloc_pageframe_pfn [OF call]
  show "allocated s' j \<longleftrightarrow>
      allocated s j \<or> (\<exists>k < num_pages_needed sz. j = phys_addy_to_pfn a + k)"
    using found by blast
  show "\<not> allocated s (phys_addy_to_pfn a + k)" if "k < num_pages_needed sz"
    using found order.strict_trans [OF that num_pages_lt_Suc] by (simp add: free_run_def)
qed

subsection \<open>Requested frames\<close>

lemma requested_window:
  assumes "(r::u32) \<le> 0xFFFFF" and "num \<le> 0xFFFFF"
  shows "r \<le> j \<and> j < r + num \<longleftrightarrow> (\<exists>k < num. j = r + k)"
proof -
  have u: "unat r \<le> 0xFFFFF" "unat num \<le> 0xFFFFF"
    using assms by (simp_all add: word_le_nat_alt)
  have sum: "unat (r + k) = unat r + unat k" if "unat k \<le> 0xFFFFF" for k :: u32
    using u that by (intro unat_add_small) simp
  show ?thesis
  proof
    assume j: "r \<le> j \<and> j < r + num"
    then have "unat (j - r) = unat j - unat r" by (intro unat_sub_le) simp
    then have "j - r < num"
      using j sum [OF u(2)] by (simp add: word_less_nat_alt word_le_nat_alt less_diff_conv2)
    then show "\<exists>k < num. j = r + k"
      by (intro exI [of _ "j - r"]) simp
  next
    assume "\<exists>k < num. j = r + k"
    then obtain k where k: "k < num" "j = r + k" by blast
    then have "unat k \<le> 0xFFFFF" using u by (simp add: word_less_nat_alt)
    then show "r \<le> j \<and> j < r + num"
      using k sum u by (simp add: word_less_nat_alt word_le_nat_alt)
  qed
qed

lemma phys_addy_to_pfn_bound: "phys_addy_to_pfn a \<le> 0xFFFFF"
proof -
  have "unat (phys_addy_to_pfn a) \<le> 4294967295 div 4096"
    using unat_lt_2p32 [of a]
    by (simp add: phys_addy_to_pfn_def PAGE_SIZE_def unat_div_distrib div_le_mono)
  then show ?thesis by (simp add: word_le_nat_alt)
qed

lemma alloc_loop_bits:
  assumes "r \<le> e"
  shows "test_bit (for_loop r e (\<lambda>pfn m. snd (alloc_pfn m bitmap pfn)) m) bitmap j \<longleftrightarrow>
    test_bit m bitmap j \<or> (r \<le> j \<and> j < e)"
proof -
  have "\<forall>j. test_bit (for_loop r e (\<lambda>pfn m. snd (alloc_pfn m bitmap pfn)) m) bitmap j \<longleftrightarrow>
      test_bit m bitmap j \<or> (r \<le> j \<and> j < e)"
  proof (rule for_loop_invariant [where P = "\<lambda>i t. \<forall>j. test_bit t bitmap j \<longleftrightarrow>
        test_bit m bitmap j \<or> (r \<le> j \<and> j < i)"])
    fix i t
    assume i: "r \<le> i" "i < e"
      and t: "\<forall>j. test_bit t bitmap j \<longleftrightarrow> test_bit m bitmap j \<or> (r \<le> j \<and> j < i)"
    have "r \<le> j \<and> j < i + 1 \<longleftrightarrow> (r \<le> j \<and> j < i) \<or> j = i" for j
      unfolding word_lt_inc [OF i(2)] using i(1) by (auto simp: le_less)
    then show "\<forall>j. test_bit (snd (alloc_pfn t bitmap i)) bitmap j \<longleftrightarrow>
        test_bit m bitmap j \<or> (r \<le> j \<and> j < i + 1)"
      unfolding alloc_pfn_bits using t by blast
  qed (use assms in auto)
  then show ?thesis by blast
qed

lemma alloc_requested_pageframe_cases:
  assumes "alloc_requested_pageframe p a sz = (r, p')"
  defines "pfn \<equiv> phys_addy_to_pfn a" and "num \<equiv> num_pages_needed sz"
  shows "if pfn + num < bitmap_num_bits p \<and> (\<forall>k < num. \<not> allocated p (pfn + k))
    then r = a \<and> (\<forall>j. allocated p' j \<longleftrightarrow> allocated p j \<or> (\<exists>k < num. j = pfn + k)) \<and>
      p' = p\<lparr>kmem := kmem p'\<rparr>
    else r = NULL \<and> p' = p"
proof -
  let ?search = "for_search pfn (pfn + num)
      (\<lambda>pfn. if test_bit (kmem p) (alloc_bitmap p) pfn then Some () else None)"
  have small: "pfn \<le> 0xFFFFF" "num \<le> 0xFFFFF"
    unfolding pfn_def num_def by (rule phys_addy_to_pfn_bound num_pages_needed_bound)+
  note window = requested_window [OF small]
  have "?search = None \<longleftrightarrow> (\<forall>j. pfn \<le> j \<and> j < pfn + num \<longrightarrow> \<not> allocated p j)"
    by (auto simp: for_search_None_iff allocated_def split: if_splits)
  then have search: "?search = None \<longleftrightarrow> (\<forall>k < num. \<not> allocated p (pfn + k))"
    unfolding window by blast
  have "unat (pfn + num) = unat pfn + unat num"
    using small by (intro unat_add_small) (simp add: word_le_nat_alt)
  then have "pfn \<le> pfn + num" by (simp add: word_le_nat_alt)
  note loop = alloc_loop_bits [OF this, of "alloc_bitmap p" "kmem p"]
  show ?thesis
  proof (cases "pfn + num < bitmap_num_bits p \<and> ?search = None")
    case True
    then have res: "r = a \<and> p' = p\<lparr>kmem := for_loop pfn (pfn + num)
        (\<lambda>pfn m. snd (alloc_pfn m (alloc_bitmap p) pfn)) (kmem p)\<rparr>"
      using assms(1) unfolding alloc_requested_pageframe_def Let_def
      by (simp flip: pfn_def num_def)
    then have "allocated p' j \<longleftrightarrow> allocated p j \<or> (pfn \<le> j \<and> j < pfn + num)" for j
      using loop [of j] by (simp add: allocated_def)
    then show ?thesis using True res search unfolding window by simp
  next
    case False
    then have "r = NULL \<and> p' = p"
      using assms(1) unfolding alloc_requested_pageframe_def Let_def
      by (auto simp flip: pfn_def num_def split: if_splits)
    then show ?thesis using False search by auto
  qed
qed

subsection \<open>Properties\<close>

text \<open>A bitmap of 64 frames, of which frames 0 and 3 are allocated.\<close>

definition ex_pmm :: pmm_state where
  "ex_pmm = \<lparr>kmem = (\<lambda>_. 0)(0x1000 := 9), alloc_bitmap = 0x1000, bitmap_num_bits = 64,
     pmm_bitmap_start_addy = 0x1000, pmm_bitmap_end_addy = 0x2000\<rparr>"

lemmas pmm_eval = alloc_pageframe_def ex_pmm_def num_pages_needed_def PAGE_SIZE_def
  find_first_avail_pfn_def for_search.simps test_bit_def get_pfn_parent_bitmap_def
  NUM_BITS_IN_ONE_BITMAP_def read32_def write32_def run_is_taken_def Let_def alloc_run.simps
  alloc_pfn_def pfn_to_phys_addy_def phys_addy_to_pfn_def free_pageframe_def free_pfn_def
  alloc_requested_pageframe_def pmm_ok_def allocated_def

text \<open>
  C4. An allocation that succeeds returns the address of the lowest run of frames inside the
  bitmap that are free together with the frame behind them, marks exactly the frames it needs
  and changes nothing but the bitmap's memory; frame 0 stays allocated.
\<close>

theorem alloc_pageframe_first_fit:
  assumes "pmm_ok p" and "alloc_pageframe p sz = (a, p')" and "a \<noteq> NULL"
  defines "pfn \<equiv> phys_addy_to_pfn a" and "num \<equiv> num_pages_needed sz"
  shows "a = pfn_to_phys_addy pfn \<and> in_bitmap (bitmap_num_bits p) pfn num \<and>
    free_run (allocated p) pfn (num + 1) \<and> (\<forall>i < pfn. \<not> free_run (allocated p) i (num + 1)) \<and>
    p' = p\<lparr>kmem := kmem p'\<rparr> \<and> pmm_ok p' \<and>
    (\<forall>j. allocated p' j \<longleftrightarrow> allocated p j \<or> (\<exists>k < num. j = pfn + k))"
  unfolding pfn_def num_def
  using alloc_pageframe_pfn [OF assms(1-3)] alloc_pageframe_ok [OF assms(1,2)] by blast

theorem alloc_pageframe_first_fit_witness:
  "pmm_ok ex_pmm \<and> fst (alloc_pageframe ex_pmm 4097) = 0x4000 \<and>
   pmm_ok (snd (alloc_pageframe ex_pmm 4097)) \<and>
   (\<forall>j. allocated (snd (alloc_pageframe ex_pmm 4097)) j \<longleftrightarrow>
     allocated ex_pmm j \<or> (\<exists>k < 2. j = 4 + k))"
proof -
  have ok: "pmm_ok ex_pmm" by (simp add: pmm_eval)
  have addr: "fst (alloc_pageframe ex_pmm 4097) = 0x4000" by (simp add: pmm_eval)
  have nn: "num_pages_needed 4097 = 2" "phys_addy_to_pfn 0x4000 = 4"
    by (simp_all add: num_pages_needed_def phys_addy_to_pfn_def PAGE_SIZE_def)
  show ?thesis
    using alloc_pageframe_first_fit [OF ok surjective_pairing [of "alloc_pageframe ex_pmm 4097"]]
      ok addr by (simp add: nn)
qed

text \<open>
  C10. An allocation fails, with nothing changed, exactly when no frame below the end of the
  bitmap starts a run that fits into the bitmap and is free together with the frame behind it:
  the search gives up early only when no later run could fit.
\<close>

theorem alloc_pageframe_fails_iff:
  assumes "pmm_ok p"
  shows "alloc_pageframe p sz = (NULL, p) \<longleftrightarrow>
    (\<forall>i < bitmap_num_bits p. in_bitmap (bitmap_num_bits p) i (num_pages_needed sz) \<longrightarrow>
      \<not> free_run (allocated p) i (num_pages_needed sz + 1))"
proof -
  obtain a p' where call: "alloc_pageframe p sz = (a, p')" by fastforce
  from assms call show ?thesis
  proof (cases rule: alloc_pageframe_split)
    case full
    have *: "allocated p = test_bit (kmem p) (alloc_bitmap p)" by (rule ext) (simp add: allocated_def)
    show ?thesis
      using find_first_avail_pfn_none [OF _ num_pages_needed_bound _ full(3)] assms full(1,2) call
      unfolding * by (auto simp: pmm_ok_def allocated_def)
  next
    case (found pfn)
    then show ?thesis using call by auto
  qed
qed

theorem alloc_pageframe_fails_iff_witness:
  "pmm_ok ex_pmm \<and> alloc_pageframe ex_pmm 0x40000 = (NULL, ex_pmm) \<and>
   \<not> free_run (allocated ex_pmm) 0 65"
proof -
  have ok: "pmm_ok ex_pmm" by (simp add: pmm_eval)
  have null: "alloc_pageframe ex_pmm 0x40000 = (NULL, ex_pmm)" by (simp add: pmm_eval)
  have nn: "num_pages_needed 0x40000 = 64" "bitmap_num_bits ex_pmm = 64"
    by (simp_all add: num_pages_needed_def PAGE_SIZE_def ex_pmm_def)
  show ?thesis
    using alloc_pageframe_fails_iff [OF ok, of "0x40000"] ok null
    unfolding nn by (simp add: in_bitmap_def)
qed

text \<open>
  Two allocations in a row, of any sizes, never give out the same frame: the promise of
  the allocator's interface, on the bitmap.
\<close>

theorem alloc_pageframe_disjoint:
  assumes "pmm_ok p" and "alloc_pageframe p sz = (a, p1)" and "alloc_pageframe p1 sz2 = (b, p2)"
    and "a \<noteq> NULL" and "b \<noteq> NULL"
    and "k < num_pages_needed sz" and "l < num_pages_needed sz2"
  shows "phys_addy_to_pfn a + k \<noteq> phys_addy_to_pfn b + l"
  using assms by (rule bitmap.allocs_disjoint)

theorem alloc_pageframe_disjoint_witness:
  "\<exists>a b p1 p2. alloc_pageframe ex_pmm 4096 = (a, p1) \<and> alloc_pageframe p1 4096 = (b, p2) \<and>
     a = 0x1000 \<and> b = 0x4000 \<and> phys_addy_to_pfn a + 0 \<noteq> phys_addy_to_pfn b + 0"
proof -
  let ?p1 = "snd (alloc_pageframe ex_pmm 4096)"
  have a: "alloc_pageframe ex_pmm 4096 = (0x1000, ?p1)" by (simp add: pmm_eval)
  have b: "alloc_pageframe ?p1 4096 = (0x4000, snd (alloc_pageframe ?p1 4096))"
    by (simp add: pmm_eval)
  have "0 < num_pages_needed 4096" by (simp add: pmm_eval)
  from alloc_pageframe_disjoint [OF _ a b _ _ this this] a b show ?thesis
    by (auto simp: pmm_eval)
qed

text \<open>
  C11. Freeing the frame of a one-page allocation succeeds and gives back the allocation state
  from before; freeing it a second time is refused.
\<close>

theorem free_alloc_pageframe:
  assumes "pmm_ok p" and "alloc_pageframe p sz = (a, p1)" and "a \<noteq> NULL"
    and "num_pages_needed sz = 1" and "free_pageframe p1 a = (ok, p2)"
  shows "ok \<and> (\<forall>j. allocated p2 j \<longleftrightarrow> allocated p j) \<and> \<not> fst (free_pageframe p2 a)"
proof -
  have same: "ok \<and> (\<forall>j. allocated p2 j \<longleftrightarrow> allocated p j)"
    using assms by (rule bitmap.release_alloc_page)
  have "0 < num_pages_needed sz" using assms(4) by simp
  then have "\<not> allocated p (phys_addy_to_pfn a)"
    using bitmap.alloc_fresh [OF assms(1-3), of 0] by simp
  then show ?thesis
    using same free_pageframe_result [OF surjective_pairing [of "free_pageframe p2 a"]] by simp
qed

theorem free_alloc_pageframe_witness:
  "fst (free_pageframe (snd (alloc_pageframe ex_pmm 100)) 0x1000) \<and>
   \<not> fst (free_pageframe (snd (free_pageframe (snd (alloc_pageframe ex_pmm 100)) 0x1000)) 0x1000)"
proof -
  let ?p1 = "snd (alloc_pageframe ex_pmm 100)"
  have a: "alloc_pageframe ex_pmm 100 = (0x1000, ?p1)" by (simp add: pmm_eval)
  have "pmm_ok ex_pmm" "num_pages_needed 100 = 1" by (simp_all add: pmm_eval)
  then show ?thesis
    using free_alloc_pageframe [OF _ a, of "fst (free_pageframe ?p1 0x1000)"
        "snd (free_pageframe ?p1 0x1000)"] by simp
qed

text \<open>
  A request for given frames is granted exactly when all of them are free and the frame
  behind the last one is below the end of the bitmap; then it returns the requested address
  and marks exactly these frames, and otherwise it returns NULL and changes nothing.
\<close>

theorem alloc_requested_pageframe_exact:
  "case alloc_requested_pageframe p a sz of (r, p') \<Rightarrow>
     (if phys_addy_to_pfn a + num_pages_needed sz < bitmap_num_bits p \<and>
         (\<forall>k < num_pages_needed sz. \<not> allocated p (phys_addy_to_pfn a + k))
      then r = a \<and> p' = p\<lparr>kmem := kmem p'\<rparr> \<and>
        (\<forall>j. allocated p' j \<longleftrightarrow>
          allocated p j \<or> (\<exists>k < num_pages_needed sz. j = phys_addy_to_pfn a + k))
      else r = NULL \<and> p' = p)"
proof (cases "alloc_requested_pageframe p a sz")
  case (Pair r p')
  show ?thesis
    unfolding Pair prod.case using alloc_requested_pageframe_cases [OF Pair] by argo
qed

theorem alloc_requested_pageframe_exact_witness:
  "alloc_requested_pageframe ex_pmm 0x3000 4096 = (NULL, ex_pmm)"
proof -
  have nn: "num_pages_needed 4096 = 1" "phys_addy_to_pfn 0x3000 = 3"
    by (simp_all add: num_pages_needed_def phys_addy_to_pfn_def PAGE_SIZE_def)
  have one: "k < 1 \<longleftrightarrow> k = 0" for k :: u32 by (simp add: word_less_1)
  have "allocated ex_pmm 3" by (simp add: pmm_eval)
  then show ?thesis
    using alloc_requested_pageframe_exact [where p = ex_pmm and a = "0x3000" and sz = 4096]
    by (cases "alloc_requested_pageframe ex_pmm 0x3000 4096") (simp add: nn one)
qed

end
