(* ===== verification/Paging.thy ===== *)
theory Paging
  imports Pmm
begin

text \<open>
  \<^verbatim>\<open>src/kernel/memory_management/paging.c\<close> and
  \<^verbatim>\<open>src/boot/early_paging_setup.c\<close>. Page directory and page tables live in physical
  memory, here a store of 32-bit cells addressed by their physical address. The code reaches
  them through virtual addresses (the direct map for \<open>kernel_PGD\<close>, the recursive directory
  entry for page tables, the identity map for a new table), so every access goes through
  \<open>translate\<close>, the two-level walk of the processor with 4 KiB pages (the page-size bit of a
  directory entry is ignored, as it is while CR4.PSE is clear). An access to an unmapped
  address raises a page fault, whose handler dumps the state and halts: the value \<open>None\<close>.
\<close>

subsection \<open>Entries and flags\<close>

definition PRESENT :: u32 where "PRESENT = 1"
definition WRITABLE :: u32 where "WRITABLE = 2"
definition USER_ACCESSIBLE :: u32 where "USER_ACCESSIBLE = 4"
definition NOT_USER_ACCESSIBLE :: u32 where "NOT_USER_ACCESSIBLE = 0"
definition PTE_IS_GLOBAL :: u32 where "PTE_IS_GLOBAL = 0x100"
definition SET_PDE_PAGESIZE_FLAG :: u32 where "SET_PDE_PAGESIZE_FLAG = 0x80"

definition KERNEL_PDE_DEFAULT_FLAGS :: u32 where
  "KERNEL_PDE_DEFAULT_FLAGS = PRESENT OR WRITABLE OR NOT_USER_ACCESSIBLE OR SET_PDE_PAGESIZE_FLAG"

definition KERNEL_PTE_DEFAULT_FLAGS :: u32 where
  "KERNEL_PTE_DEFAULT_FLAGS = PRESENT OR WRITABLE OR NOT_USER_ACCESSIBLE OR PTE_IS_GLOBAL"

definition VM_AREA_WRITE :: u32 where "VM_AREA_WRITE = 1"
definition VM_AREA_EXEC :: u32 where "VM_AREA_EXEC = 2"
definition VM_AREA_USER_ACCESSIBLE :: u32 where "VM_AREA_USER_ACCESSIBLE = 4"
definition VM_AREA_MMIO :: u32 where "VM_AREA_MMIO = 8"
definition VM_AREA_NO_ACCESS :: u32 where "VM_AREA_NO_ACCESS = 16"

lemmas flag_defs = PRESENT_def WRITABLE_def USER_ACCESSIBLE_def NOT_USER_ACCESSIBLE_def
  PTE_IS_GLOBAL_def SET_PDE_PAGESIZE_FLAG_def KERNEL_PDE_DEFAULT_FLAGS_def
  KERNEL_PTE_DEFAULT_FLAGS_def VM_AREA_WRITE_def VM_AREA_EXEC_def VM_AREA_USER_ACCESSIBLE_def
  VM_AREA_MMIO_def VM_AREA_NO_ACCESS_def

subsection \<open>The processor's walk\<close>

definition translate :: "(u32 \<Rightarrow> u32) \<Rightarrow> u32 \<Rightarrow> u32 \<Rightarrow> u32 option" where
  "translate phys cr3 va =
     (let pde = phys (cr3 + 4 * get_PDE_idx va) in
      if \<not> paging_entry_present pde then None
      else
        (let pte = phys (get_pageframe_address pde + 4 * get_pte_idx va) in
         if \<not> paging_entry_present pte then None
         else Some (get_pageframe_address pte + (va AND 0xfff))))"

text \<open>
  The same walk with the rights it yields: whether a write and whether an access from user mode
  is let through, which takes the bit of the directory entry and that of the table entry. The
  translation lookaside buffer is not part of the state: the walk is what the processor finds
  once it holds no older entry for the page.
\<close>

definition walk :: "(u32 \<Rightarrow> u32) \<Rightarrow> u32 \<Rightarrow> u32 \<Rightarrow> (u32 \<times> bool \<times> bool) option" where
  "walk phys cr3 va =
     (let pde = phys (cr3 + 4 * get_PDE_idx va);
          pte = phys (get_pageframe_address pde + 4 * get_pte_idx va)
      in if paging_entry_present pde \<and> paging_entry_present pte
         then Some (get_pageframe_address pte + (va AND 0xfff),
           pde AND WRITABLE \<noteq> 0 \<and> pte AND WRITABLE \<noteq> 0,
           pde AND USER_ACCESSIBLE \<noteq> 0 \<and> pte AND USER_ACCESSIBLE \<noteq> 0)
         else None)"

lemma translate_walk: "translate ph cr va = map_option fst (walk ph cr va)"
  by (simp add: translate_def walk_def Let_def)

text \<open>
  What the walk is to give at an address \<open>x\<close> of a page that has been mapped to \<open>pa\<close> with the
  kernel's flags, below the directory entry \<open>pde\<close>.
\<close>

definition leads_to :: "u32 \<Rightarrow> u32 \<Rightarrow> u32 \<Rightarrow> u32 \<Rightarrow> u32 \<times> bool \<times> bool" where
  "leads_to pde pa flags x = (pa + (x AND 0xfff),
     pde AND WRITABLE \<noteq> 0 \<and> flags AND VM_AREA_WRITE \<noteq> 0,
     pde AND USER_ACCESSIBLE \<noteq> 0 \<and> flags AND VM_AREA_USER_ACCESSIBLE \<noteq> 0)"

lemma fst_leads_to [simp]: "fst (leads_to pde pa flags x) = pa + (x AND 0xfff)"
  by (simp add: leads_to_def)

record paging_state =
  pmm :: pmm_state
  phys :: "u32 \<Rightarrow> u32"
  kernel_PGD :: u32

definition vread :: "paging_state \<Rightarrow> u32 \<Rightarrow> u32 option" where
  "vread s va = map_option (phys s) (translate (phys s) (phys_addy (kernel_PGD s)) va)"

definition vwrite :: "paging_state \<Rightarrow> u32 \<Rightarrow> u32 \<Rightarrow> paging_state option" where
  "vwrite s va v =
     map_option (\<lambda>pa. s\<lparr>phys := (phys s)(pa := v)\<rparr>)
       (translate (phys s) (phys_addy (kernel_PGD s)) va)"

subsection \<open>paging.c\<close>

definition get_pte :: "paging_state \<Rightarrow> u32 \<Rightarrow> u32 \<Rightarrow> u32" where
  "get_pte s pgd virtual_address =
     (if pgd = kernel_PGD s then
        (let page_tab_pde_idx = get_PDE_idx virtual_address;
             pt_p = get_page_tab_virtual_pointer page_tab_pde_idx
         in if pt_p = NULL then NULL
            else pt_p + 4 * get_pte_idx virtual_address)
      else NULL)"

definition free_mapping :: "paging_state \<Rightarrow> u32 \<Rightarrow> u32 \<Rightarrow> (bool \<times> paging_state) option" where
  "free_mapping s pgd virtual_address =
     map_option (\<lambda>s'. (True, s')) (vwrite s (get_pte s pgd virtual_address) 0)"

text \<open>An entry is assigned its address, then the flags are or-ed into it.\<close>

definition write_entry :: "paging_state \<Rightarrow> u32 \<Rightarrow> u32 \<Rightarrow> u32 \<Rightarrow> paging_state option" where
  "write_entry s p physical_address flags =
     Option.bind (vwrite s p physical_address) (\<lambda>s1.
       Option.bind (vread s1 p) (\<lambda>v. vwrite s1 p (v OR flags)))"

definition init_pde :: "paging_state \<Rightarrow> u32 \<Rightarrow> u32 \<Rightarrow> u32 \<Rightarrow> paging_state option" where
  "init_pde s pde_p physical_address flags = write_entry s pde_p physical_address flags"

text \<open>\<open>memset(p, 0, PAGE_SIZE)\<close> of a page-aligned \<open>p\<close>, one 32-bit cell at a time.\<close>

definition zero_page :: "paging_state \<Rightarrow> u32 \<Rightarrow> paging_state option" where
  "zero_page s p =
     for_loop 0 1024 (\<lambda>i so. Option.bind so (\<lambda>s. vwrite s (p + 4 * i) 0)) (Some s)"

definition alloc_page_table :: "paging_state \<Rightarrow> u32 \<Rightarrow> u32 \<Rightarrow> paging_state option" where
  "alloc_page_table s pgd pde_index =
     (let (phys_address, pmm') = alloc_pageframe (pmm s) (1024 * 4) in
      Option.bind (zero_page (s\<lparr>pmm := pmm'\<rparr>) phys_address) (\<lambda>s1.
        init_pde s1 (pgd + 4 * pde_index) phys_address KERNEL_PDE_DEFAULT_FLAGS))"

definition convert_flags_to_arch_flags :: "u32 \<Rightarrow> u32" where
  "convert_flags_to_arch_flags kernel_obj_flags =
     (let f = 0;
          f = (if kernel_obj_flags AND VM_AREA_WRITE \<noteq> 0 then f OR WRITABLE else f);
          f = (if kernel_obj_flags AND VM_AREA_USER_ACCESSIBLE \<noteq> 0 then f OR USER_ACCESSIBLE else f);
          f = f OR PRESENT
      in f OR PTE_IS_GLOBAL)"

definition map_pageframe ::
    "paging_state \<Rightarrow> u32 \<Rightarrow> u32 \<Rightarrow> u32 \<Rightarrow> u32 \<Rightarrow> (bool \<times> paging_state) option" where
  "map_pageframe s pgd pageframe_phys_addy virtual_addy flags =
     (if pgd \<noteq> NULL then
        (let pde_idx = get_PDE_idx virtual_addy in
         Option.bind (vread s (pgd + 4 * pde_idx)) (\<lambda>pde.
           Option.bind (if \<not> paging_entry_present pde then alloc_page_table s pgd pde_idx else Some s)
             (\<lambda>s1.
               map_option (\<lambda>s2. (True, s2))
                 (write_entry s1 (get_pte s1 pgd virtual_addy) pageframe_phys_addy
                   (convert_flags_to_arch_flags flags)))))
      else Some (False, s))"

text \<open>The loop of the three range mappings, over the page numbers below \<open>num_pages\<close>.\<close>

function map_pages :: "paging_state \<Rightarrow> u32 \<Rightarrow> u32 \<Rightarrow> u32 \<Rightarrow> u32 \<Rightarrow> u32 \<Rightarrow> u32 \<Rightarrow>
    (bool \<times> paging_state) option" where
  "map_pages s pgd pa va flags num_pages page =
     (if page < num_pages then
        (case map_pageframe s pgd (pa + page * PAGE_SIZE) (va + page * PAGE_SIZE) flags of
           None \<Rightarrow> None
         | Some (mapped, s') \<Rightarrow>
             if \<not> mapped then Some (False, s')
             else map_pages s' pgd pa va flags num_pages (page + 1))
      else Some (True, s))"
  by pat_completeness auto
termination
  by (relation "measure (\<lambda>(_, _, _, _, _, num, page). unat num - unat page)")
    (auto simp: unat_inc word_less_nat_alt)

declare map_pages.simps [simp del]

definition map_contiguous_pages ::
    "paging_state \<Rightarrow> u32 \<Rightarrow> u32 \<Rightarrow> u32 \<Rightarrow> u32 \<Rightarrow> u32 \<Rightarrow> (bool \<times> paging_state) option" where
  "map_contiguous_pages s pgd physical_address_start virtual_address_start flags num_pages =
     map_pages s pgd physical_address_start virtual_address_start flags num_pages 0"

definition identity_map_pageframes ::
    "paging_state \<Rightarrow> u32 \<Rightarrow> u32 \<Rightarrow> u32 \<Rightarrow> u32 \<Rightarrow> (bool \<times> paging_state) option" where
  "identity_map_pageframes s pgd physical_address_start flags num_pages =
     map_pages s pgd physical_address_start physical_address_start flags num_pages 0"

definition direct_map_pageframes ::
    "paging_state \<Rightarrow> u32 \<Rightarrow> u32 \<Rightarrow> u32 \<Rightarrow> u32 \<Rightarrow> (bool \<times> paging_state) option" where
  "direct_map_pageframes s pgd physical_address_start flags num_pages =
     map_pages s pgd physical_address_start (virt_addy physical_address_start) flags num_pages 0"

subsection \<open>Addresses of entries\<close>

text \<open>The three fields of a virtual address as natural numbers.\<close>

lemma unat_get_PDE_idx: "unat (get_PDE_idx va) = unat va div 4096 div 1024"
proof -
  have "unat (get_PDE_idx va) = unat va div 2 ^ 22"
    unfolding get_PDE_idx_def PAGE_DIR_INDEX_BIT_INDEX_def
    by (simp add: drop_bit_eq_div unat_div_distrib)
  then show ?thesis by (simp flip: div_mult2_eq)
qed

lemma unat_get_pte_idx: "unat (get_pte_idx va) = unat va div 4096 mod 1024"
proof -
  have "get_pte_idx va = take_bit 10 (drop_bit 12 va)"
    by (simp only: get_pte_idx_def PAGE_TAB_INDEX_BITMASK_def mask_10
        PAGE_TAB_INDEX_BIT_INDEX_def take_bit_eq_mask)
  then have "unat (get_pte_idx va) = unat va div 2 ^ 12 mod 2 ^ 10"
    by (simp add: drop_bit_eq_div take_bit_eq_mod unat_div_distrib unat_mod_distrib)
  then show ?thesis by simp
qed

lemma unat_page_offset: "unat (va AND 0xfff :: u32) = unat va mod 4096"
proof -
  have "va AND 0xfff = take_bit 12 va" by (simp only: mask_12 take_bit_eq_mask)
  then have "unat (va AND 0xfff) = unat va mod 2 ^ 12"
    by (simp add: take_bit_eq_mod unat_mod_distrib)
  then show ?thesis by simp
qed

lemma get_PDE_idx_bound: "get_PDE_idx va < 1024"
  using unat_lt_2p32 [of va] by (simp add: word_less_nat_alt unat_get_PDE_idx)

lemma get_pte_idx_bound: "get_pte_idx va < 1024"
  by (simp add: word_less_nat_alt unat_get_pte_idx)

definition page_aligned :: "u32 \<Rightarrow> bool" where
  "page_aligned a \<longleftrightarrow> a AND 0xfff = 0"

lemma page_aligned_unat: "page_aligned a \<longleftrightarrow> (\<exists>x. unat a = 4096 * x \<and> x \<le> 1048575)"
proof -
  have "page_aligned a \<longleftrightarrow> unat a mod 4096 = 0"
    unfolding page_aligned_def by (metis unat_page_offset unat_eq_0)
  then show ?thesis using unat_lt_2p32 [of a] by auto
qed

lemma frame_aligned: "page_aligned (get_pageframe_address v)"
  unfolding page_aligned_def get_pageframe_address_def page_frame_bitmask mask_12
  by (simp add: bit_eq_iff bit_simps)

lemma unat_cell:
  assumes "page_aligned a" and "i < 1024"
  shows "unat (a + 4 * i) = unat a + 4 * unat i"
proof -
  have i: "unat i < 1024" using assms(2) by (simp add: word_less_nat_alt)
  have "unat (4 * i) = 4 * unat i" using i unat_mult_small [of 4 i] by simp
  moreover obtain x where "unat a = 4096 * x" "x \<le> 1048575"
    using assms(1) unfolding page_aligned_unat by blast
  ultimately show ?thesis using i by (subst unat_add_small) simp_all
qed

lemma cell_fields:
  assumes "page_aligned a" and "i < 1024"
  shows "unat (a + 4 * i) div 4096 = unat a div 4096" and "unat (a + 4 * i) mod 4096 = 4 * unat i"
proof -
  have i: "unat i < 1024" using assms(2) by (simp add: word_less_nat_alt)
  obtain x where "unat a = 4096 * x"
    using assms(1) unfolding page_aligned_unat by blast
  then show "unat (a + 4 * i) div 4096 = unat a div 4096" "unat (a + 4 * i) mod 4096 = 4 * unat i"
    using i by (simp_all add: unat_cell assms)
qed

lemma cell_eq_iff:
  assumes "page_aligned a" and "page_aligned b" and "i < 1024" and "j < 1024"
  shows "a + 4 * i = b + 4 * j \<longleftrightarrow> a = b \<and> i = j"
proof
  assume "a + 4 * i = b + 4 * j"
  then have "unat a div 4096 = unat b div 4096" "4 * unat i = 4 * unat j"
    using cell_fields assms by metis+
  moreover obtain x y where "unat a = 4096 * x" "unat b = 4096 * y"
    using assms(1,2) unfolding page_aligned_unat by blast
  ultimately show "a = b \<and> i = j" by (simp add: word_unat_eq_iff)
qed simp

lemma indices_in_page:
  assumes "page_aligned a" and "i < 1024"
  shows "get_PDE_idx (a + 4 * i) = get_PDE_idx a" and "get_pte_idx (a + 4 * i) = get_pte_idx a"
    and "(a + 4 * i) AND 0xfff = 4 * i"
proof -
  have "unat (4 * i) = 4 * unat i"
    using assms(2) unat_mult_small [of 4 i] by (simp add: word_less_nat_alt)
  then show "get_PDE_idx (a + 4 * i) = get_PDE_idx a" "get_pte_idx (a + 4 * i) = get_pte_idx a"
    "(a + 4 * i) AND 0xfff = 4 * i"
    by (simp_all add: word_unat_eq_iff unat_get_PDE_idx unat_get_pte_idx unat_page_offset
        cell_fields assms)
qed

text \<open>The window that the recursive entry opens on the page tables.\<close>

lemma unat_window:
  assumes "i < 1024"
  shows "unat (get_page_tab_virtual_pointer i) = 4096 * (963 * 1024 + unat i)"
proof -
  have i: "unat i < 1024" using assms by (simp add: word_less_nat_alt)
  have "i AND 0x3ff = take_bit 10 i" by (simp only: mask_10 take_bit_eq_mask)
  also have "unat \<dots> = unat i mod 2 ^ 10" by (simp add: take_bit_eq_mod unat_mod_distrib)
  finally have "i AND 0x3ff = i" using i by (simp add: word_unat_eq_iff)
  then have "get_page_tab_virtual_pointer i = 0xF0C00000 OR push_bit 12 i"
    by (simp add: get_page_tab_virtual_pointer_def addr_defs)
  also have "\<dots> = 0xF0C00000 + push_bit 12 i"
  proof (rule disjunctive_add_eq_or [symmetric], rule bit_word_eqI)
    fix n assume "n < LENGTH(32)"
    have "\<not> (bit (0xF0C00000 :: u32) n \<and> 12 \<le> n \<and> bit i (n - 12))"
    proof
      assume b: "bit (0xF0C00000 :: u32) n \<and> 12 \<le> n \<and> bit i (n - 12)"
      have "0xF0C00000 = push_bit 22 (0x3c3 :: u32)" by simp
      then have "22 \<le> n" using b by (metis bit_push_bit_iff)
      moreover have "i = take_bit 10 i" using \<open>i AND 0x3ff = i\<close> by (simp only: mask_10 take_bit_eq_mask)
      then have "n - 12 < 10" using b by (metis bit_take_bit_iff)
      ultimately show False by simp
    qed
    then show "bit (0xF0C00000 AND push_bit 12 i) n = bit (0 :: u32) n"
      by (simp add: bit_and_iff bit_push_bit_iff)
  qed
  also have "push_bit 12 i = 4096 * i" by (simp add: push_bit_eq_mult)
  finally have "get_page_tab_virtual_pointer i = 0xF0C00000 + 4096 * i" .
  moreover have "unat (4096 * i) = 4096 * unat i" using i unat_mult_small [of 4096 i] by simp
  ultimately show ?thesis
    using i by (simp add: unat_add_small)
qed

lemma window_fields:
  assumes "i < 1024" and "j < 1024"
  defines "w \<equiv> get_page_tab_virtual_pointer i"
  shows "page_aligned w" and "w \<noteq> NULL" and "get_PDE_idx (w + 4 * j) = RECURSIVE_PDE_IDX"
    and "get_pte_idx (w + 4 * j) = i" and "(w + 4 * j) AND 0xfff = 4 * j"
proof -
  have i: "unat i < 1024" using assms(1) by (simp add: word_less_nat_alt)
  have w: "unat w = 4096 * (963 * 1024 + unat i)" unfolding w_def using assms(1) by (rule unat_window)
  then show al: "page_aligned w"
    unfolding page_aligned_unat by (intro exI [of _ "963 * 1024 + unat i"]) (use i in simp)
  have "unat w \<noteq> 0" using w by simp
  then show "w \<noteq> NULL" by auto
  have "(unat i + 963 * 1024) mod 1024 = unat i" using i by (simp only: mod_mult_self1 mod_less)
  then have fld: "(986112 + unat i) mod 1024 = unat i" by (simp add: add.commute)
  have "get_PDE_idx w = RECURSIVE_PDE_IDX" "get_pte_idx w = i"
    using i fld by (simp_all add: word_unat_eq_iff unat_get_PDE_idx unat_get_pte_idx w
        RECURSIVE_PDE_IDX_def)
  then show "get_PDE_idx (w + 4 * j) = RECURSIVE_PDE_IDX" "get_pte_idx (w + 4 * j) = i"
    "(w + 4 * j) AND 0xfff = 4 * j"
    using indices_in_page [OF al assms(2)] by simp_all
qed

subsection \<open>The invariant of the kernel's page directory\<close>

definition cr3 :: "paging_state \<Rightarrow> u32" where
  "cr3 s = phys_addy (kernel_PGD s)"

definition pde_at :: "paging_state \<Rightarrow> u32 \<Rightarrow> u32" where
  "pde_at s i = phys s (cr3 s + 4 * i)"

text \<open>The physical cell of the page-table entry for \<open>va\<close>.\<close>

definition pte_cell :: "paging_state \<Rightarrow> u32 \<Rightarrow> u32" where
  "pte_cell s va = get_pageframe_address (pde_at s (get_PDE_idx va)) + 4 * get_pte_idx va"

text \<open>
  What the boot code establishes: the directory is page-aligned and mapped where
  \<open>kernel_PGD\<close> says, its recursive entry points to itself and no other entry does.
\<close>

definition paging_ok :: "paging_state \<Rightarrow> bool" where
  "paging_ok s \<longleftrightarrow>
     kernel_PGD s \<noteq> NULL \<and> page_aligned (kernel_PGD s) \<and>
     get_PDE_idx (kernel_PGD s) \<noteq> RECURSIVE_PDE_IDX \<and>
     translate (phys s) (cr3 s) (kernel_PGD s) = Some (cr3 s) \<and>
     paging_entry_present (pde_at s RECURSIVE_PDE_IDX) \<and>
     get_pageframe_address (pde_at s RECURSIVE_PDE_IDX) = cr3 s \<and>
     (\<forall>i < 1024. i \<noteq> RECURSIVE_PDE_IDX \<longrightarrow> paging_entry_present (pde_at s i) \<longrightarrow>
       get_pageframe_address (pde_at s i) \<noteq> cr3 s)"

lemma cr3_aligned: "page_aligned (kernel_PGD s) \<Longrightarrow> page_aligned (cr3 s)"
proof -
  assume "page_aligned (kernel_PGD s)"
  then obtain x where x: "unat (kernel_PGD s) = 4096 * x" "x \<le> 1048575"
    unfolding page_aligned_unat by blast
  have "unat (cr3 s) = (if 0xC0000000 \<le> unat (kernel_PGD s) then unat (kernel_PGD s) - 0xC0000000
      else unat (kernel_PGD s) + 4294967296 - 0xC0000000)"
    by (simp add: cr3_def phys_addy_def kernel_vm_offset_def unat_sub_if_size word_size)
  also have "\<dots> = 4096 * (if 786432 \<le> x then x - 786432 else x + 262144)"
    using x(1) by (simp add: diff_mult_distrib2)
  finally show "page_aligned (cr3 s)"
    unfolding page_aligned_unat
    by (intro exI [of _ "if 786432 \<le> x then x - 786432 else x + 262144"] conjI) (assumption, use x(2) in \<open>cases "786432 \<le> x"; simp\<close>)
qed

lemma translate_alt:
  "translate (phys s) (cr3 s) va =
     (if paging_entry_present (pde_at s (get_PDE_idx va)) \<and>
         paging_entry_present (phys s (pte_cell s va))
      then Some (get_pageframe_address (phys s (pte_cell s va)) + (va AND 0xfff)) else None)"
  by (simp add: translate_def pde_at_def pte_cell_def Let_def)

lemma walk_alt:
  "walk (phys s) (cr3 s) va =
     (let pde = pde_at s (get_PDE_idx va); pte = phys s (pte_cell s va) in
      if paging_entry_present pde \<and> paging_entry_present pte
      then Some (get_pageframe_address pte + (va AND 0xfff),
        pde AND WRITABLE \<noteq> 0 \<and> pte AND WRITABLE \<noteq> 0,
        pde AND USER_ACCESSIBLE \<noteq> 0 \<and> pte AND USER_ACCESSIBLE \<noteq> 0)
      else None)"
  by (simp add: walk_def pde_at_def pte_cell_def Let_def)

lemma walk_eqI:
  assumes "cr3 s' = cr3 s" and "pde_at s' (get_PDE_idx x) = pde_at s (get_PDE_idx x)"
    and "paging_entry_present (pde_at s (get_PDE_idx x)) \<Longrightarrow>
      phys s' (pte_cell s x) = phys s (pte_cell s x)"
  shows "walk (phys s') (cr3 s) x = walk (phys s) (cr3 s) x"
proof -
  have "pte_cell s' x = pte_cell s x" unfolding pte_cell_def by (simp only: assms(2))
  then show ?thesis
    using walk_alt [of s' x] walk_alt [of s x] assms
    by (cases "paging_entry_present (pde_at s (get_PDE_idx x))") (simp_all add: Let_def)
qed

text \<open>A store outside the two cells that the walk reads does not change its result.\<close>

lemma translate_frame:
  assumes "c \<noteq> cr + 4 * get_PDE_idx va"
    and "c \<noteq> get_pageframe_address (ph (cr + 4 * get_PDE_idx va)) + 4 * get_pte_idx va"
  shows "translate (ph(c := v)) cr va = translate ph cr va"
  using assms by (simp add: translate_def Let_def)

lemma translate_cong:
  assumes "ph' (cr + 4 * get_PDE_idx va) = ph (cr + 4 * get_PDE_idx va)"
    and "ph' (get_pageframe_address (ph (cr + 4 * get_PDE_idx va)) + 4 * get_pte_idx va) =
      ph (get_pageframe_address (ph (cr + 4 * get_PDE_idx va)) + 4 * get_pte_idx va)"
  shows "translate ph' cr va = translate ph cr va"
  using assms by (simp add: translate_def Let_def)

text \<open>Through the window, \<open>get_pte\<close> reaches the cell that the processor walks.\<close>

lemma get_pte_translate:
  assumes ok: "paging_ok s" and present: "paging_entry_present (pde_at s (get_PDE_idx va))"
  shows "translate (phys s) (cr3 s) (get_pte s (kernel_PGD s) va) = Some (pte_cell s va)"
proof -
  note w = window_fields [OF get_PDE_idx_bound [of va] get_pte_idx_bound [of va]]
  have "get_pte s (kernel_PGD s) va =
      get_page_tab_virtual_pointer (get_PDE_idx va) + 4 * get_pte_idx va"
    using w(2) by (simp add: get_pte_def Let_def)
  then show ?thesis
    using w present ok unfolding paging_ok_def
    by (simp add: translate_def Let_def pde_at_def pte_cell_def)
qed

lemma pgd_translate:
  assumes ok: "paging_ok s" and "i < 1024"
  shows "translate (phys s) (cr3 s) (kernel_PGD s + 4 * i) = Some (cr3 s + 4 * i)"
proof -
  have al: "page_aligned (kernel_PGD s)" using ok by (simp add: paging_ok_def)
  then have "kernel_PGD s AND 0xfff = 0" by (simp add: page_aligned_def)
  then show ?thesis
    using ok indices_in_page [OF al assms(2)] unfolding paging_ok_def
    by (auto simp: translate_def Let_def split: if_splits)
qed

lemma pte_cell_not_pde:
  assumes "paging_ok s" and "get_PDE_idx va \<noteq> RECURSIVE_PDE_IDX"
    and "paging_entry_present (pde_at s (get_PDE_idx va))" and "i < 1024"
  shows "pte_cell s va \<noteq> cr3 s + 4 * i"
  unfolding pte_cell_def
  using assms cell_eq_iff [OF frame_aligned cr3_aligned get_pte_idx_bound assms(4)]
    get_PDE_idx_bound [of va]
  by (auto simp: paging_ok_def)

text \<open>Assigning an entry and or-ing its flags leaves one changed cell.\<close>

lemma write_entry_cell:
  assumes "translate (phys s) (cr3 s) p = Some c"
    and "translate ((phys s)(c := a)) (cr3 s) p = Some c"
  shows "write_entry s p a f = Some (s\<lparr>phys := (phys s)(c := a OR f)\<rparr>)"
  using assms by (simp add: write_entry_def vwrite_def vread_def cr3_def)

lemma RECURSIVE_PDE_IDX_bound [simp]: "RECURSIVE_PDE_IDX < 1024"
  by (simp add: RECURSIVE_PDE_IDX_def)

lemma write_pte:
  assumes ok: "paging_ok s" and "get_PDE_idx va \<noteq> RECURSIVE_PDE_IDX"
    and present: "paging_entry_present (pde_at s (get_PDE_idx va))"
  shows "write_entry s (get_pte s (kernel_PGD s) va) a f =
    Some (s\<lparr>phys := (phys s)(pte_cell s va := a OR f)\<rparr>)"
proof (rule write_entry_cell)
  note tr = get_pte_translate [OF ok present]
  show "translate (phys s) (cr3 s) (get_pte s (kernel_PGD s) va) = Some (pte_cell s va)"
    by (rule tr)
  note w = window_fields [OF get_PDE_idx_bound [of va] get_pte_idx_bound [of va]]
  have p: "get_pte s (kernel_PGD s) va =
      get_page_tab_virtual_pointer (get_PDE_idx va) + 4 * get_pte_idx va"
    using w(2) by (simp add: get_pte_def Let_def)
  have "get_pageframe_address (phys s (cr3 s + 4 * RECURSIVE_PDE_IDX)) = cr3 s"
    using ok by (simp add: paging_ok_def pde_at_def)
  then show "translate ((phys s)(pte_cell s va := a)) (cr3 s) (get_pte s (kernel_PGD s) va) =
      Some (pte_cell s va)"
    using tr pte_cell_not_pde [OF assms get_PDE_idx_bound]
      pte_cell_not_pde [OF assms RECURSIVE_PDE_IDX_bound] w
    by (subst translate_frame) (simp_all add: p)
qed

subsection \<open>Mapping one page\<close>

lemma arch_flags_small: "convert_flags_to_arch_flags f AND NOT 0xfff = 0"
  by (simp add: convert_flags_to_arch_flags_def flag_defs Let_def)

lemma arch_flags_present: "paging_entry_present (a OR convert_flags_to_arch_flags f)"
proof -
  have "bit (convert_flags_to_arch_flags f) 0"
    by (simp add: convert_flags_to_arch_flags_def flag_defs Let_def bit_or_iff)
  then have "bit (a OR convert_flags_to_arch_flags f) 0" by (simp add: bit_or_iff)
  then show ?thesis by (simp add: paging_entry_present_def bit_0 even_iff_mod_2_eq_zero and_one_eq odd_iff_mod_2_eq_one)
qed

lemma entry_frame:
  assumes "page_aligned a" and "f AND NOT 0xfff = 0"
  shows "get_pageframe_address (a OR f) = a"
proof -
  have "a AND NOT 0xfff = a"
  proof -
    have "a = (a AND 0xfff) OR (a AND NOT 0xfff)"
      by (simp only: bit.conj_disj_distrib [symmetric] bit.disj_cancel_right and.right_neutral)
    then show ?thesis using assms(1) unfolding page_aligned_def by (simp only: or.left_neutral)
  qed
  moreover have "PAGE_FRAME_BITMASK = NOT 0xfff"
    by (simp add: PAGE_FRAME_BITMASK_def PAGE_SIZE_def)
  ultimately show ?thesis
    using assms(2) by (simp add: get_pageframe_address_def bit.conj_disj_distrib2)
qed

lemma entry_flags:
  assumes "page_aligned a"
  shows "(a OR convert_flags_to_arch_flags f) AND WRITABLE \<noteq> 0 \<longleftrightarrow> f AND VM_AREA_WRITE \<noteq> 0"
    and "(a OR convert_flags_to_arch_flags f) AND USER_ACCESSIBLE \<noteq> 0 \<longleftrightarrow>
      f AND VM_AREA_USER_ACCESSIBLE \<noteq> 0"
proof -
  have low: "a AND b = 0" if "b = 0xfff AND b" for b
  proof -
    have "a AND b = (a AND 0xfff) AND b" using that by (metis and.assoc)
    then show ?thesis using assms by (simp add: page_aligned_def)
  qed
  have "a AND WRITABLE = 0" "a AND USER_ACCESSIBLE = 0" by (rule low, simp add: flag_defs)+
  then show "(a OR convert_flags_to_arch_flags f) AND WRITABLE \<noteq> 0 \<longleftrightarrow> f AND VM_AREA_WRITE \<noteq> 0"
    "(a OR convert_flags_to_arch_flags f) AND USER_ACCESSIBLE \<noteq> 0 \<longleftrightarrow>
      f AND VM_AREA_USER_ACCESSIBLE \<noteq> 0"
    unfolding bit.conj_disj_distrib2
    by (simp_all add: convert_flags_to_arch_flags_def flag_defs Let_def)
qed

text \<open>The state after the page of \<open>va\<close> has been mapped to the frame \<open>pa\<close>.\<close>

definition mapped :: "paging_state \<Rightarrow> u32 \<Rightarrow> u32 \<Rightarrow> u32 \<Rightarrow> paging_state" where
  "mapped s pa va flags =
     s\<lparr>phys := (phys s)(pte_cell s va := pa OR convert_flags_to_arch_flags flags)\<rparr>"

lemma map_pageframe_present:
  assumes ok: "paging_ok s" and "get_PDE_idx va \<noteq> RECURSIVE_PDE_IDX"
    and "paging_entry_present (pde_at s (get_PDE_idx va))"
  shows "map_pageframe s (kernel_PGD s) pa va flags = Some (True, mapped s pa va flags)"
proof -
  have "vread s (kernel_PGD s + 4 * get_PDE_idx va) = Some (pde_at s (get_PDE_idx va))"
    using pgd_translate [OF ok get_PDE_idx_bound [of va]]
    by (simp add: vread_def pde_at_def cr3_def)
  then show ?thesis
    using ok assms(3) write_pte [OF assms]
    by (simp add: map_pageframe_def mapped_def paging_ok_def Let_def)
qed

lemma mapped_simps [simp]:
  "cr3 (mapped s pa va f) = cr3 s" "kernel_PGD (mapped s pa va f) = kernel_PGD s"
  "pmm (mapped s pa va f) = pmm s"
  by (simp_all add: mapped_def cr3_def)

lemma mapped_pde:
  assumes "paging_ok s" and "get_PDE_idx va \<noteq> RECURSIVE_PDE_IDX"
    and "paging_entry_present (pde_at s (get_PDE_idx va))" and "i < 1024"
  shows "pde_at (mapped s pa va f) i = pde_at s i"
  using pte_cell_not_pde [OF assms] by (auto simp: pde_at_def mapped_def cr3_def)

lemma mapped_walk:
  assumes "paging_ok s" and "get_PDE_idx va \<noteq> RECURSIVE_PDE_IDX"
    and "paging_entry_present (pde_at s (get_PDE_idx va))" and "page_aligned pa"
  shows "walk (phys (mapped s pa va f)) (cr3 s) x =
    (if paging_entry_present (pde_at s (get_PDE_idx x)) \<and> pte_cell s x = pte_cell s va
     then Some (leads_to (pde_at s (get_PDE_idx x)) pa f x) else walk (phys s) (cr3 s) x)"
proof -
  note pde = mapped_pde [OF assms(1-3) get_PDE_idx_bound [of x], of pa f]
  have cell: "pte_cell (mapped s pa va f) x = pte_cell s x"
    unfolding pte_cell_def by (simp only: pde)
  have "phys (mapped s pa va f) (pte_cell s x) =
      (if pte_cell s x = pte_cell s va then pa OR convert_flags_to_arch_flags f
       else phys s (pte_cell s x))"
    by (simp add: mapped_def)
  then show ?thesis
    using walk_alt [of "mapped s pa va f" x] walk_alt [of s x]
    unfolding cell pde
    by (auto simp add: Let_def leads_to_def arch_flags_present entry_flags [OF assms(4)]
        entry_frame [OF assms(4) arch_flags_small])
qed

lemma mapped_translate:
  assumes "paging_ok s" and "get_PDE_idx va \<noteq> RECURSIVE_PDE_IDX"
    and "paging_entry_present (pde_at s (get_PDE_idx va))" and "page_aligned pa"
  shows "translate (phys (mapped s pa va f)) (cr3 s) x =
    (if paging_entry_present (pde_at s (get_PDE_idx x)) \<and> pte_cell s x = pte_cell s va
     then Some (pa + (x AND 0xfff)) else translate (phys s) (cr3 s) x)"
  by (simp add: translate_walk mapped_walk [OF assms])

text \<open>A page shares the entry of \<open>va\<close> when its page table is the same frame.\<close>

lemma pte_cell_eq_iff:
  "pte_cell s x = pte_cell s va \<longleftrightarrow>
     get_pageframe_address (pde_at s (get_PDE_idx x)) =
       get_pageframe_address (pde_at s (get_PDE_idx va)) \<and> get_pte_idx x = get_pte_idx va"
  unfolding pte_cell_def by (intro cell_eq_iff frame_aligned get_pte_idx_bound)

lemma mapped_ok:
  assumes ok: "paging_ok s" and "get_PDE_idx va \<noteq> RECURSIVE_PDE_IDX"
    and "paging_entry_present (pde_at s (get_PDE_idx va))" and "page_aligned pa"
    and "pte_cell s (kernel_PGD s) \<noteq> pte_cell s va"
  shows "paging_ok (mapped s pa va f)"
proof -
  have "translate (phys (mapped s pa va f)) (cr3 s) (kernel_PGD s) = Some (cr3 s)"
    using ok assms(5) by (simp add: mapped_translate assms(1-4) paging_ok_def)
  then show ?thesis
    using ok by (simp add: paging_ok_def mapped_pde assms(1-3))
qed

lemma free_mapping_present:
  assumes "paging_ok s" and "paging_entry_present (pde_at s (get_PDE_idx va))"
  shows "free_mapping s (kernel_PGD s) va = Some (True, s\<lparr>phys := (phys s)(pte_cell s va := 0)\<rparr>)"
  using get_pte_translate [OF assms] by (simp add: free_mapping_def vwrite_def cr3_def)

subsection \<open>A new page table\<close>

definition zeroed :: "u32 \<Rightarrow> (u32 \<Rightarrow> u32) \<Rightarrow> u32 \<Rightarrow> u32" where
  "zeroed a ph c = (if \<exists>i < 1024. c = a + 4 * i then 0 else ph c)"

lemma zeroed_other:
  "page_aligned a \<Longrightarrow> page_aligned b \<Longrightarrow> a \<noteq> b \<Longrightarrow> i < 1024 \<Longrightarrow>
     zeroed a ph (b + 4 * i) = ph (b + 4 * i)"
  by (auto simp: zeroed_def cell_eq_iff)

text \<open>A page that is no paging structure is cleared through its identity mapping.\<close>

lemma zero_page_zeroed:
  assumes al: "page_aligned a" and "page_aligned (cr3 s)" and "a \<noteq> cr3 s"
    and id: "translate (phys s) (cr3 s) a = Some a"
    and apart: "get_pageframe_address (pde_at s (get_PDE_idx a)) \<noteq> a"
  shows "zero_page s a = Some (s\<lparr>phys := zeroed a (phys s)\<rparr>)"
proof -
  let ?upto = "\<lambda>i c. if \<exists>j < i. c = a + 4 * j then 0 else phys s c"
  have walk: "translate (?upto i) (cr3 s) (a + 4 * i) = Some (a + 4 * i)" if i: "i < 1024" for i
  proof -
    note ix = indices_in_page [OF al i]
    have "\<not> (\<exists>j < i. cr3 s + 4 * get_PDE_idx a = a + 4 * j)"
      using assms(3) cell_eq_iff [OF assms(2) al get_PDE_idx_bound] i
      by (metis order.strict_trans)
    moreover have "\<not> (\<exists>j < i. pte_cell s a = a + 4 * j)"
      unfolding pte_cell_def using apart cell_eq_iff [OF frame_aligned al get_pte_idx_bound] i
      by (meson order.strict_trans)
    moreover have "a AND 0xfff = 0" using al by (simp add: page_aligned_def)
    ultimately show ?thesis
      using id translate_alt [of s a] ix
      by (auto simp: translate_def Let_def pte_cell_def pde_at_def split: if_splits)
  qed
  have "for_loop 0 1024 (\<lambda>i so. Option.bind so (\<lambda>s. vwrite s (a + 4 * i) 0)) (Some s) =
      Some (s\<lparr>phys := ?upto 1024\<rparr>)"
  proof (rule for_loop_invariant [where P = "\<lambda>i so. so = Some (s\<lparr>phys := ?upto i\<rparr>)"])
    fix j t assume j: "j < 1024" and t: "t = Some (s\<lparr>phys := ?upto j\<rparr>)"
    have "(?upto j)(a + 4 * j := 0) = ?upto (j + 1)"
      using word_lt_inc [OF j] by (auto simp: fun_eq_iff order_le_less)
    then show "Option.bind t (\<lambda>s. vwrite s (a + 4 * j) 0) = Some (s\<lparr>phys := ?upto (j + 1)\<rparr>)"
      using walk [OF j] by (simp add: t vwrite_def cr3_def)
  qed simp_all
  then show ?thesis by (simp add: zero_page_def zeroed_def [abs_def])
qed

text \<open>
  The frame that the allocator hands out for a table can be cleared where it is (it is
  identity-mapped) and is not a paging structure already.
\<close>

definition table_available :: "paging_state \<Rightarrow> bool" where
  "table_available s \<longleftrightarrow>
     (let a = fst (alloc_pageframe (pmm s) 4096) in
      a \<noteq> NULL \<and> page_aligned a \<and> a \<noteq> cr3 s \<and> translate (phys s) (cr3 s) a = Some a \<and>
      (\<forall>i < 1024. paging_entry_present (pde_at s i) \<longrightarrow>
        get_pageframe_address (pde_at s i) \<noteq> a))"

definition with_table :: "paging_state \<Rightarrow> u32 \<Rightarrow> paging_state" where
  "with_table s i =
     (let (a, p') = alloc_pageframe (pmm s) 4096 in
      s\<lparr>pmm := p', phys := (zeroed a (phys s))(cr3 s + 4 * i := a OR KERNEL_PDE_DEFAULT_FLAGS)\<rparr>)"

lemma kernel_pde_flags_small: "KERNEL_PDE_DEFAULT_FLAGS AND NOT 0xfff = 0"
  by (simp add: flag_defs)

lemma kernel_pde_flags_present: "paging_entry_present (a OR KERNEL_PDE_DEFAULT_FLAGS)"
proof -
  have "bit (a OR KERNEL_PDE_DEFAULT_FLAGS) 0" by (simp add: flag_defs bit_or_iff)
  then show ?thesis
    by (simp add: paging_entry_present_def bit_0 and_one_eq odd_iff_mod_2_eq_one)
qed

lemma with_table_phys:
  assumes ok: "paging_ok s" and av: "table_available s" and i: "i < 1024" "i \<noteq> RECURSIVE_PDE_IDX"
  defines "a \<equiv> fst (alloc_pageframe (pmm s) 4096)"
  shows "j < 1024 \<Longrightarrow> pde_at (with_table s i) j =
      (if j = i then a OR KERNEL_PDE_DEFAULT_FLAGS else pde_at s j)"
    and "page_aligned b \<Longrightarrow> b \<noteq> a \<Longrightarrow> b \<noteq> cr3 s \<Longrightarrow> j < 1024 \<Longrightarrow>
      phys (with_table s i) (b + 4 * j) = phys s (b + 4 * j)"
    and "j < 1024 \<Longrightarrow> phys (with_table s i) (a + 4 * j) = 0"
    and "cr3 (with_table s i) = cr3 s" and "kernel_PGD (with_table s i) = kernel_PGD s"
proof -
  obtain p' where call: "alloc_pageframe (pmm s) 4096 = (a, p')"
    unfolding a_def by (metis prod.collapse)
  have al: "page_aligned a" "page_aligned (cr3 s)" and ne: "a \<noteq> cr3 s"
    and id: "translate (phys s) (cr3 s) a = Some a"
    and fresh: "\<And>i. i < 1024 \<Longrightarrow> paging_entry_present (pde_at s i) \<Longrightarrow>
        get_pageframe_address (pde_at s i) \<noteq> a"
    using av ok cr3_aligned by (auto simp: table_available_def Let_def paging_ok_def a_def)
  let ?s1 = "s\<lparr>pmm := p', phys := zeroed a (phys s)\<rparr>"
  have new: "with_table s i =
      ?s1\<lparr>phys := (phys ?s1)(cr3 s + 4 * i := a OR KERNEL_PDE_DEFAULT_FLAGS)\<rparr>"
    by (simp add: with_table_def call)
  show "cr3 (with_table s i) = cr3 s" "kernel_PGD (with_table s i) = kernel_PGD s"
    by (simp_all add: new cr3_def)
  have pd: "zeroed a (phys s) (cr3 s + 4 * j) = phys s (cr3 s + 4 * j)" if "j < 1024" for j
    using zeroed_other [OF al ne that] .
  show "pde_at (with_table s i) j = (if j = i then a OR KERNEL_PDE_DEFAULT_FLAGS else pde_at s j)"
    if "j < 1024"
    using cell_eq_iff [OF al(2,2) that i(1)] pd [OF that] by (simp add: new pde_at_def cr3_def)
  show "phys (with_table s i) (b + 4 * j) = phys s (b + 4 * j)"
    if "page_aligned b" "b \<noteq> a" "b \<noteq> cr3 s" "j < 1024"
    using cell_eq_iff [OF that(1) al(2) that(4) i(1)] that zeroed_other [OF al(1) that(1) _ that(4)]
    by (simp add: new)
  show "phys (with_table s i) (a + 4 * j) = 0" if "j < 1024"
    using cell_eq_iff [OF al that i(1)] ne that by (auto simp: new zeroed_def)
qed

lemma alloc_page_table_ok:
  assumes ok: "paging_ok s" and av: "table_available s" and i: "i < 1024"
    and np: "\<not> paging_entry_present (pde_at s i)"
  shows "alloc_page_table s (kernel_PGD s) i = Some (with_table s i)"
proof -
  obtain a p' where call: "alloc_pageframe (pmm s) 4096 = (a, p')" by fastforce
  have al: "page_aligned a" "page_aligned (cr3 s)" and ne: "a \<noteq> cr3 s"
    and id: "translate (phys s) (cr3 s) a = Some a"
    and fresh: "\<And>i. i < 1024 \<Longrightarrow> paging_entry_present (pde_at s i) \<Longrightarrow>
        get_pageframe_address (pde_at s i) \<noteq> a"
    using av ok cr3_aligned by (auto simp: table_available_def Let_def paging_ok_def call)
  let ?s1 = "s\<lparr>pmm := p', phys := zeroed a (phys s)\<rparr>"
  have new: "with_table s i =
      ?s1\<lparr>phys := (phys ?s1)(cr3 s + 4 * i := a OR KERNEL_PDE_DEFAULT_FLAGS)\<rparr>"
    by (simp add: with_table_def call)
  have pd: "zeroed a (phys s) (cr3 s + 4 * j) = phys s (cr3 s + 4 * j)" if "j < 1024" for j
    using zeroed_other [OF al ne that] .
  let ?k = "get_PDE_idx (kernel_PGD s)"
  have kpres: "paging_entry_present (pde_at s ?k)"
    and kok: "?k \<noteq> RECURSIVE_PDE_IDX"
    using ok translate_alt [of s "kernel_PGD s"] by (auto simp: paging_ok_def split: if_splits)
  have aid: "get_pageframe_address (pde_at s (get_PDE_idx a)) \<noteq> a"
    using id translate_alt [of s a] fresh [OF get_PDE_idx_bound [of a]] by (auto split: if_splits)
  have "zero_page (s\<lparr>pmm := p'\<rparr>) a = Some ?s1"
    using zero_page_zeroed [of a "s\<lparr>pmm := p'\<rparr>"] al ne id aid by (simp add: cr3_def pde_at_def)
  moreover have "write_entry ?s1 (kernel_PGD s + 4 * i) a KERNEL_PDE_DEFAULT_FLAGS =
      Some (with_table s i)"
  proof -
    let ?kf = "get_pageframe_address (pde_at s ?k)"
    have kf: "?kf \<noteq> a" "?kf \<noteq> cr3 s"
      using fresh [OF get_PDE_idx_bound kpres] kpres kok ok get_PDE_idx_bound
      by (auto simp: paging_ok_def)
    have tr: "translate (zeroed a (phys s)) (cr3 s) (kernel_PGD s + 4 * i) = Some (cr3 s + 4 * i)"
    proof -
      have "page_aligned (kernel_PGD s)" using ok by (simp add: paging_ok_def)
      note ix = indices_in_page [OF this i]
      have "translate (zeroed a (phys s)) (cr3 s) (kernel_PGD s + 4 * i) =
          translate (phys s) (cr3 s) (kernel_PGD s + 4 * i)"
        unfolding pde_at_def [symmetric]
        by (rule translate_cong; unfold ix)
          (rule pd [OF get_PDE_idx_bound],
           rule zeroed_other [OF al(1) frame_aligned kf(1) [unfolded pde_at_def, symmetric] get_pte_idx_bound])
      then show ?thesis using pgd_translate [OF ok i] by simp
    qed
    have "i \<noteq> ?k" using np kpres by auto
    then have c: "cr3 s + 4 * i \<noteq> cr3 s + 4 * ?k"
      using cell_eq_iff [OF al(2,2) i get_PDE_idx_bound] by simp
    have d: "cr3 s + 4 * i \<noteq> ?kf + 4 * get_pte_idx (kernel_PGD s)"
      using cell_eq_iff [OF al(2) frame_aligned i get_pte_idx_bound] kf by metis
    have "page_aligned (kernel_PGD s)" using ok by (simp add: paging_ok_def)
    note ix = indices_in_page [OF this i]
    have "translate ((zeroed a (phys s))(cr3 s + 4 * i := a)) (cr3 s) (kernel_PGD s + 4 * i) =
        Some (cr3 s + 4 * i)"
      using tr c d pd [OF get_PDE_idx_bound [of "kernel_PGD s"]]
      by (subst translate_frame) (simp_all add: ix pde_at_def)
    then show ?thesis
      using tr by (subst write_entry_cell [of _ _ "cr3 s + 4 * i"]) (simp_all add: new cr3_def)
  qed
  ultimately show "alloc_page_table s (kernel_PGD s) i = Some (with_table s i)"
    by (simp add: alloc_page_table_def call init_pde_def)
qed

lemma with_table_ok:
  assumes ok: "paging_ok s" and av: "table_available s" and i: "i < 1024" "i \<noteq> RECURSIVE_PDE_IDX"
    and np: "\<not> paging_entry_present (pde_at s i)"
  shows "paging_ok (with_table s i)" and "paging_entry_present (pde_at (with_table s i) i)"
    and "get_PDE_idx x \<noteq> RECURSIVE_PDE_IDX \<Longrightarrow>
      walk (phys (with_table s i)) (cr3 s) x = walk (phys s) (cr3 s) x"
proof -
  let ?a = "fst (alloc_pageframe (pmm s) 4096)"
  note wt = with_table_phys [OF ok av i]
  have al: "page_aligned ?a" and ne: "?a \<noteq> cr3 s"
    and fresh: "\<And>i. i < 1024 \<Longrightarrow> paging_entry_present (pde_at s i) \<Longrightarrow>
        get_pageframe_address (pde_at s i) \<noteq> ?a"
    using av by (auto simp: table_available_def Let_def)
  have own: "\<And>j. j < 1024 \<Longrightarrow> j \<noteq> RECURSIVE_PDE_IDX \<Longrightarrow> paging_entry_present (pde_at s j) \<Longrightarrow>
      get_pageframe_address (pde_at s j) \<noteq> cr3 s"
    using ok by (auto simp: paging_ok_def)
  note frame_new = entry_frame [OF al kernel_pde_flags_small]
  show "paging_entry_present (pde_at (with_table s i) i)"
    using wt(1) [OF i(1)] kernel_pde_flags_present by simp
  show walk: "walk (phys (with_table s i)) (cr3 s) x = walk (phys s) (cr3 s) x"
    if x: "get_PDE_idx x \<noteq> RECURSIVE_PDE_IDX" for x
  proof (cases "get_PDE_idx x = i")
    case True
    then have "pde_at (with_table s i) (get_PDE_idx x) = ?a OR KERNEL_PDE_DEFAULT_FLAGS"
      using wt(1) [OF i(1)] by simp
    moreover from this have "phys (with_table s i) (pte_cell (with_table s i) x) = 0"
      using wt(3) [OF get_pte_idx_bound [of x]] by (simp add: pte_cell_def frame_new)
    ultimately show ?thesis
      using walk_alt [of "with_table s i" x] walk_alt [of s x] np True
      by (simp add: wt(4) paging_entry_present_def)
  next
    case False
    then have pde: "pde_at (with_table s i) (get_PDE_idx x) = pde_at s (get_PDE_idx x)"
      using wt(1) [OF get_PDE_idx_bound] by simp
    show ?thesis
    proof (rule walk_eqI [OF wt(4) pde])
      assume "paging_entry_present (pde_at s (get_PDE_idx x))"
      then show "phys (with_table s i) (pte_cell s x) = phys s (pte_cell s x)"
        unfolding pte_cell_def
        using wt(2) [OF frame_aligned fresh [OF get_PDE_idx_bound] own [OF get_PDE_idx_bound x]
            get_pte_idx_bound] by simp
    qed
  qed
  have "get_pageframe_address (pde_at (with_table s i) j) \<noteq> cr3 s"
    if "j < 1024" "j \<noteq> RECURSIVE_PDE_IDX" "paging_entry_present (pde_at (with_table s i) j)" for j
    using that own wt(1) [OF that(1)] ne frame_new by (cases "j = i") auto
  then show "paging_ok (with_table s i)"
    using ok walk [of "kernel_PGD s"] wt(1) [OF RECURSIVE_PDE_IDX_bound] i(2)
    by (simp add: paging_ok_def wt(4,5) translate_walk)
qed

text \<open>The state in which the page-table entry of \<open>va\<close> is written.\<close>

definition table_for :: "paging_state \<Rightarrow> u32 \<Rightarrow> paging_state" where
  "table_for s va =
     (if paging_entry_present (pde_at s (get_PDE_idx va)) then s
      else with_table s (get_PDE_idx va))"

definition mappable :: "paging_state \<Rightarrow> u32 \<Rightarrow> bool" where
  "mappable s va \<longleftrightarrow> get_PDE_idx va \<noteq> RECURSIVE_PDE_IDX \<and>
     (paging_entry_present (pde_at s (get_PDE_idx va)) \<or> table_available s)"

lemma table_for_ok:
  assumes ok: "paging_ok s" and "mappable s va"
  shows "paging_ok (table_for s va)"
    and "paging_entry_present (pde_at (table_for s va) (get_PDE_idx va))"
    and "cr3 (table_for s va) = cr3 s" and "kernel_PGD (table_for s va) = kernel_PGD s"
    and "get_PDE_idx x \<noteq> RECURSIVE_PDE_IDX \<Longrightarrow>
      walk (phys (table_for s va)) (cr3 s) x = walk (phys s) (cr3 s) x"
  using assms with_table_ok [OF ok _ get_PDE_idx_bound [of va]]
    with_table_phys(4,5) [OF ok _ get_PDE_idx_bound [of va]]
  by (auto simp: table_for_def mappable_def)

lemma map_pageframe_mapped:
  assumes ok: "paging_ok s" and m: "mappable s va"
  shows "map_pageframe s (kernel_PGD s) pa va flags =
    Some (True, mapped (table_for s va) pa va flags)"
proof (cases "paging_entry_present (pde_at s (get_PDE_idx va))")
  case True
  then show ?thesis
    using map_pageframe_present [OF ok] m by (simp add: mappable_def table_for_def)
next
  case False
  have "vread s (kernel_PGD s + 4 * get_PDE_idx va) = Some (pde_at s (get_PDE_idx va))"
    using pgd_translate [OF ok get_PDE_idx_bound [of va]]
    by (simp add: vread_def pde_at_def cr3_def)
  moreover have "alloc_page_table s (kernel_PGD s) (get_PDE_idx va) = Some (table_for s va)"
    using alloc_page_table_ok [OF ok _ get_PDE_idx_bound False] m False
    by (auto simp: mappable_def table_for_def)
  moreover note write_pte [OF table_for_ok(1) [OF ok m] _ table_for_ok(2) [OF ok m], of pa
      "convert_flags_to_arch_flags flags"]
  ultimately show ?thesis
    using ok False m table_for_ok(4) [OF ok m]
    by (simp add: map_pageframe_def mapped_def paging_ok_def mappable_def Let_def)
qed

subsection \<open>Mapping a range\<close>

lemma page_aligned_times: "page_aligned (4096 * w)"
proof -
  have "unat (4096 * w) mod 4096 = 0" by (simp add: unat_word_ariths mod_mod_cancel)
  then show ?thesis unfolding page_aligned_def by (metis unat_page_offset unat_eq_0)
qed

lemma page_aligned_add:
  assumes "page_aligned a"
  shows "page_aligned (a + k * PAGE_SIZE)"
proof -
  obtain x where "unat a = 4096 * x" "x \<le> 1048575"
    using assms unfolding page_aligned_unat by blast
  then have "a = 4096 * of_nat x"
    by (simp add: word_unat_eq_iff unat_word_ariths unat_of_nat)
  then have "a + k * PAGE_SIZE = 4096 * (of_nat x + k)" by (simp add: PAGE_SIZE_def algebra_simps)
  then show ?thesis by (simp only: page_aligned_times)
qed

text \<open>
  The pages of a range whose page tables exist, have an entry of their own each and do not
  hold the mapping of the directory itself.
\<close>

definition range_mappable :: "paging_state \<Rightarrow> u32 \<Rightarrow> u32 \<Rightarrow> bool" where
  "range_mappable s va num \<longleftrightarrow>
     (\<forall>k < num. get_PDE_idx (va + k * PAGE_SIZE) \<noteq> RECURSIVE_PDE_IDX \<and>
        paging_entry_present (pde_at s (get_PDE_idx (va + k * PAGE_SIZE))) \<and>
        pte_cell s (kernel_PGD s) \<noteq> pte_cell s (va + k * PAGE_SIZE)) \<and>
     (\<forall>j < num. \<forall>k < num. pte_cell s (va + j * PAGE_SIZE) = pte_cell s (va + k * PAGE_SIZE) \<longrightarrow> j = k)"

definition same_tables :: "paging_state \<Rightarrow> paging_state \<Rightarrow> bool" where
  "same_tables s s' \<longleftrightarrow> kernel_PGD s' = kernel_PGD s \<and> (\<forall>i < 1024. pde_at s' i = pde_at s i)"

lemma same_tables_cell: "same_tables s s' \<Longrightarrow> pte_cell s' x = pte_cell s x"
  using get_PDE_idx_bound [of x] by (simp add: same_tables_def pte_cell_def)

lemma range_mappable_cong: "same_tables s s' \<Longrightarrow> range_mappable s' va num = range_mappable s va num"
  using get_PDE_idx_bound
  by (simp add: range_mappable_def same_tables_cell) (simp add: same_tables_def)

lemma map_pages_mapped:
  assumes "paging_ok s" and "page_aligned pa" and "range_mappable s va num"
  shows "\<exists>s'. map_pages s (kernel_PGD s) pa va f num page = Some (True, s') \<and> paging_ok s' \<and>
    same_tables s s' \<and> pmm s' = pmm s \<and>
    (\<forall>k x. page \<le> k \<and> k < num \<and> paging_entry_present (pde_at s (get_PDE_idx x)) \<and>
      pte_cell s x = pte_cell s (va + k * PAGE_SIZE) \<longrightarrow>
      walk (phys s') (cr3 s) x =
        Some (leads_to (pde_at s (get_PDE_idx x)) (pa + k * PAGE_SIZE) f x)) \<and>
    (\<forall>x. (\<forall>k. page \<le> k \<longrightarrow> k < num \<longrightarrow> pte_cell s x \<noteq> pte_cell s (va + k * PAGE_SIZE)) \<longrightarrow>
      walk (phys s') (cr3 s) x = walk (phys s) (cr3 s) x)"
  using assms(1,3)
proof (induction "unat num - unat page" arbitrary: s page)
  case 0
  then have "\<not> page < num" by (simp add: word_less_nat_alt)
  moreover from this have "\<not> (page \<le> k \<and> k < num)" for k using order_le_less_trans by blast
  ultimately show ?case
    using 0 by (intro exI [of _ s]) (auto simp: map_pages.simps [of s] same_tables_def)
next
  case (Suc n)
  have lt: "page < num" using Suc.hyps(2) by (simp add: word_less_nat_alt)
  let ?va = "\<lambda>k. va + k * PAGE_SIZE"
  let ?s1 = "mapped s (pa + page * PAGE_SIZE) (?va page) f"
  have pg: "get_PDE_idx (?va page) \<noteq> RECURSIVE_PDE_IDX"
    "paging_entry_present (pde_at s (get_PDE_idx (?va page)))"
    "pte_cell s (kernel_PGD s) \<noteq> pte_cell s (?va page)"
    using Suc.prems(2) lt by (simp_all add: range_mappable_def)
  have inj: "pte_cell s (?va j) = pte_cell s (?va k) \<Longrightarrow> j < num \<Longrightarrow> k < num \<Longrightarrow> j = k" for j k
    using Suc.prems(2) by (simp add: range_mappable_def)
  note al = page_aligned_add [OF assms(2), of page]
  note step = mapped_walk [OF Suc.prems(1) pg(1,2) al, of f]
  have same1: "same_tables s ?s1"
    using mapped_pde [OF Suc.prems(1) pg(1,2)] by (simp add: same_tables_def)
  have cell: "pte_cell ?s1 x = pte_cell s x" for x by (rule same_tables_cell [OF same1])
  have ok1: "paging_ok ?s1" by (rule mapped_ok [OF Suc.prems(1) pg(1,2) al pg(3)])
  have "n = unat num - unat (page + 1)" using Suc.hyps(2) unat_inc [OF lt] by simp
  from Suc.hyps(1) [OF this ok1] obtain s' where
    run: "map_pages ?s1 (kernel_PGD ?s1) pa va f num (page + 1) = Some (True, s')" and
    ok': "paging_ok s'" "same_tables ?s1 s'" "pmm s' = pmm ?s1" and
    hit: "\<And>k x. page + 1 \<le> k \<Longrightarrow> k < num \<Longrightarrow> paging_entry_present (pde_at ?s1 (get_PDE_idx x)) \<Longrightarrow>
      pte_cell ?s1 x = pte_cell ?s1 (?va k) \<Longrightarrow>
      walk (phys s') (cr3 ?s1) x =
        Some (leads_to (pde_at ?s1 (get_PDE_idx x)) (pa + k * PAGE_SIZE) f x)" and
    miss: "\<And>x. (\<And>k. page + 1 \<le> k \<Longrightarrow> k < num \<Longrightarrow> pte_cell ?s1 x \<noteq> pte_cell ?s1 (?va k)) \<Longrightarrow>
      walk (phys s') (cr3 ?s1) x = walk (phys ?s1) (cr3 ?s1) x"
    using range_mappable_cong [OF same1] Suc.prems(2) by blast
  have eq: "map_pages s (kernel_PGD s) pa va f num page = Some (True, s')"
    using lt run map_pageframe_present [OF Suc.prems(1) pg(1,2), of "pa + page * PAGE_SIZE" f]
    by (subst map_pages.simps) simp
  have same: "same_tables s s'" using same1 ok'(2) by (simp add: same_tables_def)
  have pde1: "pde_at ?s1 (get_PDE_idx x) = pde_at s (get_PDE_idx x)" for x
    using same1 get_PDE_idx_bound by (simp add: same_tables_def)
  have next_iff: "page \<le> k \<longleftrightarrow> page + 1 \<le> k \<or> k = page" for k by (rule word_le_inc [OF lt])
  have notself: "\<not> page + 1 \<le> page" using lt by (simp add: word_le_nat_alt unat_inc)
  show ?case
  proof (intro exI [of _ s'] conjI allI impI)
    fix k x
    assume k: "page \<le> k \<and> k < num \<and> paging_entry_present (pde_at s (get_PDE_idx x)) \<and>
      pte_cell s x = pte_cell s (?va k)"
    show "walk (phys s') (cr3 s) x =
        Some (leads_to (pde_at s (get_PDE_idx x)) (pa + k * PAGE_SIZE) f x)"
    proof (cases "k = page")
      case True
      have "pte_cell s x \<noteq> pte_cell s (?va j)" if "page + 1 \<le> j" "j < num" for j
        using inj [of page j] that k True lt notself by auto
      then have "walk (phys s') (cr3 s) x = walk (phys ?s1) (cr3 s) x"
        using miss [of x] by (simp add: cell)
      then show ?thesis using step [of x] k True by simp
    next
      case False
      then show ?thesis using hit [of k x] k next_iff by (simp add: cell pde1)
    qed
  next
    fix x
    assume x: "\<forall>k. page \<le> k \<longrightarrow> k < num \<longrightarrow> pte_cell s x \<noteq> pte_cell s (?va k)"
    then have "walk (phys s') (cr3 s) x = walk (phys ?s1) (cr3 s) x"
      using miss [of x] next_iff by (simp add: cell)
    then show "walk (phys s') (cr3 s) x = walk (phys s) (cr3 s) x"
      using step [of x] x lt by simp
  qed (use eq ok' same in simp_all)
qed

end
