(* ===== verification/Early_Paging.thy ===== *)
theory Early_Paging
  imports Paging
begin

text \<open>
  \<^verbatim>\<open>src/boot/early_paging_setup.c\<close>: the page directory and the two page tables that
  the boot code fills before paging is on, so all accesses are to physical cells. The tables
  map the first 8 MiB of physical memory twice, at its own addresses and from 3 GiB on, and
  the directory maps itself through entry \<open>RECURSIVE_PDE_IDX\<close>.
\<close>

subsection \<open>Operations\<close>

text \<open>\<open>early_memset(p, 0, 4096)\<close> of a table, one 32-bit cell at a time.\<close>

definition early_memset :: "u32 \<Rightarrow> (u32 \<Rightarrow> u32) \<Rightarrow> u32 \<Rightarrow> u32" where
  "early_memset p ph = for_loop 0 1024 (\<lambda>i ph. ph(p + 4 * i := 0)) ph"

definition before_paging_create_pde :: "u32 \<Rightarrow> u32" where
  "before_paging_create_pde a = a OR KERNEL_PDE_DEFAULT_FLAGS"

definition before_paging_create_pte :: "u32 \<Rightarrow> u32" where
  "before_paging_create_pte a = a OR KERNEL_PTE_DEFAULT_FLAGS"

definition fill_page_table :: "u32 \<Rightarrow> u32 \<Rightarrow> (u32 \<Rightarrow> u32) \<Rightarrow> u32 \<Rightarrow> u32" where
  "fill_page_table p first ph =
     for_loop 0 1024 (\<lambda>page ph. ph(p + 4 * page :=
       before_paging_create_pte (first + page * PAGE_SIZE))) ph"

definition before_paging_init_page_tables ::
    "u32 \<Rightarrow> u32 \<Rightarrow> u32 \<Rightarrow> (u32 \<Rightarrow> u32) \<Rightarrow> u32 \<Rightarrow> u32" where
  "before_paging_init_page_tables kernel_PGD_p zero_to_four_MiB_PT four_to_eight_MiB_PT ph =
     (let pgd = phys_addy kernel_PGD_p;
          pt0 = phys_addy zero_to_four_MiB_PT;
          pt1 = phys_addy four_to_eight_MiB_PT;
          ph = early_memset pgd ph;
          ph = early_memset pt0 ph;
          ph = early_memset pt1 ph;
          ph = fill_page_table pt0 0 ph;
          ph = fill_page_table pt1 (PAGE_SIZE * 1024) ph;
          identity_map_start = 0;
          second_identity_map_page_start = identity_map_start + PAGE_SIZE * 1024;
          ph = ph(pgd + 4 * get_PDE_idx identity_map_start := before_paging_create_pde pt0);
          ph = ph(pgd + 4 * get_PDE_idx second_identity_map_page_start := before_paging_create_pde pt1);
          virtual_map_start = kernel_vm_offset;
          second_virtual_map_page_start = virtual_map_start + PAGE_SIZE * 1024;
          ph = ph(pgd + 4 * get_PDE_idx virtual_map_start := before_paging_create_pde pt0);
          ph = ph(pgd + 4 * get_PDE_idx second_virtual_map_page_start := before_paging_create_pde pt1)
      in ph(pgd + 4 * RECURSIVE_PDE_IDX := before_paging_create_pde pgd))"

subsection \<open>The tables after boot\<close>

lemma page_loop:
  "for_loop 0 1024 (\<lambda>i ph. ph(p + 4 * i := f i)) ph =
     (\<lambda>c. if \<exists>i < 1024. c = p + 4 * i then f ((c - p) div 4) else ph c)"
proof (rule for_loop_invariant [where P = "\<lambda>j ph'. ph' =
    (\<lambda>c. if \<exists>i < j. c = p + 4 * i then f ((c - p) div 4) else ph c)"])
  fix j t
  assume j: "j < 1024" and t: "t = (\<lambda>c. if \<exists>i < j. c = p + 4 * i then f ((c - p) div 4) else ph c)"
  have q: "4 * j div 4 = j"
    using j unat_mult_small [of 4 j]
    by (simp add: word_unat_eq_iff unat_div_distrib word_less_nat_alt)
  show "t(p + 4 * j := f j) =
      (\<lambda>c. if \<exists>i < j + 1. c = p + 4 * i then f ((c - p) div 4) else ph c)"
    using word_lt_inc [OF j] q by (auto simp: t fun_eq_iff order_le_less)
qed simp_all

lemma fill_page_table_cells:
  assumes "page_aligned p" and "page_aligned b" and "i < 1024"
  shows "fill_page_table p first ph (b + 4 * i) =
    (if b = p then before_paging_create_pte (first + i * PAGE_SIZE) else ph (b + 4 * i))"
proof -
  have q: "4 * i div 4 = i"
    using assms(3) unat_mult_small [of 4 i]
    by (simp add: word_unat_eq_iff unat_div_distrib word_less_nat_alt)
  show ?thesis
    unfolding fill_page_table_def page_loop
    using cell_eq_iff [OF assms(2,1,3)] assms(3) q by auto
qed

lemma early_memset_cells:
  assumes "page_aligned p" and "page_aligned b" and "i < 1024"
  shows "early_memset p ph (b + 4 * i) = (if b = p then 0 else ph (b + 4 * i))"
  unfolding early_memset_def page_loop
  using cell_eq_iff [OF assms(2,1,3)] assms(3) by auto

definition boot_store :: "u32 \<Rightarrow> u32 \<Rightarrow> u32 \<Rightarrow> (u32 \<Rightarrow> u32) \<Rightarrow> bool" where
  "boot_store pgd pt0 pt1 ph \<longleftrightarrow>
     (\<forall>i < 1024. ph (pt0 + 4 * i) = i * 4096 OR KERNEL_PTE_DEFAULT_FLAGS \<and>
       ph (pt1 + 4 * i) = (0x400000 + i * 4096) OR KERNEL_PTE_DEFAULT_FLAGS \<and>
       ph (pgd + 4 * i) =
         (if i \<in> {0, 768} then pt0 OR KERNEL_PDE_DEFAULT_FLAGS
          else if i \<in> {1, 769} then pt1 OR KERNEL_PDE_DEFAULT_FLAGS
          else if i = RECURSIVE_PDE_IDX then pgd OR KERNEL_PDE_DEFAULT_FLAGS else 0))"

text \<open>Three distinct page-aligned tables.\<close>

definition tables_apart :: "u32 \<Rightarrow> u32 \<Rightarrow> u32 \<Rightarrow> bool" where
  "tables_apart pgd pt0 pt1 \<longleftrightarrow> page_aligned pgd \<and> page_aligned pt0 \<and> page_aligned pt1 \<and>
     pgd \<noteq> pt0 \<and> pgd \<noteq> pt1 \<and> pt0 \<noteq> pt1"

lemma get_PDE_idx_consts:
  "get_PDE_idx 0 = 0" "get_PDE_idx 0x400000 = 1" "get_PDE_idx 0xC0000000 = 768"
  "get_PDE_idx 0xC0400000 = 769"
  by (simp_all add: get_PDE_idx_def PAGE_DIR_INDEX_BIT_INDEX_def)

lemma init_page_tables_store:
  assumes "tables_apart (phys_addy pgd) (phys_addy pt0) (phys_addy pt1)"
  shows "boot_store (phys_addy pgd) (phys_addy pt0) (phys_addy pt1)
    (before_paging_init_page_tables pgd pt0 pt1 ph)"
proof -
  let ?d = "phys_addy pgd" and ?t = "phys_addy pt0" and ?u = "phys_addy pt1"
  have al: "page_aligned ?d" "page_aligned ?t" "page_aligned ?u"
    and ne: "?d \<noteq> ?t" "?d \<noteq> ?u" "?t \<noteq> ?u"
    using assms by (auto simp: tables_apart_def)
  have eqs1: "?d + 4 * i = ?d + 4 * k \<longleftrightarrow> i = k" if "i < 1024" "k < 1024" for i k
    unfolding cell_eq_iff [OF al(1,1) that] by (simp only: simp_thms)
  have eqs2: "?t + 4 * i \<noteq> ?d + 4 * k" if "i < 1024" "k < 1024" for i k
    unfolding cell_eq_iff [OF al(2,1) that] using ne(1) [symmetric] by simp
  have eqs3: "?u + 4 * i \<noteq> ?d + 4 * k" if "i < 1024" "k < 1024" for i k
    unfolding cell_eq_iff [OF al(3,1) that] using ne(2) [symmetric] by simp
  have upd: "?d + 4 * i = ?d + 4 * 0 \<longleftrightarrow> i = 0" "?d + 4 * i = ?d + 4 * 1 \<longleftrightarrow> i = 1"
    "?d + 4 * i = ?d + 4 * 768 \<longleftrightarrow> i = 768" "?d + 4 * i = ?d + 4 * 769 \<longleftrightarrow> i = 769"
    "?d + 4 * i = ?d + 4 * RECURSIVE_PDE_IDX \<longleftrightarrow> i = RECURSIVE_PDE_IDX" if "i < 1024" for i
    using that by (intro eqs1; simp)+
  note upt = eqs2 [OF _ RECURSIVE_PDE_IDX_bound] eqs2 [of _ 0] eqs2 [of _ 1]
    eqs2 [of _ 768] eqs2 [of _ 769]
  note upu = eqs3 [OF _ RECURSIVE_PDE_IDX_bound] eqs3 [of _ 0] eqs3 [of _ 1]
    eqs3 [of _ 768] eqs3 [of _ 769]
  note cells = fill_page_table_cells early_memset_cells al ne ne [symmetric]
  show ?thesis
    unfolding boot_store_def
  proof (intro allI impI conjI)
    fix i :: u32 assume i: "i < 1024"
    have ks: "PAGE_SIZE * 1024 = 0x400000" "0 + 0x400000 = (0x400000 :: u32)"
      "0xC0000000 + 0x400000 = (0xC0400000 :: u32)" "kernel_vm_offset = 0xC0000000"
      by (simp_all add: PAGE_SIZE_def kernel_vm_offset_def)
    note defs = before_paging_init_page_tables_def Let_def ks get_PDE_idx_consts
    show "before_paging_init_page_tables pgd pt0 pt1 ph (?t + 4 * i) =
        i * 4096 OR KERNEL_PTE_DEFAULT_FLAGS"
      unfolding defs fun_upd_apply
      using upt [OF i] by (simp add: cells i before_paging_create_pte_def PAGE_SIZE_def)
    show "before_paging_init_page_tables pgd pt0 pt1 ph (?u + 4 * i) =
        (0x400000 + i * 4096) OR KERNEL_PTE_DEFAULT_FLAGS"
      unfolding defs fun_upd_apply
      using upu [OF i] by (simp add: cells i before_paging_create_pte_def PAGE_SIZE_def)
    show "before_paging_init_page_tables pgd pt0 pt1 ph (?d + 4 * i) =
         (if i \<in> {0, 768} then ?t OR KERNEL_PDE_DEFAULT_FLAGS
          else if i \<in> {1, 769} then ?u OR KERNEL_PDE_DEFAULT_FLAGS
          else if i = RECURSIVE_PDE_IDX then ?d OR KERNEL_PDE_DEFAULT_FLAGS else 0)"
      unfolding defs fun_upd_apply upd [OF i]
      by (simp add: cells i before_paging_create_pde_def) (simp add: RECURSIVE_PDE_IDX_def)
  qed
qed

subsection \<open>What the boot tables map\<close>

lemma pte_flags_small: "KERNEL_PTE_DEFAULT_FLAGS AND NOT 0xfff = 0"
  by (simp add: flag_defs)

lemma pte_flags_present: "paging_entry_present (a OR KERNEL_PTE_DEFAULT_FLAGS)"
proof -
  have "bit (a OR KERNEL_PTE_DEFAULT_FLAGS) 0" by (simp add: flag_defs bit_or_iff)
  then show ?thesis
    by (simp add: paging_entry_present_def bit_0 and_one_eq odd_iff_mod_2_eq_one)
qed

text \<open>An address put together from its fields.\<close>

lemma address_fields:
  "unat va = unat (get_PDE_idx va) * 0x400000 + unat (get_pte_idx va) * 4096 + unat (va AND 0xfff)"
proof -
  have "n = n div 4096 div 1024 * 0x400000 + n div 4096 mod 1024 * 4096 + n mod 4096" for n :: nat
  proof -
    have "n div 4096 = n div 4096 div 1024 * 1024 + n div 4096 mod 1024"
      by (rule div_mult_mod_eq [symmetric])
    moreover have "n = n div 4096 * 4096 + n mod 4096" by (rule div_mult_mod_eq [symmetric])
    ultimately show ?thesis by linarith
  qed
  then show ?thesis by (simp add: unat_get_PDE_idx unat_get_pte_idx unat_page_offset)
qed

lemma first_page_frames:
  assumes "i < 1024"
  shows "page_aligned (i * 4096)" and "unat (i * 4096) = unat i * 4096"
    and "page_aligned (0x400000 + i * 4096)" and "unat (0x400000 + i * 4096) = 0x400000 + unat i * 4096"
proof -
  have i: "unat i < 1024" using assms by (simp add: word_less_nat_alt)
  then show u: "unat (i * 4096) = unat i * 4096" using unat_mult_small [of i 4096] by simp
  then show v: "unat (0x400000 + i * 4096) = 0x400000 + unat i * 4096"
    using i by (subst unat_add_small) simp_all
  show "page_aligned (i * 4096)"
    unfolding page_aligned_unat using i u by (intro exI [of _ "unat i"]) simp
  show "page_aligned (0x400000 + i * 4096)"
    unfolding page_aligned_unat using i v by (intro exI [of _ "1024 + unat i"]) simp
qed

lemma boot_walk:
  assumes boot: "boot_store pgd pt0 pt1 ph" and ap: "tables_apart pgd pt0 pt1"
  shows "get_PDE_idx va \<in> {0, 768} \<Longrightarrow>
      translate ph pgd va = Some (get_pte_idx va * 4096 + (va AND 0xfff))"
    and "get_PDE_idx va \<in> {1, 769} \<Longrightarrow>
      translate ph pgd va = Some (0x400000 + get_pte_idx va * 4096 + (va AND 0xfff))"
    and "get_PDE_idx va \<notin> {0, 1, 768, 769, RECURSIVE_PDE_IDX} \<Longrightarrow> translate ph pgd va = None"
proof -
  have al: "page_aligned pt0" "page_aligned pt1" using ap by (simp_all add: tables_apart_def)
  note i = get_PDE_idx_bound [of va] and j = get_pte_idx_bound [of va]
  note d = boot [unfolded boot_store_def, rule_format, OF i]
    and t = boot [unfolded boot_store_def, rule_format, OF j]
  note fr = entry_frame [OF al(1) kernel_pde_flags_small] entry_frame [OF al(2) kernel_pde_flags_small]
    entry_frame [OF first_page_frames(1) [OF j] pte_flags_small]
    entry_frame [OF first_page_frames(3) [OF j] pte_flags_small]
  show "get_PDE_idx va \<in> {0, 768} \<Longrightarrow>
      translate ph pgd va = Some (get_pte_idx va * 4096 + (va AND 0xfff))"
    using d t by (simp add: translate_def kernel_pde_flags_present pte_flags_present fr)
  show "get_PDE_idx va \<in> {1, 769} \<Longrightarrow>
      translate ph pgd va = Some (0x400000 + get_pte_idx va * 4096 + (va AND 0xfff))"
    using d t by (auto simp add: translate_def kernel_pde_flags_present pte_flags_present fr)
  show "get_PDE_idx va \<notin> {0, 1, 768, 769, RECURSIVE_PDE_IDX} \<Longrightarrow> translate ph pgd va = None"
    using d by (simp add: translate_def paging_entry_present_def)
qed

lemma boot_translate:
  assumes boot: "boot_store pgd pt0 pt1 ph" and ap: "tables_apart pgd pt0 pt1"
    and "get_PDE_idx va \<noteq> RECURSIVE_PDE_IDX"
  shows "translate ph pgd va =
    (if va < 0x800000 then Some va
     else if 0xC0000000 \<le> va \<and> va < 0xC0800000 then Some (phys_addy va) else None)"
proof -
  let ?i = "unat (get_PDE_idx va)" and ?j = "unat (get_pte_idx va)" and ?o = "unat (va AND 0xfff)"
  have j: "?j < 1024" by (simp add: unat_get_pte_idx)
  have o: "?o < 4096" by (simp add: unat_page_offset)
  note va = address_fields [of va]
  have sums: "unat (get_pte_idx va * 4096 + (va AND 0xfff)) = ?j * 4096 + ?o"
    "unat (0x400000 + get_pte_idx va * 4096 + (va AND 0xfff)) = 0x400000 + ?j * 4096 + ?o"
    using j o first_page_frames(2,4) [OF get_pte_idx_bound [of va]] by (subst unat_add_small; simp)+
  have idx: "get_PDE_idx va = c \<longleftrightarrow> ?i = unat c" for c by (rule word_unat_eq_iff)
  have low: "va < 0x800000 \<longleftrightarrow> ?i = 0 \<or> ?i = 1"
    and high: "0xC0000000 \<le> va \<and> va < 0xC0800000 \<longleftrightarrow> ?i = 768 \<or> ?i = 769"
    unfolding word_less_nat_alt word_le_nat_alt va using j o by auto
  have off: "unat (phys_addy va) = unat va - 0xC0000000" if "0xC0000000 \<le> va"
    unfolding phys_addy_def kernel_vm_offset_def using unat_sub_le [OF that] by simp
  show ?thesis
  proof (cases "?i \<in> {0, 1, 768, 769}")
    case False
    then show ?thesis
      using boot_walk(3) [OF boot ap, of va] assms(3) low high by (simp add: idx)
  next
    case True
    then consider "?i = 0" | "?i = 1" | "?i = 768" | "?i = 769" by auto
    then show ?thesis
    proof cases
      case 1
      then show ?thesis using boot_walk(1) [OF boot ap, of va] sums low va by (simp add: idx word_unat_eq_iff)
    next
      case 2
      then show ?thesis using boot_walk(2) [OF boot ap, of va] sums low va by (simp add: idx word_unat_eq_iff)
    next
      case 3
      then show ?thesis
        using boot_walk(1) [OF boot ap, of va] sums low high off va by (simp add: idx word_unat_eq_iff)
    next
      case 4
      then show ?thesis
        using boot_walk(2) [OF boot ap, of va] sums low high off va by (simp add: idx word_unat_eq_iff)
    qed
  qed
qed

definition boot_paging :: "pmm_state \<Rightarrow> u32 \<Rightarrow> u32 \<Rightarrow> u32 \<Rightarrow> (u32 \<Rightarrow> u32) \<Rightarrow> paging_state" where
  "boot_paging p pgd pt0 pt1 ph =
     \<lparr>pmm = p, phys = before_paging_init_page_tables pgd pt0 pt1 ph, kernel_PGD = pgd\<rparr>"

lemma boot_paging_store:
  assumes "tables_apart (phys_addy pgd) (phys_addy pt0) (phys_addy pt1)"
  shows "boot_store (cr3 (boot_paging p pgd pt0 pt1 ph)) (phys_addy pt0) (phys_addy pt1)
    (phys (boot_paging p pgd pt0 pt1 ph))"
  using init_page_tables_store [OF assms] by (simp add: boot_paging_def cr3_def)

lemma boot_pde_frame:
  assumes ap: "tables_apart (phys_addy pgd) (phys_addy pt0) (phys_addy pt1)" and "i < 1024"
    and "paging_entry_present (pde_at (boot_paging p pgd pt0 pt1 ph) i)"
  shows "get_pageframe_address (pde_at (boot_paging p pgd pt0 pt1 ph) i) =
    (if i \<in> {0, 768} then phys_addy pt0 else if i \<in> {1, 769} then phys_addy pt1 else phys_addy pgd)"
  using boot_paging_store [OF ap, of p ph, unfolded boot_store_def, rule_format, OF assms(2)] assms(3) ap
    entry_frame [OF _ kernel_pde_flags_small]
  by (auto simp: pde_at_def boot_paging_def cr3_def tables_apart_def paging_entry_present_def
      split: if_splits)

lemma boot_paging_ok:
  assumes ap: "tables_apart (phys_addy pgd) (phys_addy pt0) (phys_addy pt1)"
    and "page_aligned pgd" and "0xC0000000 \<le> pgd" and "pgd < 0xC0800000"
  shows "paging_ok (boot_paging p pgd pt0 pt1 ph)"
proof -
  let ?s = "boot_paging p pgd pt0 pt1 ph"
  have pgd: "kernel_PGD ?s = pgd" "cr3 ?s = phys_addy pgd" by (simp_all add: boot_paging_def cr3_def)
  note boot = boot_paging_store [OF ap, of p ph]
  have "unat pgd div 4096 div 1024 \<in> {768, 769}"
    using assms(3,4) by (auto simp: word_le_nat_alt word_less_nat_alt)
  then have "get_PDE_idx pgd \<noteq> RECURSIVE_PDE_IDX"
    by (auto simp: word_unat_eq_iff unat_get_PDE_idx RECURSIVE_PDE_IDX_def)
  moreover from this have "translate (phys ?s) (phys_addy pgd) pgd = Some (phys_addy pgd)"
    using boot_translate [OF boot, of pgd] ap assms(3,4) unfolding pgd
    by (simp add: word_le_nat_alt word_less_nat_alt)
  moreover have "pde_at ?s RECURSIVE_PDE_IDX = phys_addy pgd OR KERNEL_PDE_DEFAULT_FLAGS"
    using boot [unfolded boot_store_def, rule_format, OF RECURSIVE_PDE_IDX_bound] unfolding pgd
    by (simp add: pde_at_def pgd) (simp add: RECURSIVE_PDE_IDX_def)
  moreover have "get_pageframe_address (pde_at ?s i) \<noteq> phys_addy pgd"
    if "i < 1024" "i \<noteq> RECURSIVE_PDE_IDX" "paging_entry_present (pde_at ?s i)" for i
  proof -
    have "i \<in> {0, 1, 768, 769}"
      using boot [unfolded boot_store_def, rule_format, OF that(1)] that(2,3) unfolding pgd
      by (auto simp: pde_at_def pgd paging_entry_present_def split: if_splits)
    then show ?thesis
      using boot_pde_frame [OF ap that(1,3)] ap by (auto simp: tables_apart_def split: if_splits)
  qed
  moreover have "pgd \<noteq> NULL" using assms(3) by auto
  ultimately show ?thesis
    using assms(2) ap entry_frame [OF _ kernel_pde_flags_small, of "phys_addy pgd"]
    by (simp add: paging_ok_def pgd kernel_pde_flags_present tables_apart_def)
qed

subsection \<open>Properties\<close>

text \<open>
  C6. After the boot code has filled the three tables, every address below 8 MiB is mapped to
  itself, every address of the 8 MiB from 3 GiB on to the same address less 3 GiB, and no
  other address outside the recursive window is mapped; the directory then satisfies the
  invariant that the paging code relies on.
\<close>

theorem boot_tables_map:
  assumes "tables_apart (phys_addy pgd) (phys_addy pt0) (phys_addy pt1)"
    and "page_aligned pgd" and "0xC0000000 \<le> pgd" and "pgd < 0xC0800000"
  shows "paging_ok (boot_paging p pgd pt0 pt1 ph) \<and>
    (\<forall>va. get_PDE_idx va \<noteq> RECURSIVE_PDE_IDX \<longrightarrow>
      translate (before_paging_init_page_tables pgd pt0 pt1 ph) (phys_addy pgd) va =
        (if va < 0x800000 then Some va
         else if 0xC0000000 \<le> va \<and> va < 0xC0800000 then Some (phys_addy va) else None))"
proof -
  have "boot_store (phys_addy pgd) (phys_addy pt0) (phys_addy pt1)
      (before_paging_init_page_tables pgd pt0 pt1 ph)"
    using assms(1) by (rule init_page_tables_store)
  note walk = boot_translate [OF this assms(1)]
  show ?thesis using boot_paging_ok [OF assms] walk by blast
qed

theorem boot_tables_map_witness:
  "translate (before_paging_init_page_tables 0xC0200000 0xC0201000 0xC0202000 (\<lambda>_. 7))
     0x200000 0xC0345678 = Some 0x345678 \<and>
   translate (before_paging_init_page_tables 0xC0200000 0xC0201000 0xC0202000 (\<lambda>_. 7))
     0x200000 0xD0000000 = None"
proof -
  have [simp]: "phys_addy 0xC0200000 = 0x200000" "phys_addy 0xC0201000 = 0x201000"
    "phys_addy 0xC0202000 = 0x202000" "phys_addy 0xC0345678 = 0x345678"
    by (simp_all add: phys_addy_def kernel_vm_offset_def)
  have "tables_apart (phys_addy 0xC0200000) (phys_addy 0xC0201000) (phys_addy 0xC0202000)"
    by (simp add: tables_apart_def page_aligned_def)
  moreover have "page_aligned 0xC0200000" by (simp add: page_aligned_def)
  moreover have "get_PDE_idx 0xC0345678 \<noteq> RECURSIVE_PDE_IDX" "get_PDE_idx 0xD0000000 \<noteq> RECURSIVE_PDE_IDX"
    by (simp_all add: addr_defs)
  ultimately show ?thesis
    using boot_tables_map [of "0xC0200000" "0xC0201000" "0xC0202000" undefined "\<lambda>_. 7"] by simp
qed

text \<open>A machine after boot, whose frame allocator still has a frame below 8 MiB.\<close>

definition ex_paging :: paging_state where
  "ex_paging = boot_paging ex_pmm 0xC0200000 0xC0201000 0xC0202000 (\<lambda>_. 7)"

lemma ex_paging_facts:
  "tables_apart 0x200000 0x201000 0x202000" "paging_ok ex_paging" "cr3 ex_paging = 0x200000"
  "kernel_PGD ex_paging = 0xC0200000"
  "boot_store 0x200000 0x201000 0x202000 (phys ex_paging)"
proof -
  have *: "phys_addy 0xC0200000 = 0x200000" "phys_addy 0xC0201000 = 0x201000"
    "phys_addy 0xC0202000 = 0x202000"
    by (simp_all add: phys_addy_def kernel_vm_offset_def)
  show ap: "tables_apart 0x200000 0x201000 0x202000"
    by (simp add: tables_apart_def page_aligned_def)
  show "kernel_PGD ex_paging = 0xC0200000" "cr3 ex_paging = 0x200000"
    by (simp_all add: ex_paging_def boot_paging_def cr3_def *)
  show "paging_ok ex_paging"
    unfolding ex_paging_def
    by (rule boot_paging_ok) (use ap in \<open>simp_all add: * page_aligned_def\<close>)
  show "boot_store 0x200000 0x201000 0x202000 (phys ex_paging)"
    using init_page_tables_store [of "0xC0200000" "0xC0201000" "0xC0202000"] ap
    by (simp add: * ex_paging_def boot_paging_def)
qed

lemma ex_paging_pde:
  assumes "i < 1024"
  shows "pde_at ex_paging i = (if i \<in> {0, 768} then 0x201000 OR KERNEL_PDE_DEFAULT_FLAGS
    else if i \<in> {1, 769} then 0x202000 OR KERNEL_PDE_DEFAULT_FLAGS
    else if i = RECURSIVE_PDE_IDX then 0x200000 OR KERNEL_PDE_DEFAULT_FLAGS else 0)"
  using ex_paging_facts(5) [unfolded boot_store_def, rule_format, OF assms]
  by (simp add: pde_at_def ex_paging_facts(3))

lemma ex_paging_table: "fst (alloc_pageframe (pmm ex_paging) 4096) = 0x1000"
proof -
  have "alloc_pageframe ex_pmm 4096 = (0x1000, snd (alloc_pageframe ex_pmm 4096))"
    by (simp add: pmm_eval)
  then show ?thesis
    unfolding ex_paging_def boot_paging_def by (metis fst_conv paging_state.select_convs(1))
qed

lemma ex_paging_mappable: "mappable ex_paging 0xD0000000"
proof -
  have "translate (phys ex_paging) 0x200000 0x1000 = Some 0x1000"
    using boot_translate [OF ex_paging_facts(5,1), of "0x1000"] by (simp add: addr_defs)
  moreover have "get_pageframe_address (pde_at ex_paging i) \<noteq> 0x1000"
    if "i < 1024" "paging_entry_present (pde_at ex_paging i)" for i
    using boot_pde_frame [of "0xC0200000" "0xC0201000" "0xC0202000" i ex_pmm "\<lambda>_. 7"] that
      ex_paging_facts(1)
    unfolding ex_paging_def by (simp add: phys_addy_def kernel_vm_offset_def split: if_splits)
  ultimately have "table_available ex_paging"
    by (simp add: table_available_def ex_paging_table ex_paging_facts(3) page_aligned_def)
  then show ?thesis by (simp add: mappable_def addr_defs)
qed

text \<open>The addresses of one page, and those that one entry of a page table maps.\<close>

definition same_page :: "u32 \<Rightarrow> u32 \<Rightarrow> bool" where
  "same_page x va \<longleftrightarrow> x AND NOT 0xfff = va AND NOT 0xfff"

definition shares_entry :: "paging_state \<Rightarrow> u32 \<Rightarrow> u32 \<Rightarrow> bool" where
  "shares_entry s x va \<longleftrightarrow>
     paging_entry_present (pde_at s (get_PDE_idx x)) \<and> pte_cell s x = pte_cell s va"

lemma same_page_fields:
  assumes "same_page x va"
  shows "get_PDE_idx x = get_PDE_idx va" and "get_pte_idx x = get_pte_idx va"
proof -
  have page: "drop_bit 12 w = drop_bit 12 (w AND NOT 0xfff)" for w :: u32
    unfolding mask_12 by (rule bit_word_eqI) (auto simp: bit_simps dest: bit_imp_le_length)
  have pfn: "drop_bit 12 x = drop_bit 12 va"
    using assms unfolding same_page_def by (metis page)
  have "drop_bit 22 x = drop_bit 22 va" using arg_cong [OF pfn, of "drop_bit 10"] by simp
  then show "get_PDE_idx x = get_PDE_idx va" "get_pte_idx x = get_pte_idx va"
    by (simp_all add: pfn get_pte_idx_def get_PDE_idx_def PAGE_TAB_INDEX_BIT_INDEX_def
        PAGE_DIR_INDEX_BIT_INDEX_def)
qed

lemma same_page_shares:
  "same_page x va \<Longrightarrow> paging_entry_present (pde_at s (get_PDE_idx va)) \<Longrightarrow> shares_entry s x va"
  using same_page_fields [of x va] by (simp add: shares_entry_def pte_cell_def)

text \<open>The physical cells and the frames that mapping a page uses up.\<close>

lemma mapped_frame:
  fixes pa flags :: u32
  assumes ok: "paging_ok s" and m: "mappable s va"
  defines "s' \<equiv> mapped (table_for s va) pa va flags"
  shows "paging_entry_present (pde_at s (get_PDE_idx va)) \<Longrightarrow>
      pmm s' = pmm s \<and> (\<forall>c. c \<noteq> pte_cell s va \<longrightarrow> phys s' c = phys s c)"
    and "\<not> paging_entry_present (pde_at s (get_PDE_idx va)) \<Longrightarrow>
      alloc_pageframe (pmm s) PAGE_SIZE = (a, p') \<Longrightarrow>
      pmm s' = p' \<and> pde_at s' (get_PDE_idx va) = a OR KERNEL_PDE_DEFAULT_FLAGS \<and>
      (\<forall>c. c \<noteq> cr3 s + 4 * get_PDE_idx va \<longrightarrow> (\<nexists>i. i < 1024 \<and> c = a + 4 * i) \<longrightarrow>
        phys s' c = phys s c)"
proof -
  let ?i = "get_PDE_idx va"
  show "pmm s' = pmm s \<and> (\<forall>c. c \<noteq> pte_cell s va \<longrightarrow> phys s' c = phys s c)"
    if "paging_entry_present (pde_at s ?i)"
    using that by (simp add: s'_def table_for_def mapped_def)
  assume np: "\<not> paging_entry_present (pde_at s ?i)"
    and al: "alloc_pageframe (pmm s) PAGE_SIZE = (a, p')"
  have nr: "?i \<noteq> RECURSIVE_PDE_IDX" and av: "table_available s"
    using m np by (auto simp: mappable_def)
  have t: "table_for s va = with_table s ?i" using np by (simp add: table_for_def)
  note wt = with_table_phys [OF ok av get_PDE_idx_bound nr]
  have fst: "fst (alloc_pageframe (pmm s) 4096) = a" using al by (simp add: PAGE_SIZE_def)
  have pde: "pde_at (with_table s ?i) ?i = a OR KERNEL_PDE_DEFAULT_FLAGS"
    using wt(1) [OF get_PDE_idx_bound [of va]] fst by simp
  have "page_aligned a" using av fst by (simp add: table_available_def Let_def)
  then have cell: "pte_cell (with_table s ?i) va = a + 4 * get_pte_idx va"
    using pde by (simp add: pte_cell_def entry_frame [OF _ kernel_pde_flags_small])
  have "pde_at s' ?i = pde_at (with_table s ?i) ?i"
    unfolding s'_def t
    using mapped_pde [OF table_for_ok(1) [OF ok m] nr table_for_ok(2) [OF ok m] get_PDE_idx_bound] t
    by simp
  moreover have "pmm s' = p'" using al by (simp add: s'_def t with_table_def PAGE_SIZE_def)
  moreover have "phys s' c = phys s c"
    if "c \<noteq> cr3 s + 4 * ?i" "\<nexists>i. i < 1024 \<and> c = a + 4 * i" for c
  proof -
    have "c \<noteq> a + 4 * get_pte_idx va" using that(2) get_pte_idx_bound by blast
    then show ?thesis
      using that al cell by (auto simp: s'_def t mapped_def with_table_def zeroed_def PAGE_SIZE_def)
  qed
  ultimately show "pmm s' = p' \<and> pde_at s' ?i = a OR KERNEL_PDE_DEFAULT_FLAGS \<and>
      (\<forall>c. c \<noteq> cr3 s + 4 * ?i \<longrightarrow> (\<nexists>i. i < 1024 \<and> c = a + 4 * i) \<longrightarrow> phys s' c = phys s c)"
    using pde by simp
qed

text \<open>
  C5. Mapping the page of \<open>va\<close> succeeds when \<open>va\<close> is outside the recursive window, the frame is
  page-aligned and, if \<open>va\<close> has no page table yet, the frame allocator hands out a frame for one
  that is identity-mapped and not a paging structure. Then the processor walks every address of the
  page into the frame, at the same offset, and so does it for every other address that shares the
  page-table entry; a write is let through exactly when the directory entry and the flags ask for it,
  and likewise an access from user mode. Every address outside the window with another entry keeps
  its walk, rights included. Of physical memory only the entry itself changes and, when a table had
  to be added, the directory entry and the cells of that table; the frame allocator is called only
  in that case. The invariant survives unless the page is the directory's own.
\<close>

theorem map_pageframe_correct:
  assumes "paging_ok s" and "mappable s va" and "page_aligned pa"
  shows "\<exists>s'. map_pageframe s (kernel_PGD s) pa va flags = Some (True, s') \<and>
    cr3 s' = cr3 s \<and> kernel_PGD s' = kernel_PGD s \<and>
    (pte_cell s' (kernel_PGD s) \<noteq> pte_cell s' va \<longrightarrow> paging_ok s') \<and>
    (\<forall>x. same_page x va \<longrightarrow>
      walk (phys s') (cr3 s) x = Some (leads_to (pde_at s' (get_PDE_idx va)) pa flags x)) \<and>
    (\<forall>x. shares_entry s' x va \<longrightarrow>
      walk (phys s') (cr3 s) x = Some (leads_to (pde_at s' (get_PDE_idx x)) pa flags x)) \<and>
    (\<forall>x. get_PDE_idx x \<noteq> RECURSIVE_PDE_IDX \<longrightarrow> \<not> shares_entry s' x va \<longrightarrow>
      walk (phys s') (cr3 s) x = walk (phys s) (cr3 s) x) \<and>
    (if paging_entry_present (pde_at s (get_PDE_idx va))
     then pmm s' = pmm s \<and> (\<forall>c. c \<noteq> pte_cell s va \<longrightarrow> phys s' c = phys s c)
     else (let (a, p') = alloc_pageframe (pmm s) PAGE_SIZE in
       pmm s' = p' \<and> pde_at s' (get_PDE_idx va) = a OR KERNEL_PDE_DEFAULT_FLAGS \<and>
       (\<forall>c. c \<noteq> cr3 s + 4 * get_PDE_idx va \<longrightarrow> (\<nexists>i. i < 1024 \<and> c = a + 4 * i) \<longrightarrow>
         phys s' c = phys s c)))"
proof -
  let ?t = "table_for s va" and ?s' = "mapped (table_for s va) pa va flags"
  note t = table_for_ok [OF assms(1,2)]
  have nr: "get_PDE_idx va \<noteq> RECURSIVE_PDE_IDX" using assms(2) by (simp add: mappable_def)
  note m = mapped_walk [OF t(1) nr t(2) assms(3), of flags]
  have pde: "pde_at ?s' (get_PDE_idx x) = pde_at ?t (get_PDE_idx x)" for x
    by (rule mapped_pde [OF t(1) nr t(2) get_PDE_idx_bound])
  then have cell: "pte_cell ?s' x = pte_cell ?t x" for x by (simp add: pte_cell_def)
  have ok: "paging_ok ?s'" if "pte_cell ?s' (kernel_PGD s) \<noteq> pte_cell ?s' va"
    using mapped_ok [OF t(1) nr t(2) assms(3)] that by (simp add: t(4) cell)
  have hit: "walk (phys ?s') (cr3 s) x = Some (leads_to (pde_at ?s' (get_PDE_idx x)) pa flags x)"
    if "shares_entry ?s' x va" for x
    using that m [of x] by (simp add: shares_entry_def cell pde t(3))
  have miss: "walk (phys ?s') (cr3 s) x = walk (phys s) (cr3 s) x"
    if "get_PDE_idx x \<noteq> RECURSIVE_PDE_IDX" "\<not> shares_entry ?s' x va" for x
    using that m [of x] t(5) [of x] by (auto simp add: shares_entry_def cell pde t(3))
  have page: "shares_entry ?s' x va" if "same_page x va" for x
    using that t(2) by (intro same_page_shares) (simp_all add: pde)
  have upd: "if paging_entry_present (pde_at s (get_PDE_idx va))
     then pmm ?s' = pmm s \<and> (\<forall>c. c \<noteq> pte_cell s va \<longrightarrow> phys ?s' c = phys s c)
     else (let (a, p') = alloc_pageframe (pmm s) PAGE_SIZE in
       pmm ?s' = p' \<and> pde_at ?s' (get_PDE_idx va) = a OR KERNEL_PDE_DEFAULT_FLAGS \<and>
       (\<forall>c. c \<noteq> cr3 s + 4 * get_PDE_idx va \<longrightarrow> (\<nexists>i. i < 1024 \<and> c = a + 4 * i) \<longrightarrow>
         phys ?s' c = phys s c))"
    using mapped_frame [OF assms(1,2), where pa = pa and flags = flags]
    by (simp only: Let_def split: prod.split if_split) blast
  show ?thesis
    using map_pageframe_mapped [OF assms(1,2)] ok hit miss hit [OF page] same_page_fields(1) [of _ va]
      upd t(3,4) by (intro exI [of _ ?s']) auto
qed

theorem map_pageframe_correct_witness:
  "\<exists>s'. map_pageframe ex_paging 0xC0200000 0x5000 0xD0000000 VM_AREA_WRITE = Some (True, s') \<and>
     walk (phys s') 0x200000 0xD0000ABC = Some (0x5ABC, True, False) \<and>
     phys s' 0x201004 = phys ex_paging 0x201004"
proof -
  have idx: "get_PDE_idx 0xD0000000 = 832" by (simp add: addr_defs)
  have new: "\<not> paging_entry_present (pde_at ex_paging (get_PDE_idx 0xD0000000))"
    unfolding idx by (simp add: ex_paging_pde paging_entry_present_def RECURSIVE_PDE_IDX_def)
  obtain p' where al: "alloc_pageframe (pmm ex_paging) PAGE_SIZE = (0x1000, p')"
    using ex_paging_table unfolding PAGE_SIZE_def by (metis prod.collapse)
  have pg: "page_aligned 0x5000" "same_page 0xD0000ABC 0xD0000000"
    by (simp_all add: page_aligned_def same_page_def)
  have "unat (0x1000 + 4 * i) div 4096 = 1" if "i < 1024" for i :: u32
    using cell_fields(1) [OF _ that, of "0x1000"] by (simp add: page_aligned_def)
  moreover have "unat (0x201004 :: u32) div 4096 \<noteq> 1" by simp
  ultimately have cell: "\<nexists>i. i < 1024 \<and> 0x201004 = (0x1000 :: u32) + 4 * i" by metis
  from map_pageframe_correct [OF ex_paging_facts(2) ex_paging_mappable pg(1), of VM_AREA_WRITE]
  obtain s' where s': "map_pageframe ex_paging 0xC0200000 0x5000 0xD0000000 VM_AREA_WRITE = Some (True, s')"
    "\<forall>x. same_page x 0xD0000000 \<longrightarrow> walk (phys s') 0x200000 x =
      Some (leads_to (pde_at s' (get_PDE_idx 0xD0000000)) 0x5000 VM_AREA_WRITE x)"
    "pde_at s' (get_PDE_idx 0xD0000000) = 0x1000 OR KERNEL_PDE_DEFAULT_FLAGS"
    "\<forall>c. c \<noteq> 0x200000 + 4 * get_PDE_idx 0xD0000000 \<longrightarrow> (\<nexists>i. i < 1024 \<and> c = 0x1000 + 4 * i) \<longrightarrow>
      phys s' c = phys ex_paging c"
    unfolding if_not_P [OF new] al ex_paging_facts Let_def prod.case by (elim exE conjE) simp
  then show ?thesis
    using pg(2) cell by (intro exI [of _ s']) (simp add: idx leads_to_def flag_defs)
qed

text \<open>
  C9. Through the recursive window, \<open>get_pte\<close> yields a pointer at which the processor finds
  exactly the page-table entry it would itself read for the address, and \<open>free_mapping\<close> clears that
  one cell of physical memory and nothing else. So the walk fails from then on for every address that
  shares the entry, which is the page and each page mapped through the same table at the same place
  (the low 8 MiB and the 8 MiB from 3 GiB on after boot), and every other address keeps its walk. This
  is the state of the tables; the code does not invalidate the translation lookaside buffer.
\<close>

theorem free_mapping_correct:
  assumes "paging_ok s" and "get_PDE_idx va \<noteq> RECURSIVE_PDE_IDX"
    and "paging_entry_present (pde_at s (get_PDE_idx va))"
  shows "translate (phys s) (cr3 s) (get_pte s (kernel_PGD s) va) = Some (pte_cell s va) \<and>
    (let s' = s\<lparr>phys := (phys s)(pte_cell s va := 0)\<rparr> in
      free_mapping s (kernel_PGD s) va = Some (True, s') \<and>
      (\<forall>x. walk (phys s') (cr3 s') x =
        (if shares_entry s x va then None else walk (phys s) (cr3 s) x)))"
proof -
  let ?s' = "s\<lparr>phys := (phys s)(pte_cell s va := 0)\<rparr>"
  note nc = pte_cell_not_pde [OF assms]
  have pde: "pde_at ?s' (get_PDE_idx x) = pde_at s (get_PDE_idx x)" for x
    using nc [OF get_PDE_idx_bound [of x]] by (simp add: pde_at_def cr3_def)
  have cr: "cr3 ?s' = cr3 s" by (simp add: cr3_def)
  have "walk (phys ?s') (cr3 ?s') x = None" if "shares_entry s x va" for x
    using that walk_alt [of ?s' x] pde [of x]
    by (simp add: shares_entry_def pte_cell_def paging_entry_present_def)
  moreover have "walk (phys ?s') (cr3 s) x = walk (phys s) (cr3 s) x" if "\<not> shares_entry s x va" for x
    by (rule walk_eqI [OF cr pde]) (use that in \<open>simp add: shares_entry_def\<close>)
  ultimately show ?thesis
    using free_mapping_present [OF assms(1,3)] get_pte_translate [OF assms(1,3)] by (auto simp: Let_def cr)
qed

theorem free_mapping_correct_witness:
  "\<exists>s'. free_mapping ex_paging 0xC0200000 0xC0001000 = Some (True, s') \<and>
     walk (phys s') 0x200000 0xC0001000 = None \<and> walk (phys s') 0x200000 0x1000 = None \<and>
     walk (phys s') 0x200000 0xC0002000 = walk (phys ex_paging) 0x200000 0xC0002000"
proof -
  let ?s' = "ex_paging\<lparr>phys := (phys ex_paging)(pte_cell ex_paging 0xC0001000 := 0)\<rparr>"
  have idx: "get_PDE_idx 0xC0001000 = 768" "get_PDE_idx 0x1000 = 0" "get_PDE_idx 0xC0002000 = 768"
    "get_pte_idx 0xC0001000 = 1" "get_pte_idx 0x1000 = 1" "get_pte_idx 0xC0002000 = 2"
    "RECURSIVE_PDE_IDX = 963"
    by (simp_all add: addr_defs)
  have sh: "shares_entry ex_paging 0xC0001000 0xC0001000" "shares_entry ex_paging 0x1000 0xC0001000"
    "\<not> shares_entry ex_paging 0xC0002000 0xC0001000"
    by (simp_all add: shares_entry_def pte_cell_eq_iff idx ex_paging_pde kernel_pde_flags_present)
  have "paging_entry_present (pde_at ex_paging (get_PDE_idx 0xC0001000))"
    by (simp add: idx ex_paging_pde kernel_pde_flags_present)
  from free_mapping_correct [OF ex_paging_facts(2) _ this]
  have "free_mapping ex_paging 0xC0200000 0xC0001000 = Some (True, ?s')"
    and "\<forall>x. walk (phys ?s') (cr3 ?s') x =
      (if shares_entry ex_paging x 0xC0001000 then None else walk (phys ex_paging) 0x200000 x)"
    by (simp_all only: Let_def ex_paging_facts idx) simp_all
  moreover have "cr3 ?s' = 0x200000" using ex_paging_facts(3) by (simp add: cr3_def)
  ultimately show ?thesis using sh by (intro exI [of _ ?s']) (simp only: if_True if_False)
qed

end
