(* ===== verification/Kheap.thy ===== *)
theory Kheap
  imports Addresses Memory
begin

text \<open>
  \<^verbatim>\<open>src/kernel/memory_management/kheap.c\<close>: the kernel heap. Tags and ranges are structures
  in the byte memory, at the addresses the code computes; the two calls into the virtual memory
  manager are arguments of the operations that make them, on a state that extends
  \<open>kheap\<close>. A loop over tags or ranges that does not end gives \<open>None\<close>. A range pointer that is
  NULL is dereferenced as the code does it, at address 0, which the boot page tables map.
\<close>

subsection \<open>Structures\<close>

record kheap =
  hmem :: mem
  heap_ranges :: u32

definition NUM_PAGES_REQUESTED_WHEN_FULL :: u32 where "NUM_PAGES_REQUESTED_WHEN_FULL = 2"

definition HEAP_SIZE :: u32 where "HEAP_SIZE = 20 * PAGE_SIZE"

text \<open>\<open>heap_alloc_t\<close>: \<open>size\<close> at offset 0, \<open>used\<close> at offset 4, eight bytes in all.\<close>

definition sizeof_heap_alloc :: u32 where "sizeof_heap_alloc = 8"

definition tag_size :: "mem \<Rightarrow> u32 \<Rightarrow> u32" where
  "tag_size m t = read32 m t"

definition tag_used :: "mem \<Rightarrow> u32 \<Rightarrow> bool" where
  "tag_used m t \<longleftrightarrow> m (t + 4) \<noteq> 0"

definition set_tag_size :: "mem \<Rightarrow> u32 \<Rightarrow> u32 \<Rightarrow> mem" where
  "set_tag_size m t n = write32 m t n"

definition set_tag_used :: "mem \<Rightarrow> u32 \<Rightarrow> bool \<Rightarrow> mem" where
  "set_tag_used m t b = m(t + 4 := (if b then 1 else 0))"

text \<open>\<open>heap_range_t\<close>: \<open>start\<close>, \<open>end\<close>, \<open>first_free_tag\<close> and \<open>next\<close>, sixteen bytes.\<close>

definition sizeof_heap_range :: u32 where "sizeof_heap_range = 16"

definition range_start :: "mem \<Rightarrow> u32 \<Rightarrow> u32" where "range_start m r = read32 m r"
definition range_end :: "mem \<Rightarrow> u32 \<Rightarrow> u32" where "range_end m r = read32 m (r + 4)"
definition range_first_free :: "mem \<Rightarrow> u32 \<Rightarrow> u32" where "range_first_free m r = read32 m (r + 8)"
definition range_next :: "mem \<Rightarrow> u32 \<Rightarrow> u32" where "range_next m r = read32 m (r + 12)"

definition set_range_end :: "mem \<Rightarrow> u32 \<Rightarrow> u32 \<Rightarrow> mem" where
  "set_range_end m r v = write32 m (r + 4) v"

definition set_range_first_free :: "mem \<Rightarrow> u32 \<Rightarrow> u32 \<Rightarrow> mem" where
  "set_range_first_free m r v = write32 m (r + 8) v"

subsection \<open>Operations\<close>

definition get_next_heap_tag :: "mem \<Rightarrow> u32 \<Rightarrow> u32" where
  "get_next_heap_tag m curr_entry = curr_entry + tag_size m curr_entry + sizeof_heap_alloc"

definition init_heap_alloc_entry :: "mem \<Rightarrow> u32 \<Rightarrow> u32 \<Rightarrow> u32 \<Rightarrow> mem" where
  "init_heap_alloc_entry m new_heap_entry requested_size avail_size =
     (let m = set_tag_used m new_heap_entry True in
      if requested_size + sizeof_heap_alloc < avail_size then
        (let m = set_tag_size m new_heap_entry requested_size;
             next_tag = get_next_heap_tag m new_heap_entry;
             m = set_tag_used m next_tag False
         in set_tag_size m next_tag (avail_size - (requested_size + sizeof_heap_alloc)))
      else set_tag_size m new_heap_entry avail_size)"

text \<open>The walk to the end of the list, which ends without linking the new range.\<close>

partial_function (option) walk_ranges :: "mem \<Rightarrow> u32 \<Rightarrow> unit option" where
  "walk_ranges m rng = (if rng \<noteq> NULL then walk_ranges m (range_next m rng) else Some ())"

definition init_new_heap_range :: "mem \<Rightarrow> u32 \<Rightarrow> u32 \<Rightarrow> u32 \<Rightarrow> (u32 \<times> mem) option" where
  "init_new_heap_range m ranges start end_addr =
     (let m = init_heap_alloc_entry m start sizeof_heap_range (HEAP_SIZE - sizeof_heap_alloc);
          new_heap_range = start + sizeof_heap_alloc;
          m = write32 m new_heap_range start;
          m = set_range_end m new_heap_range end_addr;
          m = set_range_first_free m new_heap_range (start + sizeof_heap_alloc + sizeof_heap_range);
          m = write32 m (new_heap_range + 12) NULL
      in map_option (\<lambda>_. (new_heap_range, m)) (walk_ranges m ranges))"

partial_function (option) goto_first_free_tag :: "mem \<Rightarrow> u32 \<Rightarrow> u32 \<Rightarrow> u32 option" where
  "goto_first_free_tag m rng heap_entry =
     (if heap_entry < range_end m rng \<and> tag_used m heap_entry
      then goto_first_free_tag m rng (get_next_heap_tag m heap_entry)
      else if \<not> tag_used m heap_entry then Some heap_entry else Some NULL)"

text \<open>The inner loop of \<open>find_first_fit\<close>: the entry found, or NULL.\<close>

partial_function (option) scan_range :: "mem \<Rightarrow> u32 \<Rightarrow> u32 \<Rightarrow> u32 \<Rightarrow> u32 option" where
  "scan_range m rng requested_size heap_entry =
     (if heap_entry \<noteq> NULL \<and> heap_entry < range_end m rng then
        (if \<not> tag_used m heap_entry \<and> tag_size m heap_entry \<ge> requested_size then Some heap_entry
         else scan_range m rng requested_size (get_next_heap_tag m heap_entry))
      else Some NULL)"

definition take_entry :: "mem \<Rightarrow> u32 \<Rightarrow> u32 \<Rightarrow> u32 \<Rightarrow> mem option" where
  "take_entry m rng requested_size heap_entry =
     (let m = init_heap_alloc_entry m heap_entry requested_size (tag_size m heap_entry) in
      if heap_entry = range_first_free m rng then
        (let next_tag = heap_entry + tag_size m heap_entry + sizeof_heap_alloc in
         map_option (set_range_first_free m rng) (goto_first_free_tag m rng next_tag))
      else Some m)"

partial_function (option) find_in_ranges :: "mem \<Rightarrow> u32 \<Rightarrow> u32 \<Rightarrow> (u32 \<times> mem) option" where
  "find_in_ranges m requested_size rng =
     (if rng \<noteq> NULL then
        Option.bind (scan_range m rng requested_size (range_first_free m rng)) (\<lambda>heap_entry.
          if heap_entry \<noteq> NULL then
            map_option (\<lambda>m. (heap_entry, m)) (take_entry m rng requested_size heap_entry)
          else if range_next m rng = NULL then Some (NULL, m)
          else find_in_ranges m requested_size (range_next m rng))
      else Some (NULL, m))"

definition find_first_fit :: "mem \<Rightarrow> u32 \<Rightarrow> u32 \<Rightarrow> (u32 \<times> mem) option" where
  "find_first_fit m ranges requested_size = find_in_ranges m requested_size ranges"

text \<open>
  \<open>request_more\<close> stands for \<open>vmalloc_request_more_memory\<close> and \<open>vm\<close> for
  \<open>vmalloc\<close> with one argument.
\<close>

definition extend_range :: "u32 \<Rightarrow> u32 \<Rightarrow> 'a kheap_scheme \<Rightarrow> (u32 \<times> 'a kheap_scheme) option" where
  "extend_range requested_alloc_size rng s =
     (let new_alloc_start = range_end (hmem s) rng;
          m = set_range_end (hmem s) rng (new_alloc_start + NUM_PAGES_REQUESTED_WHEN_FULL * PAGE_SIZE);
          m = init_heap_alloc_entry m new_alloc_start requested_alloc_size
                (NUM_PAGES_REQUESTED_WHEN_FULL * PAGE_SIZE - sizeof_heap_alloc)
      in map_option (\<lambda>f. (new_alloc_start, s\<lparr>hmem := set_range_first_free m rng f\<rparr>))
           (goto_first_free_tag m rng (range_start m rng)))"

partial_function (option) extend_ranges ::
    "(u32 \<Rightarrow> u32 \<Rightarrow> 'a kheap_scheme \<Rightarrow> (u32 \<times> 'a kheap_scheme) option) \<Rightarrow> u32 \<Rightarrow> u32 \<Rightarrow>
     'a kheap_scheme \<Rightarrow> (u32 option \<times> 'a kheap_scheme) option" where
  "extend_ranges request_more requested_alloc_size rng s =
     (if rng \<noteq> NULL then
        Option.bind (request_more (range_start (hmem s) rng)
            (NUM_PAGES_REQUESTED_WHEN_FULL * PAGE_SIZE) s) (\<lambda>(res, s).
          if res = NULL then extend_ranges request_more requested_alloc_size (range_next (hmem s) rng) s
          else map_option (\<lambda>(e, s). (Some e, s)) (extend_range requested_alloc_size rng s))
      else Some (None, s))"

definition get_more_mem ::
    "(u32 \<Rightarrow> u32 \<Rightarrow> 'a kheap_scheme \<Rightarrow> (u32 \<times> 'a kheap_scheme) option) \<Rightarrow>
     (u32 \<Rightarrow> 'a kheap_scheme \<Rightarrow> (u32 \<times> 'a kheap_scheme) option) \<Rightarrow> u32 \<Rightarrow>
     'a kheap_scheme \<Rightarrow> (u32 \<times> 'a kheap_scheme) option" where
  "get_more_mem request_more vm requested_alloc_size s =
     Option.bind (extend_ranges request_more requested_alloc_size (heap_ranges s) s) (\<lambda>(extended, s).
       case extended of Some e \<Rightarrow> Some (e, s)
       | None \<Rightarrow>
         Option.bind (vm (NUM_PAGES_REQUESTED_WHEN_FULL * PAGE_SIZE) s) (\<lambda>(new_range_start, s).
           Option.bind (init_new_heap_range (hmem s) (heap_ranges s) new_range_start
               (new_range_start + NUM_PAGES_REQUESTED_WHEN_FULL * PAGE_SIZE)) (\<lambda>(new_range, m).
             let new_alloc_area = range_first_free m new_range;
                 m = init_heap_alloc_entry m new_alloc_area requested_alloc_size (tag_size m new_alloc_area)
             in map_option (\<lambda>f. (new_alloc_area, s\<lparr>hmem := set_range_first_free m NULL f\<rparr>))
                  (goto_first_free_tag m NULL (range_start m NULL)))))"

definition kmalloc ::
    "(u32 \<Rightarrow> u32 \<Rightarrow> 'a kheap_scheme \<Rightarrow> (u32 \<times> 'a kheap_scheme) option) \<Rightarrow>
     (u32 \<Rightarrow> 'a kheap_scheme \<Rightarrow> (u32 \<times> 'a kheap_scheme) option) \<Rightarrow> u32 \<Rightarrow>
     'a kheap_scheme \<Rightarrow> (u32 \<times> 'a kheap_scheme) option" where
  "kmalloc request_more vm requested_size s =
     Option.bind (find_first_fit (hmem s) (heap_ranges s) requested_size) (\<lambda>(new_heap_entry, m).
       let s = s\<lparr>hmem := m\<rparr> in
       if new_heap_entry = NULL then
         map_option (\<lambda>(e, s). (e + sizeof_heap_alloc, s)) (get_more_mem request_more vm requested_size s)
       else Some (new_heap_entry + sizeof_heap_alloc, s))"

text \<open>The range that contains the address, or NULL.\<close>

partial_function (option) find_range_of :: "mem \<Rightarrow> u32 \<Rightarrow> u32 \<Rightarrow> u32 option" where
  "find_range_of m a rng =
     (if rng \<noteq> NULL then
        (if a \<ge> range_start m rng \<and> a < range_end m rng then Some rng
         else find_range_of m a (range_next m rng))
      else Some NULL)"

definition kfree :: "u32 \<Rightarrow> 'a kheap_scheme \<Rightarrow> 'a kheap_scheme option" where
  "kfree start_address_for_allocation s =
     Option.bind (find_range_of (hmem s) start_address_for_allocation (heap_ranges s)) (\<lambda>rng.
       if rng = NULL then Some s
       else
         (let tag_to_free = start_address_for_allocation - sizeof_heap_alloc;
              m = set_tag_used (hmem s) tag_to_free False;
              next_entry = get_next_heap_tag m tag_to_free;
              m = (if \<not> tag_used m next_entry
                   then set_tag_size m tag_to_free
                     (tag_size m tag_to_free + (tag_size m next_entry + sizeof_heap_alloc))
                   else m)
          in map_option (\<lambda>f. s\<lparr>hmem := set_range_first_free m rng f\<rparr>)
               (goto_first_free_tag m rng (range_start m rng))))"

definition init_kheap :: "u32 \<Rightarrow> 'a kheap_scheme \<Rightarrow> 'a kheap_scheme option" where
  "init_kheap heap_start s =
     map_option (\<lambda>(r, m). s\<lparr>hmem := m, heap_ranges := r\<rparr>)
       (init_new_heap_range (hmem s) (heap_ranges s) heap_start (heap_start + HEAP_SIZE))"

subsection \<open>The heap as a list of blocks\<close>

text \<open>
  From \<open>t\<close> up to \<open>e\<close> the memory is tiled by blocks, each an eight-byte tag and its data; the
  list holds their sizes and used flags.
\<close>

fun tiles :: "mem \<Rightarrow> u32 \<Rightarrow> u32 \<Rightarrow> (u32 \<times> bool) list \<Rightarrow> bool" where
  "tiles m t e [] \<longleftrightarrow> t = e"
| "tiles m t e ((n, u) # bs) \<longleftrightarrow> tag_size m t = n \<and> tag_used m t = u \<and>
     unat t + 8 + unat n \<le> unat e \<and> tiles m (t + 8 + n) e bs"

fun advance :: "u32 \<Rightarrow> (u32 \<times> bool) list \<Rightarrow> u32" where
  "advance t [] = t"
| "advance t ((n, u) # bs) = advance (t + 8 + n) bs"

text \<open>First fit, and taking a block, on the list.\<close>

fun first_fit :: "u32 \<Rightarrow> u32 \<Rightarrow> (u32 \<times> bool) list \<Rightarrow> u32 option" where
  "first_fit t req [] = None"
| "first_fit t req ((n, u) # bs) =
     (if \<not> u \<and> req \<le> n then Some t else first_fit (t + 8 + n) req bs)"

definition split_block :: "u32 \<Rightarrow> u32 \<Rightarrow> (u32 \<times> bool) list" where
  "split_block req n = (if req + 8 < n then [(req, True), (n - (req + 8), False)] else [(n, True)])"

lemmas heap_sizes = sizeof_heap_alloc_def sizeof_heap_range_def

lemma block_end:
  assumes "unat (t :: u32) + 8 + unat n \<le> unat (e :: u32)"
  shows "unat (t + 8 + n) = unat t + 8 + unat n"
  using assms unat_lt_2p32 [of e] by (subst unat_add_small; subst unat_add_small) simp_all

lemma tiles_le: "tiles m t e bs \<Longrightarrow> unat t \<le> unat e"
  by (cases bs) auto

lemma tiles_append:
  "tiles m t e (xs @ ys) \<longleftrightarrow> tiles m t (advance t xs) xs \<and> tiles m (advance t xs) e ys"
proof (induction xs arbitrary: t)
  case (Cons x xs)
  obtain n u where x: "x = (n, u)" by fastforce
  have "unat t + 8 + unat n \<le> unat (advance (t + 8 + n) xs)"
    if "unat t + 8 + unat n \<le> unat e" "tiles m (t + 8 + n) (advance (t + 8 + n) xs) xs"
    using tiles_le [OF that(2)] block_end [OF that(1)] by simp
  moreover have "unat t + 8 + unat n \<le> unat e"
    if "unat t + 8 + unat n \<le> unat (advance (t + 8 + n) xs)" "tiles m (advance (t + 8 + n) xs) e ys"
    using that(1) tiles_le [OF that(2)] by simp
  ultimately show ?case using Cons.IH [of "t + 8 + n"] by (auto simp: x)
qed simp

lemma advance_append [simp]: "advance t (xs @ ys) = advance (advance t xs) ys"
  by (induction t xs rule: advance.induct) auto

text \<open>A tag is read from its eight bytes.\<close>

lemma tag_agree:
  assumes "\<And>x. x - t < 8 \<Longrightarrow> m' x = m x"
  shows "tag_size m' t = tag_size m t" and "tag_used m' t = tag_used m t"
  using assms [of t] assms [of "t + 1"] assms [of "t + 2"] assms [of "t + 3"] assms [of "t + 4"]
  by (simp_all add: tag_size_def tag_used_def read32_def)

text \<open>Addresses in a window that does not wrap around.\<close>

lemma in_window:
  assumes "unat (t :: u32) + unat n \<le> 4294967295"
  shows "x - t < n \<longleftrightarrow> unat t \<le> unat x \<and> unat x < unat t + unat n"
proof (cases "t \<le> x")
  case True
  then show ?thesis
    using unat_sub_le [OF True] by (auto simp: word_less_nat_alt word_le_nat_alt)
next
  case False
  then have lt: "x < t" by simp
  have "unat (x - t) = 4294967296 + unat x - unat t"
    using lt by (simp add: unat_sub_if_size word_size word_less_nat_alt)
  then show ?thesis
    using lt assms unat_lt_2p32 [of t] by (simp add: word_less_nat_alt)
qed

lemma tiles_agree:
  assumes "tiles m t e bs" and "\<And>x. unat t \<le> unat x \<Longrightarrow> unat x < unat e \<Longrightarrow> m' x = m x"
  shows "tiles m' t e bs"
  using assms
proof (induction bs arbitrary: t)
  case (Cons b bs)
  obtain n u where b: "b = (n, u)" by fastforce
  have fits: "unat t + 8 + unat n \<le> unat e" and rest: "tiles m (t + 8 + n) e bs"
    using Cons.prems(1) by (simp_all add: b)
  have "m' x = m x" if "x - t < 8" for x
    using that Cons.prems(2) [of x] fits unat_lt_2p32 [of e] in_window [of t 8 x] by simp
  moreover have "tiles m' (t + 8 + n) e bs"
    using Cons.IH [OF rest] Cons.prems(2) block_end [OF fits] by simp
  ultimately show ?case
    using Cons.prems(1) tag_agree [of t m' m] by (simp add: b)
qed simp

lemma tiles_first_fit_bounds:
  "tiles m t e bs \<Longrightarrow> first_fit t req bs = Some a \<Longrightarrow>
     unat t \<le> unat a \<and> unat a + 8 + unat (tag_size m a) \<le> unat e \<and> req \<le> tag_size m a \<and>
     \<not> tag_used m a"
proof (induction bs arbitrary: t)
  case (Cons b bs)
  obtain n u where b: "b = (n, u)" by fastforce
  show ?case
  proof (cases "\<not> u \<and> req \<le> n")
    case True
    then show ?thesis using Cons.prems by (simp add: b)
  next
    case False
    then have "unat (t + 8 + n) \<le> unat a \<and> unat a + 8 + unat (tag_size m a) \<le> unat e \<and>
        req \<le> tag_size m a \<and> \<not> tag_used m a"
      using Cons.IH [of "t + 8 + n"] Cons.prems by (simp add: b split: if_splits)
    moreover have "unat (t + 8 + n) = unat t + 8 + unat n"
      using Cons.prems(1) by (intro block_end [of _ _ e]) (simp add: b)
    ultimately show ?thesis by simp
  qed
qed simp

text \<open>The scan and the search for a free tag compute first fit on the list.\<close>

lemma tiles_next:
  assumes "tiles m t e ((n, u) # bs)"
  shows "t < e" and "get_next_heap_tag m t = t + 8 + n" and "t + 8 + n \<noteq> NULL"
    and "unat (t + 8 + n) = unat t + 8 + unat n"
proof -
  have *: "unat t + 8 + unat n \<le> unat e" "tag_size m t = n" using assms by simp_all
  then show "t < e" "get_next_heap_tag m t = t + 8 + n"
    by (simp_all add: word_less_nat_alt get_next_heap_tag_def heap_sizes add.commute add.left_commute)
  show "unat (t + 8 + n) = unat t + 8 + unat n" by (rule block_end [OF *(1)])
  then have "unat (t + 8 + n) \<noteq> 0" by simp
  then show "t + 8 + n \<noteq> NULL" by auto
qed

lemma scan_range_tiles:
  assumes "range_end m r = e" and "tiles m t e bs" and "t \<noteq> NULL"
  shows "scan_range m r req t = Some (case first_fit t req bs of Some a \<Rightarrow> a | None \<Rightarrow> NULL)"
  using assms(2,3)
proof (induction bs arbitrary: t)
  case Nil
  then show ?case using assms(1) by (simp add: scan_range.simps)
next
  case (Cons b bs)
  obtain n u where b: "b = (n, u)" by fastforce
  note nx = tiles_next [OF Cons.prems(1) [unfolded b]]
  have "tag_size m t = n" "tag_used m t = u" "tiles m (t + 8 + n) e bs"
    using Cons.prems(1) by (simp_all add: b)
  then show ?case
    using nx Cons.IH [of "t + 8 + n"] Cons.prems(2) assms(1)
    by (subst scan_range.simps) (simp add: b)
qed

lemma goto_first_free_tiles:
  assumes "range_end m r = e" and "tiles m t e bs"
  shows "goto_first_free_tag m r t = Some (case first_fit t 0 bs of Some a \<Rightarrow> a
    | None \<Rightarrow> if tag_used m e then NULL else e)"
  using assms(2)
proof (induction bs arbitrary: t)
  case Nil
  then show ?case using assms(1) by (simp add: goto_first_free_tag.simps)
next
  case (Cons b bs)
  obtain n u where b: "b = (n, u)" by fastforce
  note nx = tiles_next [OF Cons.prems(1) [unfolded b]]
  have "tag_used m t = u" "tiles m (t + 8 + n) e bs"
    using Cons.prems(1) by (simp_all add: b)
  then show ?case
    using nx Cons.IH [of "t + 8 + n"] assms(1)
    by (subst goto_first_free_tag.simps) (simp add: b)
qed

subsection \<open>Taking a block\<close>

lemma set_tag_frame:
  assumes "\<not> x - a < 8"
  shows "set_tag_size m a v x = m x" and "set_tag_used m a b x = m x"
proof -
  have "x \<noteq> a" "x \<noteq> a + 1" "x \<noteq> a + 2" "x \<noteq> a + 3" "x \<noteq> a + 4" using assms by auto
  then show "set_tag_size m a v x = m x" "set_tag_used m a b x = m x"
    by (simp_all add: set_tag_size_def set_tag_used_def write32_def)
qed

lemma set_tag_same [simp]:
  "tag_size (set_tag_size m t v) t = v" "tag_used (set_tag_size m t v) t = tag_used m t"
  "tag_used (set_tag_used m t b) t = b" "tag_size (set_tag_used m t b) t = tag_size m t"
  by (simp add: tag_size_def set_tag_size_def)
    (simp_all add: tag_size_def tag_used_def set_tag_size_def set_tag_used_def write32_def read32_def)

text \<open>Tags of different blocks do not overlap.\<close>

lemma set_tag_apart:
  assumes "unat a + 8 \<le> unat b" and "unat b + 8 \<le> 4294967295"
  shows "tag_size (set_tag_size m b v) a = tag_size m a" "tag_used (set_tag_size m b v) a = tag_used m a"
    "tag_size (set_tag_used m b u) a = tag_size m a" "tag_used (set_tag_used m b u) a = tag_used m a"
proof -
  have apart: "\<not> x - b < 8" if "x - a < 8" for x
    using that assms in_window [of a 8 x] in_window [of b 8 x] by simp
  note fr = set_tag_frame [OF apart]
  show "tag_size (set_tag_size m b v) a = tag_size m a" "tag_used (set_tag_size m b v) a = tag_used m a"
    using tag_agree [of a "set_tag_size m b v" m] fr by simp_all
  show "tag_size (set_tag_used m b u) a = tag_size m a" "tag_used (set_tag_used m b u) a = tag_used m a"
    using tag_agree [of a "set_tag_used m b u" m] fr by simp_all
qed

lemma init_entry_block:
  fixes m :: mem and e :: u32
  assumes fits: "unat a + 8 + unat n \<le> unat e" and "req \<le> n" and small: "unat req + 8 < 4294967296"
  defines "m' \<equiv> init_heap_alloc_entry m a req n"
  shows "tiles m' a (a + 8 + n) (split_block req n)"
    and "\<not> x - a < 8 + n \<Longrightarrow> m' x = m x"
proof -
  note u = block_end [OF fits]
  have e: "unat e \<le> 4294967295" using unat_lt_2p32 [of e] by simp
  have n8: "unat (8 + n) = 8 + unat n"
    using fits e by (subst unat_add_small) simp_all
  have r8: "unat (req + 8) = unat req + 8"
    using small by (subst unat_add_small) simp_all
  have both: "tiles m' a (a + 8 + n) (split_block req n) \<and> (\<not> x - a < 8 + n \<longrightarrow> m' x = m x)" for x
  proof (cases "req + 8 < n")
    case False
    have eq: "m' = set_tag_size (set_tag_used m a True) a n"
      using False by (simp add: m'_def init_heap_alloc_entry_def heap_sizes Let_def)
    have "m' x = m x" if "\<not> x - a < 8 + n"
    proof -
      have "\<not> x - a < 8" using that n8 by (auto simp: word_less_nat_alt)
      then show ?thesis by (simp add: eq set_tag_frame)
    qed
    moreover have "tiles m' a (a + 8 + n) (split_block req n)"
      using False u by (simp add: split_block_def eq)
    ultimately show ?thesis by blast
  next
    case True
    let ?b = "a + 8 + req"
    have lt: "unat req + 8 < unat n" using True r8 by (simp add: word_less_nat_alt)
    have ub: "unat ?b = unat a + 8 + unat req"
      using fits lt e by (intro block_end [of _ _ e]) simp
    have rest: "unat (n - (req + 8)) = unat n - (unat req + 8)"
      using True r8 by (subst unat_sub_le) (simp_all add: word_less_nat_alt word_le_nat_alt)
    have nx: "get_next_heap_tag (set_tag_size (set_tag_used m a True) a req) a = ?b"
      by (simp add: get_next_heap_tag_def heap_sizes)
    have eq: "m' = set_tag_size (set_tag_used (set_tag_size (set_tag_used m a True) a req) ?b False)
        ?b (n - (req + 8))"
      using True nx by (simp add: m'_def init_heap_alloc_entry_def heap_sizes Let_def)
    have ab: "unat a + 8 \<le> unat ?b" "unat ?b + 8 \<le> 4294967295"
      using ub lt fits e by simp_all
    note apart = set_tag_apart [OF ab]
    have "m' x = m x" if x: "\<not> x - a < 8 + n"
    proof -
      have win: "x - a < 8 + n \<longleftrightarrow> unat a \<le> unat x \<and> unat x < unat a + unat (8 + n)"
        using fits e n8 by (intro in_window) simp
      have "\<not> x - a < 8" using x n8 by (auto simp: word_less_nat_alt)
      moreover have "\<not> x - ?b < 8"
        using x ab(2) lt ub n8 unfolding win by (subst in_window) auto
      ultimately show ?thesis by (simp add: eq set_tag_frame)
    qed
    moreover have "tiles m' a (a + 8 + n) (split_block req n)"
    proof -
      have "?b + 8 + (n - (req + 8)) = a + 8 + n" by simp
      then show ?thesis
        using True u ub lt rest ab(1) by (simp add: split_block_def eq apart)
    qed
    ultimately show ?thesis by blast
  qed
  show "tiles m' a (a + 8 + n) (split_block req n)" using both by blast
  show "\<not> x - a < 8 + n \<Longrightarrow> m' x = m x" using both by blast
qed

lemma first_fit_split:
  "first_fit t req bs = Some a \<Longrightarrow>
     \<exists>pre n post. bs = pre @ (n, False) # post \<and> a = advance t pre \<and> req \<le> n \<and>
       (\<forall>(k, u) \<in> set pre. u \<or> \<not> req \<le> k)"
proof (induction t req bs rule: first_fit.induct)
  case (2 t req n u bs)
  show ?case
  proof (cases "\<not> u \<and> req \<le> n")
    case True
    then show ?thesis using "2.prems" by (intro exI [of _ "[]"]) auto
  next
    case False
    then obtain pre k post where "bs = pre @ (k, False) # post" "a = advance (t + 8 + n) pre"
      "req \<le> k" "\<forall>(k, u) \<in> set pre. u \<or> \<not> req \<le> k"
      using 2 by auto
    then show ?thesis
      using False by (intro exI [of _ "(n, u) # pre"] exI [of _ k] exI [of _ post]) auto
  qed
qed simp

lemma first_fit_skip:
  "\<forall>(k, u) \<in> set pre. u \<or> \<not> req \<le> k \<Longrightarrow>
     first_fit t req (pre @ bs) = first_fit (advance t pre) req bs"
  by (induction t pre rule: advance.induct) auto

lemma first_fit_stable:
  "first_fit t req pre = Some a \<Longrightarrow> first_fit t req (pre @ bs) = Some a"
  by (induction t req pre rule: first_fit.induct) (auto split: if_splits)

lemma first_fit_None_mono:
  "first_fit t 0 bs = None \<Longrightarrow> first_fit t req bs = None"
  by (induction t req bs rule: first_fit.induct) (auto split: if_splits)

lemma first_fit_None_used:
  "first_fit t req bs = None \<Longrightarrow> \<forall>(k, u) \<in> set bs. u \<or> \<not> req \<le> k"
  by (induction t req bs rule: first_fit.induct) (auto split: if_splits)

lemma tiles_replace:
  assumes "tiles m t e (pre @ (n, False) # post)" and "unat req + 8 < 4294967296" and "req \<le> n"
  defines "a \<equiv> advance t pre"
  shows "tiles (init_heap_alloc_entry m a req n) t e (pre @ split_block req n @ post)"
    and "unat t \<le> unat a" and "unat a + 8 + unat n \<le> unat e" and "tag_size m a = n"
proof -
  have pre: "tiles m t a pre" and blk: "tiles m a e ((n, False) # post)"
    using assms(1) unfolding tiles_append a_def by auto
  then show fits: "unat a + 8 + unat n \<le> unat e" and "tag_size m a = n" by simp_all
  show ta: "unat t \<le> unat a" using tiles_le [OF pre] .
  let ?m = "init_heap_alloc_entry m a req n"
  note u = block_end [OF fits]
  have e: "unat e \<le> 4294967295" using unat_lt_2p32 [of e] by simp
  then have n8: "unat (8 + n) = 8 + unat n"
    using fits by (subst unat_add_small) simp_all
  note init = init_entry_block [OF fits assms(3,2), where m = m]
  have win: "x - a < 8 + n \<longleftrightarrow> unat a \<le> unat x \<and> unat x < unat a + unat (8 + n)" for x
    using fits e n8 by (intro in_window) simp
  have before: "tiles ?m t a pre"
    by (rule tiles_agree [OF pre]) (use init(2) win in simp)
  have "tiles m (a + 8 + n) e post" using blk by simp
  then have after: "tiles ?m (a + 8 + n) e post"
    by (rule tiles_agree) (use init(2) win n8 u in simp)
  have "advance a (split_block req n) = a + 8 + n"
    by (simp add: split_block_def)
  then show "tiles ?m t e (pre @ split_block req n @ post)"
    using before init(1) after unfolding tiles_append by (simp flip: a_def)
qed

subsection \<open>The heap of one range\<close>

text \<open>
  The heap as the kernel uses it: one range, whose structure sits in the data of the first
  block; \<open>bs\<close> are the blocks behind it.
\<close>

definition heap_header :: "mem \<Rightarrow> u32 \<Rightarrow> u32 \<Rightarrow> bool" where
  "heap_header m r e \<longleftrightarrow> range_start m r = r - 8 \<and> range_end m r = e \<and> range_next m r = NULL \<and>
     tag_size m (r - 8) = 16 \<and> tag_used m (r - 8)"

definition heap_ok :: "mem \<Rightarrow> u32 \<Rightarrow> u32 \<Rightarrow> (u32 \<times> bool) list \<Rightarrow> bool" where
  "heap_ok m r e bs \<longleftrightarrow> 8 \<le> unat r \<and> unat r + 16 \<le> unat e \<and> heap_header m r e \<and>
     tiles m (r + 16) e bs \<and>
     (case first_fit (r + 16) 0 bs of
        Some a \<Rightarrow> range_first_free m r = a
      | None \<Rightarrow> range_first_free m r \<in> {NULL, e})"

lemma header_agree:
  assumes "heap_header m r e" and "8 \<le> unat r" and "unat r + 16 \<le> unat e"
    and agree: "\<And>x. unat x < unat r + 16 \<Longrightarrow> m' x = m x"
  shows "heap_header m' r e" and "range_first_free m' r = range_first_free m r"
proof -
  have e: "unat e \<le> 4294967295" using unat_lt_2p32 [of e] by simp
  have w: "x - r < 16 \<Longrightarrow> m' x = m x" for x
    using agree [of x] assms(3) e in_window [of r 16 x] by simp
  have "unat (r - 8) = unat r - 8"
    using assms(2) by (subst unat_sub_le) (simp_all add: word_le_nat_alt)
  then have "m' x = m x" if "x - (r - 8) < 8" for x
    using that agree [of x] assms(2,3) e in_window [of "r - 8" 8 x] by simp
  note tag = tag_agree [of "r - 8" m' m, OF this]
  note b = w [of "r + _"]
  have reads: "read32 m' (r + k) = read32 m (r + k)" if "k \<in> {0, 4, 8, 12}" for k
    using that b [of k] b [of "k + 1"] b [of "k + 2"] b [of "k + 3"]
    by (auto simp: read32_def add.assoc)
  from reads [of 0] reads [of 4] reads [of 8] reads [of 12]
  show "heap_header m' r e" "range_first_free m' r = range_first_free m r"
    using assms(1) tag
    by (simp_all add: heap_header_def range_start_def range_end_def range_next_def range_first_free_def)
qed

lemma set_first_free_frame:
  "\<not> x - (r + 8) < 4 \<Longrightarrow> set_range_first_free m r f x = m x"
  unfolding set_range_first_free_def by (rule write32_other) auto

lemma set_first_free_header:
  assumes "heap_header m r e" and "8 \<le> unat r" and "unat r + 16 \<le> unat e"
  shows "heap_header (set_range_first_free m r f) r e"
    and "range_first_free (set_range_first_free m r f) r = f"
proof -
  have e: "unat e \<le> 4294967295" using unat_lt_2p32 [of e] by simp
  have "unat (r - 8) = unat r - 8"
    using assms(2) by (subst unat_sub_le) (simp_all add: word_le_nat_alt)
  moreover have "unat (r + 8) = unat r + 8" using assms(3) e by (subst unat_add_small) simp_all
  ultimately have "\<not> x - (r + 8) < 4" if "x - (r - 8) < 8" for x
    using that assms(2,3) e in_window [of "r - 8" 8 x] in_window [of "r + 8" 4 x] by simp
  note tag = tag_agree [of "r - 8" "set_range_first_free m r f" m, OF set_first_free_frame [OF this]]
  have "apart32 (r + 8) r" "apart32 (r + 8) (r + 4)" "apart32 (r + 8) (r + 12)"
    by (simp_all add: apart32_def)
  then show "heap_header (set_range_first_free m r f) r e"
    using assms(1) tag
    by (simp add: heap_header_def range_start_def range_end_def range_next_def
        set_range_first_free_def read32_write32_other)
  show "range_first_free (set_range_first_free m r f) r = f"
    by (simp add: range_first_free_def set_range_first_free_def)
qed

lemma heap_base:
  assumes "heap_ok m r e bs"
  shows "unat (r + 16) = unat r + 16" and "r \<noteq> NULL" and "r + 16 \<noteq> NULL"
proof -
  have "unat r + 16 \<le> unat e" "8 \<le> unat r" using assms by (simp_all add: heap_ok_def)
  then show "unat (r + 16) = unat r + 16"
    using unat_lt_2p32 [of e] by (subst unat_add_small) simp_all
  then have "unat (r + 16) \<noteq> 0" by simp
  then show "r + 16 \<noteq> NULL" by auto
  show "r \<noteq> NULL" using \<open>8 \<le> unat r\<close> by auto
qed

text \<open>Rewriting the free pointer of a range whose blocks are tiled anew.\<close>

lemma heap_ok_renew:
  assumes "8 \<le> unat r" and "unat r + 16 \<le> unat e" and "heap_header m r e"
    and tiles: "tiles m (r + 16) e bs"
    and f: "case first_fit (r + 16) 0 bs of Some a \<Rightarrow> f = a | None \<Rightarrow> f \<in> {NULL, e}"
  shows "heap_ok (set_range_first_free m r f) r e bs"
proof -
  have e: "unat e \<le> 4294967295" using unat_lt_2p32 [of e] by simp
  have r: "unat (r + 16) = unat r + 16" "unat (r + 8) = unat r + 8"
    using assms(2) e by (subst unat_add_small; simp)+
  have "set_range_first_free m r f x = m x" if "unat (r + 16) \<le> unat x" for x
    using that r e assms(2) in_window [of "r + 8" 4 x] by (intro set_first_free_frame) simp
  then have "tiles (set_range_first_free m r f) (r + 16) e bs"
    by (intro tiles_agree [OF tiles])
  then show ?thesis
    using assms set_first_free_header [OF assms(3,1,2), of f]
    by (auto simp add: heap_ok_def split: option.splits)
qed

text \<open>The search on a heap in order is first fit on its blocks.\<close>

lemma scan_heap:
  assumes ok: "heap_ok m r e bs"
  shows "scan_range m r req (range_first_free m r) =
    Some (case first_fit (r + 16) req bs of Some a \<Rightarrow> a | None \<Rightarrow> NULL)"
proof (cases "first_fit (r + 16) 0 bs")
  case None
  then have "range_first_free m r \<in> {NULL, e}" "range_end m r = e"
    using ok by (auto simp: heap_ok_def heap_header_def)
  then show ?thesis
    using first_fit_None_mono [OF None, of req] by (subst scan_range.simps) auto
next
  case (Some a)
  then obtain pre n post where bs: "bs = pre @ (n, False) # post" "a = advance (r + 16) pre"
    and used: "\<forall>(k, u) \<in> set pre. u \<or> \<not> 0 \<le> k"
    using first_fit_split by blast
  have "\<forall>(k, u) \<in> set pre. u \<or> \<not> req \<le> k" using used by auto
  then have skip: "first_fit (r + 16) req bs = first_fit a req ((n, False) # post)"
    unfolding bs by (rule first_fit_skip)
  have tiles: "tiles m (r + 16) e bs" using ok by (simp add: heap_ok_def)
  then have blk: "tiles m a e ((n, False) # post)" unfolding bs(1) tiles_append bs(2) by (rule conjunct2)
  have "unat (r + 16) \<le> unat a" using tiles_first_fit_bounds [OF tiles Some] by simp
  then have "unat a \<noteq> 0" using heap_base [OF ok] by simp
  then have anz: "a \<noteq> NULL" by auto
  have "range_end m r = e" using ok by (simp add: heap_ok_def heap_header_def)
  note scan_range_tiles [OF this blk anz, of req]
  moreover have "range_first_free m r = a" using ok Some by (simp add: heap_ok_def)
  ultimately show ?thesis by (simp only: skip)
qed

lemma find_first_fit_none:
  assumes ok: "heap_ok m r e bs" and "first_fit (r + 16) req bs = None"
  shows "find_first_fit m r req = Some (NULL, m)"
  unfolding find_first_fit_def using scan_heap [OF ok, of req] assms heap_base [OF ok]
  by (subst find_in_ranges.simps) (simp add: heap_ok_def heap_header_def)

text \<open>Taking the block that first fit selects.\<close>

text \<open>The free block taken is the first free one exactly when no block before it is free.\<close>

lemma first_free_iff:
  assumes ok: "heap_ok m r e (pre @ (n, False) # post)"
  shows "advance (r + 16) pre = range_first_free m r \<longleftrightarrow> first_fit (r + 16) 0 pre = None"
proof (cases "first_fit (r + 16) 0 pre")
  case None
  then have "first_fit (r + 16) 0 (pre @ (n, False) # post) = Some (advance (r + 16) pre)"
    by (subst first_fit_skip [OF first_fit_None_used]) simp_all
  then show ?thesis using ok None by (simp add: heap_ok_def)
next
  case (Some b)
  have "range_first_free m r = b" using ok first_fit_stable [OF Some] by (simp add: heap_ok_def)
  moreover have "tiles m (r + 16) (advance (r + 16) pre) pre"
    using ok unfolding heap_ok_def tiles_append by simp
  ultimately show ?thesis using tiles_first_fit_bounds [OF _ Some] Some by fastforce
qed

lemma take_entry_heap:
  assumes ok: "heap_ok m r e (pre @ (n, False) # post)"
    and fit: "req \<le> n" "\<forall>(k, u) \<in> set pre. u \<or> \<not> req \<le> k" and small: "unat req + 8 < 4294967296"
  defines "a \<equiv> advance (r + 16) pre"
  shows "\<exists>m'. take_entry m r req a = Some m' \<and> heap_ok m' r e (pre @ split_block req n @ post) \<and>
    (\<forall>x. \<not> x - a < 8 + n \<longrightarrow> \<not> x - (r + 8) < 4 \<longrightarrow> m' x = m x)"
proof -
  let ?m = "init_heap_alloc_entry m a req n"
  have tiles: "tiles m (r + 16) e (pre @ (n, False) # post)" and r: "8 \<le> unat r" "unat r + 16 \<le> unat e"
    and hd: "heap_header m r e"
    using ok by (simp_all add: heap_ok_def)
  note new = tiles_replace [OF tiles small fit(1), folded a_def]
  note init = init_entry_block [OF new(3) fit(1) small, where m = m]
  note u = block_end [OF new(3)]
  have e: "unat e \<le> 4294967295" using unat_lt_2p32 [of e] by simp
  then have "unat (8 + n) = 8 + unat n" using new(3) by (subst unat_add_small) simp_all
  then have win: "x - a < 8 + n \<longleftrightarrow> unat a \<le> unat x \<and> unat x < unat a + unat (8 + n)" for x
    using new(3) e by (intro in_window) simp
  have low: "?m x = m x" if "unat x < unat r + 16" for x
    using that new(2) heap_base [OF ok] win [of x] by (intro init(2)) simp
  note hd' = header_agree [OF hd r low]
  have entry: "take_entry m r req a =
      (if a = range_first_free m r then
        map_option (set_range_first_free ?m r) (goto_first_free_tag ?m r (a + tag_size ?m a + 8))
       else Some ?m)"
    by (simp add: take_entry_def new(4) Let_def hd'(2) heap_sizes)
  show ?thesis
  proof (cases "a = range_first_free m r")
    case False
    then obtain b where b: "first_fit (r + 16) 0 pre = Some b"
      using first_free_iff [OF ok] by (auto simp: a_def)
    have "range_first_free m r = b" using ok first_fit_stable [OF b] by (simp add: heap_ok_def)
    then have "first_fit (r + 16) 0 (pre @ split_block req n @ post) = Some (range_first_free m r)"
      using first_fit_stable [OF b] by simp
    then have "heap_ok ?m r e (pre @ split_block req n @ post)"
      using new(1) r hd' by (simp add: heap_ok_def)
    then show ?thesis using entry False init(2) by auto
  next
    case True
    have pre_none: "first_fit (r + 16) 0 pre = None"
      using True first_free_iff [OF ok] by (simp add: a_def)
    obtain k rest where sp: "split_block req n = (k, True) # rest"
      by (cases "req + 8 < n") (auto simp: split_block_def)
    let ?next = "a + 8 + k"
    have "tiles ?m (r + 16) e (pre @ ((k, True) # rest @ post))"
      using new(1) by (simp only: sp append_Cons)
    then have blk: "tiles ?m a e ((k, True) # rest @ post)"
      by (simp only: tiles_append [of _ _ _ pre] a_def)
    then have size: "tag_size ?m a = k" and tail: "tiles ?m ?next e (rest @ post)" by simp_all
    define f where "f = (case first_fit ?next 0 (rest @ post) of Some b \<Rightarrow> b
      | None \<Rightarrow> if tag_used ?m e then NULL else e)"
    have "goto_first_free_tag ?m r ?next = Some f"
      unfolding f_def by (rule goto_first_free_tiles [OF _ tail]) (use hd' in \<open>simp add: heap_header_def\<close>)
    then have "take_entry m r req a = Some (set_range_first_free ?m r f)"
      using entry True size by (simp add: add.commute add.left_commute)
    moreover have "first_fit (r + 16) 0 (pre @ split_block req n @ post) = first_fit ?next 0 (rest @ post)"
      unfolding first_fit_skip [OF first_fit_None_used [OF pre_none]] sp by (simp add: a_def)
    then have "heap_ok (set_range_first_free ?m r f) r e (pre @ split_block req n @ post)"
      using new(1) r hd'(1) by (intro heap_ok_renew) (simp_all add: f_def split: option.split)
    ultimately show ?thesis
      using init(2) set_first_free_frame [of _ r ?m f] by auto
  qed
qed

lemma kmalloc_fits:
  assumes ok: "heap_ok (hmem s) (heap_ranges s) e bs"
    and fit: "first_fit (heap_ranges s + 16) req bs = Some a"
  shows "\<exists>m' pre n post. bs = pre @ (n, False) # post \<and> a = advance (heap_ranges s + 16) pre \<and>
    req \<le> n \<and> (\<forall>(k, u) \<in> set pre. u \<or> \<not> req \<le> k) \<and>
    kmalloc request_more vm req s = Some (a + 8, s\<lparr>hmem := m'\<rparr>) \<and>
    heap_ok m' (heap_ranges s) e (pre @ split_block req n @ post) \<and>
    (\<forall>x. \<not> x - a < 8 + n \<longrightarrow> \<not> x - (heap_ranges s + 8) < 4 \<longrightarrow> m' x = hmem s x)"
proof -
  let ?r = "heap_ranges s"
  have "tiles (hmem s) (?r + 16) e bs" using ok by (simp add: heap_ok_def)
  from tiles_first_fit_bounds [OF this fit] have small: "unat req + 8 < 4294967296"
    using unat_lt_2p32 [of e] by (simp add: word_le_nat_alt)
  obtain pre n post where bs: "bs = pre @ (n, False) # post" "a = advance (?r + 16) pre"
    and n: "req \<le> n" "\<forall>(k, u) \<in> set pre. u \<or> \<not> req \<le> k"
    using first_fit_split [OF fit] by blast
  obtain m' where take: "take_entry (hmem s) ?r req a = Some m'"
    and new: "heap_ok m' ?r e (pre @ split_block req n @ post)"
      "\<forall>x. \<not> x - a < 8 + n \<longrightarrow> \<not> x - (?r + 8) < 4 \<longrightarrow> m' x = hmem s x"
    using take_entry_heap [OF ok [unfolded bs(1)] n small] unfolding bs(2) by blast
  have "tiles (hmem s) (?r + 16) e bs" using ok by (simp add: heap_ok_def)
  then have "unat a \<noteq> 0" using tiles_first_fit_bounds [OF _ fit] heap_base [OF ok] by fastforce
  then have "a \<noteq> NULL" by auto
  then have "find_first_fit (hmem s) ?r req = Some (a, m')"
    unfolding find_first_fit_def using scan_heap [OF ok, of req] fit take heap_base [OF ok]
    by (subst find_in_ranges.simps) simp
  then have "kmalloc request_more vm req s = Some (a + 8, s\<lparr>hmem := m'\<rparr>)"
    using \<open>a \<noteq> NULL\<close> by (simp add: kmalloc_def heap_sizes Let_def)
  then show ?thesis using bs n new by blast
qed

subsection \<open>Freeing a block\<close>

lemma tiles_advance: "tiles m t e bs \<Longrightarrow> advance t bs = e"
  by (induction m t e bs rule: tiles.induct) auto

lemma tiles_update:
  assumes "tiles m t e (pre @ mid @ post)"
  defines "a \<equiv> advance t pre" and "z \<equiv> advance (advance t pre) mid"
  assumes same: "\<And>x. \<not> (unat a \<le> unat x \<and> unat x < unat z) \<Longrightarrow> m' x = m x"
    and mid': "tiles m' a z mid'"
  shows "tiles m' t e (pre @ mid' @ post)"
proof -
  have "tiles m t a pre" "tiles m z e post"
    using assms(1) unfolding tiles_append a_def z_def by auto
  then have "tiles m' t a pre" "tiles m' z e post"
    using same by (auto elim!: tiles_agree)
  then show ?thesis
    using mid' tiles_advance [OF mid'] unfolding tiles_append by (simp flip: a_def)
qed

text \<open>The block and, when it is free, the block behind it become one free block.\<close>

definition freed_block :: "u32 \<Rightarrow> u32 \<Rightarrow> bool \<Rightarrow> (u32 \<times> bool) list" where
  "freed_block n k u = (if u then [(n, False), (k, u)] else [(n + (k + 8), False)])"

lemma goto_range_start:
  assumes "heap_header m r e" and "8 \<le> unat r" and "unat r + 16 \<le> unat e"
  shows "goto_first_free_tag m r (range_start m r) = goto_first_free_tag m r (r + 16)"
proof -
  have "unat (r - 8) = unat r - 8"
    using assms(2) by (subst unat_sub_le) (simp_all add: word_le_nat_alt)
  then have "r - 8 < e" using assms(3) by (simp add: word_less_nat_alt)
  moreover have "get_next_heap_tag m (r - 8) = r + 16"
    using assms(1) by (simp add: get_next_heap_tag_def heap_header_def heap_sizes)
  ultimately show ?thesis
    using assms(1) by (subst goto_first_free_tag.simps) (simp add: heap_header_def)
qed

lemma goto_from_start:
  assumes "heap_header m r e" and "8 \<le> unat r" and "unat r + 16 \<le> unat e" and "tiles m (r + 16) e bs"
  shows "goto_first_free_tag m r (range_start m r) = Some (case first_fit (r + 16) 0 bs of Some a \<Rightarrow> a
    | None \<Rightarrow> if tag_used m e then NULL else e)"
proof -
  have "range_end m r = e" using assms(1) by (simp add: heap_header_def)
  from goto_first_free_tiles [OF this assms(4)] show ?thesis
    unfolding goto_range_start [OF assms(1-3)] .
qed

text \<open>Clearing the tag of a used block, and merging the next block into it when that is free.\<close>

lemma merged_block:
  assumes tiles: "tiles m t e (pre @ [(n, True), (k, u)] @ post)"
  defines "a \<equiv> advance t pre" and "m1 \<equiv> set_tag_used m (advance t pre) False"
  defines "m2 \<equiv> (if u then m1 else set_tag_size m1 a (n + (k + 8)))"
  shows "tiles m2 t e (pre @ freed_block n k u @ post)"
    and "(if \<not> tag_used m1 (get_next_heap_tag m1 a)
      then set_tag_size m1 a (tag_size m1 a + (tag_size m1 (get_next_heap_tag m1 a) + 8)) else m1) = m2"
proof -
  have blk: "tiles m a e ((n, True) # (k, u) # post)"
    using tiles unfolding tiles_append [of _ _ _ pre] by (simp add: a_def)
  note na = tiles_next [OF blk]
  have blk2: "tiles m (a + 8 + n) e ((k, u) # post)" using blk by simp
  note nb = tiles_next [OF blk2]
  have e: "unat e \<le> 4294967295" using unat_lt_2p32 [of e] by simp
  have fits: "unat a + 8 + unat n + 8 + unat k \<le> unat e" using blk2 na(4) by simp
  have win: "x - a < 8 \<longleftrightarrow> unat a \<le> unat x \<and> unat x < unat a + 8" for x
    using fits e in_window [of a 8 x] by simp
  have same: "m1 x = m x" "m2 x = m x" if "\<not> x - a < 8" for x
    using set_tag_frame [of x a] that by (simp_all add: m1_def m2_def a_def)
  have tags1: "tag_size m1 a = n" "\<not> tag_used m1 a" using blk by (simp_all add: m1_def a_def)
  have "tiles m1 (a + 8 + n) e ((k, u) # post)"
    by (rule tiles_agree [OF blk2]) (use same(1) win na(4) in simp)
  then have tags2: "tag_size m1 (a + 8 + n) = k" "tag_used m1 (a + 8 + n) = u" by simp_all
  have z: "advance (advance t pre) [(n, True), (k, u)] = a + 8 + n + 8 + k" by (simp add: a_def)
  have uz: "unat (a + 8 + n + 8 + k) = unat a + 8 + unat n + 8 + unat k" using nb(4) na(4) by simp
  have nk: "unat (n + (k + 8)) = unat n + unat k + 8"
    using fits e by (subst unat_add_small; subst unat_add_small) simp_all
  show "tiles m2 t e (pre @ freed_block n k u @ post)"
  proof (rule tiles_update [OF tiles, unfolded z, folded a_def])
    show "m2 x = m x" if "\<not> (unat a \<le> unat x \<and> unat x < unat (a + 8 + n + 8 + k))" for x
      using that win uz by (intro same(2)) auto
    show "tiles m2 a (a + 8 + n + 8 + k) (freed_block n k u)"
      using tags1 tags2 uz na(4) nk by (cases u) (simp_all add: m2_def freed_block_def algebra_simps)
  qed
  have "get_next_heap_tag m1 a = a + 8 + n" by (simp add: get_next_heap_tag_def heap_sizes tags1)
  then show "(if \<not> tag_used m1 (get_next_heap_tag m1 a)
      then set_tag_size m1 a (tag_size m1 a + (tag_size m1 (get_next_heap_tag m1 a) + 8)) else m1) = m2"
    by (simp add: m2_def tags1 tags2)
qed

lemma find_range_of_heap:
  assumes "heap_header m r e" and "8 \<le> unat r" and "unat r \<le> unat p" and "unat p < unat e" and "r \<noteq> NULL"
  shows "find_range_of m p r = Some r"
proof -
  have "unat (r - 8) = unat r - 8"
    using assms(2) by (subst unat_sub_le) (simp_all add: word_le_nat_alt)
  then have "r - 8 \<le> p" "p < e" using assms(2-4) by (simp_all add: word_le_nat_alt word_less_nat_alt)
  then show ?thesis using assms(1,5) by (subst find_range_of.simps) (simp add: heap_header_def)
qed

text \<open>The call that frees the block at \<open>a\<close>, once the list that results from the two tags is known.\<close>

lemma kfree_tiles:
  assumes ok: "heap_ok (hmem s) (heap_ranges s) e (pre @ (n, True) # post)"
  defines "r \<equiv> heap_ranges s" and "a \<equiv> advance (heap_ranges s + 16) pre"
  assumes inside: "post \<noteq> [] \<or> n \<noteq> 0"
    and step: "(let m1 = set_tag_used (hmem s) a False; b = get_next_heap_tag m1 a in
      if \<not> tag_used m1 b then set_tag_size m1 a (tag_size m1 a + (tag_size m1 b + 8)) else m1) = m2"
    and same: "\<And>x. \<not> x - a < 8 \<Longrightarrow> m2 x = hmem s x"
  shows "heap_header m2 r e" and "unat r + 16 \<le> unat a" and "unat a + 8 + unat n \<le> unat e"
    and "goto_first_free_tag m2 r (range_start m2 r) = Some g \<Longrightarrow>
      kfree (a + 8) s = Some (s\<lparr>hmem := set_range_first_free m2 r g\<rparr>)"
    and "tiles m2 (r + 16) e bs' \<Longrightarrow> \<exists>g. kfree (a + 8) s = Some (s\<lparr>hmem := set_range_first_free m2 r g\<rparr>) \<and>
      heap_ok (set_range_first_free m2 r g) r e bs'"
proof -
  let ?m = "hmem s"
  have r: "8 \<le> unat r" "unat r + 16 \<le> unat e" and hd: "heap_header ?m r e"
    and tiles: "tiles ?m (r + 16) e (pre @ (n, True) # post)"
    using ok by (simp_all add: heap_ok_def r_def)
  have pre: "tiles ?m (r + 16) a pre" and blk: "tiles ?m a e ((n, True) # post)"
    using tiles unfolding tiles_append [of _ _ _ pre] by (simp_all add: a_def r_def)
  have e: "unat e \<le> 4294967295" using unat_lt_2p32 [of e] by simp
  show fits: "unat a + 8 + unat n \<le> unat e" using blk by simp
  show ra: "unat r + 16 \<le> unat a" using tiles_le [OF pre] heap_base [OF ok] by (simp add: r_def)
  have "m2 x = ?m x" if "unat x < unat r + 16" for x
    using that ra fits e in_window [of a 8 x] by (intro same) simp
  then show hd2: "heap_header m2 r e" by (rule header_agree(1) [OF hd r])
  have call: "kfree (a + 8) s = Some (s\<lparr>hmem := set_range_first_free m2 r g\<rparr>)"
    if g: "goto_first_free_tag m2 r (range_start m2 r) = Some g" for g
  proof -
    have "find_range_of ?m (a + 8) r = Some r"
    proof -
      have lt: "unat a + 8 < unat e"
        using inside fits blk tiles_next(1) [of ?m "a + 8 + n" e] block_end [OF fits]
        by (cases post) (auto simp: unat_gt_0 word_less_nat_alt)
      then have "unat (a + 8) = unat a + 8" using e by (subst unat_add_small) simp_all
      then show ?thesis
        using ra lt heap_base(2) [OF ok] by (intro find_range_of_heap [OF hd r(1)]) (simp_all add: r_def)
    qed
    moreover have ab: "a + 8 - 8 = a" by simp
    ultimately show ?thesis
      unfolding kfree_def heap_sizes Let_def ab using heap_base(2) [OF ok]
      by (simp only: Option.bind.bind_lunit if_False flip: r_def)
        (simp only: step [unfolded Let_def] g option.map)
  qed
  then show "goto_first_free_tag m2 r (range_start m2 r) = Some g \<Longrightarrow>
      kfree (a + 8) s = Some (s\<lparr>hmem := set_range_first_free m2 r g\<rparr>)" .
  show "\<exists>g. kfree (a + 8) s = Some (s\<lparr>hmem := set_range_first_free m2 r g\<rparr>) \<and>
      heap_ok (set_range_first_free m2 r g) r e bs'" if "tiles m2 (r + 16) e bs'"
  proof -
    note go = goto_from_start [OF hd2 r that]
    show ?thesis
      by (intro exI conjI, rule call [OF go], rule heap_ok_renew [OF r hd2 that])
        (simp split: option.split)
  qed
qed

lemma kfree_inner:
  assumes ok: "heap_ok (hmem s) (heap_ranges s) e (pre @ (n, True) # (k, u) # post)"
  defines "r \<equiv> heap_ranges s" and "a \<equiv> advance (heap_ranges s + 16) pre"
  shows "\<exists>m'. kfree (a + 8) s = Some (s\<lparr>hmem := m'\<rparr>) \<and>
    heap_ok m' r e (pre @ freed_block n k u @ post) \<and>
    (\<forall>x. \<not> x - a < 8 \<longrightarrow> \<not> x - (r + 8) < 4 \<longrightarrow> m' x = hmem s x)"
proof -
  have tiles: "tiles (hmem s) (r + 16) e (pre @ [(n, True), (k, u)] @ post)"
    using ok by (simp add: heap_ok_def r_def)
  define m1 where "m1 = set_tag_used (hmem s) a False"
  define m2 where "m2 = (if u then m1 else set_tag_size m1 a (n + (k + 8)))"
  note merged = merged_block [OF tiles, folded a_def [folded r_def], folded m1_def, folded m2_def]
  have same: "m2 x = hmem s x" if "\<not> x - a < 8" for x
    using set_tag_frame [OF that] by (simp add: m1_def m2_def)
  have step: "(let m1 = set_tag_used (hmem s) a False; b = get_next_heap_tag m1 a in
      if \<not> tag_used m1 b then set_tag_size m1 a (tag_size m1 a + (tag_size m1 b + 8)) else m1) = m2"
    unfolding Let_def by (fold m1_def) (rule merged(2))
  obtain g where "kfree (a + 8) s = Some (s\<lparr>hmem := set_range_first_free m2 r g\<rparr>)"
    "heap_ok (set_range_first_free m2 r g) r e (pre @ freed_block n k u @ post)"
    using kfree_tiles(5) [OF ok _ step [unfolded a_def] same [unfolded a_def] merged(1) [unfolded r_def]]
    unfolding r_def a_def by blast
  then show ?thesis using same set_first_free_frame [of _ r m2 g] by auto
qed

text \<open>
  The last block: the code takes what lies at the end of the range for the next tag. When that
  reads as used the block becomes free and nothing else happens.
\<close>

lemma last_block:
  assumes tiles: "tiles m t e (pre @ [(n, True)])"
  defines "a \<equiv> advance t pre" and "m1 \<equiv> set_tag_used m (advance t pre) False"
  assumes low: "8 \<le> unat a"
  shows "tiles m1 t e (pre @ [(n, False)])" and "get_next_heap_tag m1 a = e" and "tag_size m1 a = n"
    and "tag_used m1 e = tag_used m e" and "tag_size m1 e = tag_size m e"
proof -
  have blk: "tiles m a e [(n, True)]" using tiles unfolding tiles_append a_def by simp
  note na = tiles_next [OF blk]
  have ae: "a + 8 + n = e" using blk by simp
  have e: "unat e \<le> 4294967295" using unat_lt_2p32 [of e] by simp
  have fits: "unat a + 8 + unat n = unat e" using na(4) ae by simp
  have tags: "tag_size m1 a = n" "\<not> tag_used m1 a" using blk by (simp_all add: m1_def a_def)
  then show "tag_size m1 a = n" "get_next_heap_tag m1 a = e"
    using ae by (simp_all add: get_next_heap_tag_def heap_sizes ac_simps)
  have win: "x - a < 8 \<longleftrightarrow> unat a \<le> unat x \<and> unat x < unat a + 8" for x
    using fits e in_window [of a 8 x] by simp
  have same: "m1 x = m x" if "\<not> x - a < 8" for x
    using set_tag_frame [of x a] that by (simp add: m1_def a_def)
  have "\<not> x - a < 8" if x: "x - e < 8" for x
  proof (cases "e \<le> x")
    case True
    then show ?thesis using win fits by (simp add: word_le_nat_alt)
  next
    case False
    then have "unat (x - e) = 4294967296 + unat x - unat e"
      by (simp add: unat_sub_if_size word_size word_le_nat_alt)
    then have "unat x < 8" using x e by (simp add: word_less_nat_alt)
    then show ?thesis using win low by simp
  qed
  then show "tag_used m1 e = tag_used m e" "tag_size m1 e = tag_size m e"
    using tag_agree [of e m1 m] same by simp_all
  show "tiles m1 t e (pre @ [(n, False)])"
  proof (rule tiles_update [of m t e pre "[(n, True)]" "[]", simplified, OF tiles, folded a_def, unfolded ae])
    show "m1 x = m x" if "unat a \<le> unat x \<longrightarrow> \<not> unat x < unat e" for x
      using that win fits by (intro same) auto
    show "tiles m1 a e [(n, False)]" using tags ae fits by simp
  qed
qed

lemma kfree_last_used:
  assumes ok: "heap_ok (hmem s) (heap_ranges s) e (pre @ [(n, True)])" and "n \<noteq> 0"
    and used: "tag_used (hmem s) e"
  defines "r \<equiv> heap_ranges s" and "a \<equiv> advance (heap_ranges s + 16) pre"
  shows "\<exists>m'. kfree (a + 8) s = Some (s\<lparr>hmem := m'\<rparr>) \<and> heap_ok m' r e (pre @ [(n, False)]) \<and>
    (\<forall>x. \<not> x - a < 8 \<longrightarrow> \<not> x - (r + 8) < 4 \<longrightarrow> m' x = hmem s x)"
proof -
  have tiles: "tiles (hmem s) (r + 16) e (pre @ [(n, True)])" using ok by (simp add: heap_ok_def r_def)
  have "tiles (hmem s) (r + 16) a pre" using tiles unfolding tiles_append [of _ _ _ pre] a_def r_def by simp
  then have "8 \<le> unat a" using tiles_le heap_base(1) [OF ok] unfolding r_def by fastforce
  note last = last_block [OF tiles, folded r_def a_def, folded a_def [folded r_def], OF this]
  let ?m2 = "set_tag_used (hmem s) a False"
  have step: "(let m1 = set_tag_used (hmem s) a False; b = get_next_heap_tag m1 a in
      if \<not> tag_used m1 b then set_tag_size m1 a (tag_size m1 a + (tag_size m1 b + 8)) else m1) = ?m2"
    using last used by (simp add: Let_def)
  have same: "?m2 x = hmem s x" if "\<not> x - a < 8" for x using set_tag_frame [OF that] by simp
  obtain g where "kfree (a + 8) s = Some (s\<lparr>hmem := set_range_first_free ?m2 r g\<rparr>)"
    "heap_ok (set_range_first_free ?m2 r g) r e (pre @ [(n, False)])"
    using kfree_tiles(5) [OF ok _ step [unfolded a_def] same [unfolded a_def]] last(1) assms(2)
    unfolding r_def a_def by blast
  then show ?thesis using same set_first_free_frame [of _ r ?m2 g] by auto
qed

text \<open>When it reads as free, the block takes in what that word claims to be the size of the next.\<close>

lemma goto_first_free_prefix:
  assumes "range_end m r = e" and "tiles m t z bs" and "z < e" and "\<not> tag_used m z"
  shows "goto_first_free_tag m r t = Some (case first_fit t 0 bs of Some a \<Rightarrow> a | None \<Rightarrow> z)"
  using assms(2)
proof (induction bs arbitrary: t)
  case Nil
  then show ?case using assms by (simp add: goto_first_free_tag.simps)
next
  case (Cons b bs)
  obtain n u where b: "b = (n, u)" by fastforce
  note nx = tiles_next [OF Cons.prems(1) [unfolded b]]
  have "tag_used m t = u" "tiles m (t + 8 + n) z bs"
    using Cons.prems(1) by (simp_all add: b)
  moreover have "t < e" using nx(1) assms(3) by simp
  ultimately show ?case
    using nx Cons.IH [of "t + 8 + n"] assms(1)
    by (subst goto_first_free_tag.simps) (simp add: b)
qed

lemma tiles_prefix:
  "tiles m t z pre \<Longrightarrow> tiles m t e bs \<Longrightarrow> unat z < unat e \<Longrightarrow>
     \<exists>b post. bs = pre @ b # post \<and> tiles m z e (b # post)"
proof (induction m t z pre arbitrary: bs rule: tiles.induct)
  case (1 m t e')
  then show ?case by (cases bs) auto
next
  case (2 m t z n u pre)
  show ?case
  proof (cases bs)
    case Nil
    then show ?thesis using 2 tiles_le [OF "2.prems"(1)] by simp
  next
    case (Cons b bs')
    then have b: "b = (n, u)" using 2 by (cases b) simp
    then show ?thesis using 2 Cons by auto
  qed
qed

lemma kfree_last_free:
  assumes ok: "heap_ok (hmem s) (heap_ranges s) e (pre @ [(n, True)])" and "n \<noteq> 0"
    and free: "\<not> tag_used (hmem s) e"
  defines "r \<equiv> heap_ranges s" and "a \<equiv> advance (heap_ranges s + 16) pre"
  shows "\<exists>m'. kfree (a + 8) s = Some (s\<lparr>hmem := m'\<rparr>) \<and>
    \<not> tag_used m' a \<and> tag_size m' a = n + (tag_size (hmem s) e + 8) \<and>
    (unat n + unat (tag_size (hmem s) e) + 8 < 4294967296 \<longrightarrow> \<not> (\<exists>bs. heap_ok m' r e bs)) \<and>
    (\<forall>x. \<not> x - a < 8 \<longrightarrow> \<not> x - (r + 8) < 4 \<longrightarrow> m' x = hmem s x)"
proof -
  let ?m = "hmem s" and ?size = "n + (tag_size (hmem s) e + 8)"
  have tiles: "tiles ?m (r + 16) e (pre @ [(n, True)])" using ok by (simp add: heap_ok_def r_def)
  then have pre: "tiles ?m (r + 16) a pre" and blk: "tiles ?m a e [(n, True)]"
    unfolding tiles_append [of _ _ _ pre] a_def r_def by simp_all
  have low: "unat r + 16 \<le> unat a" using tiles_le [OF pre] heap_base(1) [OF ok] by (simp add: r_def)
  then have "8 \<le> unat a" by simp
  note last = last_block [OF tiles, folded r_def a_def, folded a_def [folded r_def], OF this]
  define m2 where "m2 = set_tag_size (set_tag_used ?m a False) a ?size"
  have step: "(let m1 = set_tag_used ?m a False; b = get_next_heap_tag m1 a in
      if \<not> tag_used m1 b then set_tag_size m1 a (tag_size m1 a + (tag_size m1 b + 8)) else m1) = m2"
    using last free by (simp add: Let_def m2_def)
  have same: "m2 x = ?m x" if "\<not> x - a < 8" for x using set_tag_frame [OF that] by (simp add: m2_def)
  note call = kfree_tiles [OF ok _ step [unfolded a_def] same [unfolded a_def], folded r_def, folded a_def [folded r_def]]
  have n: "[] \<noteq> [] \<or> n \<noteq> 0" using assms(2) by simp
  have hd: "heap_header m2 r e" and fits: "unat a + 8 + unat n \<le> unat e"
    using call(1,3) [OF n] by (simp_all add: a_def r_def)
  have e: "unat e \<le> 4294967295" using unat_lt_2p32 [of e] by simp
  have pre2: "tiles m2 (r + 16) a pre"
    by (rule tiles_agree [OF pre]) (use fits e in_window [of a 8] in \<open>intro same; simp\<close>)
  have tags: "\<not> tag_used m2 a" "tag_size m2 a = ?size" by (simp_all add: m2_def)
  have ae: "a < e" using fits by (simp add: word_less_nat_alt)
  have ok_r: "8 \<le> unat r" "unat r + 16 \<le> unat e" using ok by (simp_all add: heap_ok_def r_def)
  define g where "g = (case first_fit (r + 16) 0 pre of Some b \<Rightarrow> b | None \<Rightarrow> a)"
  have "range_end m2 r = e" using hd by (simp add: heap_header_def)
  from goto_first_free_prefix [OF this pre2 ae tags(1)]
  have "goto_first_free_tag m2 r (range_start m2 r) = Some g"
    unfolding g_def goto_range_start [OF hd ok_r] .
  then have run: "kfree (a + 8) s = Some (s\<lparr>hmem := set_range_first_free m2 r g\<rparr>)"
    using call(4) [OF n] unfolding a_def r_def by blast
  let ?m' = "set_range_first_free m2 r g"
  have "unat (r + 8) = unat r + 8" using ok_r e by (subst unat_add_small) simp_all
  then have keep: "?m' x = m2 x" if "unat r + 16 \<le> unat x" for x
    using that ok_r e in_window [of "r + 8" 4 x] by (intro set_first_free_frame) simp
  have "?m' x = m2 x" if "x - a < 8" for x
    using that fits e low in_window [of a 8 x] by (intro keep) simp
  note tag = tag_agree [of a ?m' m2, OF this]
  have pre': "tiles ?m' (r + 16) a pre"
    by (rule tiles_agree [OF pre2]) (use keep heap_base(1) [OF ok] in \<open>simp add: r_def\<close>)
  have "\<not> heap_ok ?m' r e bs" if small: "unat n + unat (tag_size ?m e) + 8 < 4294967296" for bs
  proof
    assume "heap_ok ?m' r e bs"
    then have "tiles ?m' (r + 16) e bs" by (simp add: heap_ok_def)
    from tiles_prefix [OF pre' this] obtain b post where "tiles ?m' a e (b # post)"
      using ae by (auto simp: word_less_nat_alt)
    then have "unat a + 8 + unat ?size \<le> unat e" using tag tags by (cases b) simp
    moreover have "unat ?size = unat n + unat (tag_size ?m e) + 8"
      using small by (subst unat_add_small; subst unat_add_small) simp_all
    moreover have "unat e = unat a + 8 + unat n"
    proof -
      have "a + 8 + n = e" using blk by simp
      then show ?thesis using block_end [OF fits] by simp
    qed
    ultimately show False by simp
  qed
  then show ?thesis
    using run tag tags same set_first_free_frame [of _ r m2 g] by (intro exI [of _ ?m']) auto
qed

text \<open>Every case of a freed block that \<open>kfree\<close> handles as it should.\<close>

definition freed :: "u32 \<Rightarrow> (u32 \<times> bool) list \<Rightarrow> (u32 \<times> bool) list" where
  "freed n post = (case post of [] \<Rightarrow> [(n, False)] | (k, u) # rest \<Rightarrow> freed_block n k u @ rest)"

lemma kfree_block:
  assumes "heap_ok (hmem s) (heap_ranges s) e (pre @ (n, True) # post)"
    and "post = [] \<Longrightarrow> n \<noteq> 0 \<and> tag_used (hmem s) e"
  shows "\<exists>m'. kfree (advance (heap_ranges s + 16) pre + 8) s = Some (s\<lparr>hmem := m'\<rparr>) \<and>
    heap_ok m' (heap_ranges s) e (pre @ freed n post) \<and>
    (\<forall>x. \<not> x - advance (heap_ranges s + 16) pre < 8 \<longrightarrow> \<not> x - (heap_ranges s + 8) < 4 \<longrightarrow>
      m' x = hmem s x)"
proof (cases post)
  case Nil
  then show ?thesis using kfree_last_used [of s e pre n] assms by (simp add: freed_def)
next
  case (Cons b rest)
  then show ?thesis using kfree_inner [of s e pre n "fst b" "snd b" rest] assms(1) by (cases b) (simp add: freed_def)
qed

text \<open>A last block without data starts at the range's end, so the range is not found.\<close>

lemma kfree_last_empty:
  assumes ok: "heap_ok (hmem s) (heap_ranges s) e (pre @ [(0, True)])"
  shows "kfree (advance (heap_ranges s + 16) pre + 8) s = Some s"
proof -
  have "tiles (hmem s) (heap_ranges s + 16) e (pre @ [(0, True)])" and hd: "heap_header (hmem s) (heap_ranges s) e"
    using ok by (simp_all add: heap_ok_def)
  then have "advance (heap_ranges s + 16) pre + 8 = e" unfolding tiles_append by simp
  then have "find_range_of (hmem s) (advance (heap_ranges s + 16) pre + 8) (heap_ranges s) = Some NULL"
    using hd heap_base(2) [OF ok]
    by (simp add: find_range_of.simps [of _ _ "heap_ranges s"] find_range_of.simps [of _ _ NULL] heap_header_def)
  then show ?thesis by (simp add: kfree_def)
qed

subsection \<open>Growing the range\<close>

lemma set_end_frame: "\<not> x - (r + 4) < 4 \<Longrightarrow> set_range_end m r v x = m x"
  unfolding set_range_end_def by (rule write32_other) auto

lemma set_end_header:
  assumes "heap_header m r e" and "8 \<le> unat r" and "unat r + 16 \<le> unat e"
  shows "heap_header (set_range_end m r e') r e'"
proof -
  have e: "unat e \<le> 4294967295" using unat_lt_2p32 [of e] by simp
  have "unat (r - 8) = unat r - 8"
    using assms(2) by (subst unat_sub_le) (simp_all add: word_le_nat_alt)
  moreover have "unat (r + 4) = unat r + 4" using assms(3) e by (subst unat_add_small) simp_all
  ultimately have "\<not> x - (r + 4) < 4" if "x - (r - 8) < 8" for x
    using that assms(2,3) e in_window [of "r - 8" 8 x] in_window [of "r + 4" 4 x] by simp
  note tag = tag_agree [of "r - 8" "set_range_end m r e'" m, OF set_end_frame [OF this]]
  have "apart32 (r + 4) r" "apart32 (r + 4) (r + 12)"
    by (simp_all add: apart32_def)
  then show ?thesis
    using assms(1) tag
    by (simp add: heap_header_def range_start_def range_end_def range_next_def
        set_range_end_def read32_write32_other)
qed

text \<open>
  Two more pages behind the range: the block asked for is taken at their start, and what is left of
  them becomes a free block.
\<close>

lemma extend_range_heap:
  assumes ok: "heap_ok (hmem s) r e bs" and fits: "unat e + 8192 \<le> 4294967295" and req: "req \<le> 8184"
  shows "\<exists>m'. extend_range req r s = Some (e, s\<lparr>hmem := m'\<rparr>) \<and>
    heap_ok m' r (e + 8192) (bs @ split_block req 8184) \<and>
    (\<forall>x. \<not> x - e < 8192 \<longrightarrow> \<not> x - (r + 4) < 8 \<longrightarrow> m' x = hmem s x)"
proof -
  let ?e = "e + 8192" and ?m = "hmem s"
  let ?m1 = "set_range_end ?m r ?e"
  let ?m2 = "init_heap_alloc_entry ?m1 e req 8184"
  have r: "8 \<le> unat r" "unat r + 16 \<le> unat e" and hd: "heap_header ?m r e" and tiles: "tiles ?m (r + 16) e bs"
    using ok by (simp_all add: heap_ok_def)
  have ue: "unat ?e = unat e + 8192" using fits by (subst unat_add_small) simp_all
  have "unat req \<le> 8184" using req by (simp add: word_le_nat_alt)
  then have init: "tiles ?m2 e ?e (split_block req 8184)" "\<not> x - e < 8192 \<Longrightarrow> ?m2 x = ?m1 x" for x
    using init_entry_block [where a = e and n = 8184 and e = ?e and req = req and m = ?m1] ue req
    by (simp_all add: add.assoc)
  have win: "x - e < 8192 \<longleftrightarrow> unat e \<le> unat x \<and> unat x < unat e + 8192" for x
    using fits in_window [of e 8192 x] by simp
  have r4: "unat (r + 4) = unat r + 4" "unat (r + 8) = unat r + 8"
    using r fits by (subst unat_add_small; simp)+
  have low: "?m2 x = ?m1 x" if "unat x < unat r + 16" for x
    using that r win by (intro init(2)) simp
  have "heap_header ?m1 r ?e" by (rule set_end_header [OF hd r])
  from header_agree(1) [OF this r(1) _ low] have hd2: "heap_header ?m2 r ?e" using r ue by simp
  have "?m2 x = ?m x" if "unat (r + 16) \<le> unat x" "unat x < unat e" for x
  proof -
    have "?m2 x = ?m1 x" using that win by (intro init(2)) simp
    also have "\<dots> = ?m x"
      using that heap_base(1) [OF ok] r4 r fits in_window [of "r + 4" 4 x] by (intro set_end_frame) simp
    finally show ?thesis .
  qed
  then have "tiles ?m2 (r + 16) e bs" by (rule tiles_agree [OF tiles])
  then have tiles2: "tiles ?m2 (r + 16) ?e (bs @ split_block req 8184)"
    using init(1) tiles_advance [OF tiles] by (simp add: tiles_append)
  have re: "8 \<le> unat r" "unat r + 16 \<le> unat ?e" using r ue by simp_all
  define g where "g = (case first_fit (r + 16) 0 (bs @ split_block req 8184) of Some a \<Rightarrow> a
    | None \<Rightarrow> if tag_used ?m2 ?e then NULL else ?e)"
  have go: "goto_first_free_tag ?m2 r (range_start ?m2 r) = Some g"
    unfolding g_def by (rule goto_from_start [OF hd2 re tiles2])
  have "range_start ?m2 r = range_start ?m1 r"
    using hd2 \<open>heap_header ?m1 r ?e\<close> by (simp add: heap_header_def)
  moreover have "range_end ?m r = e" using hd by (simp add: heap_header_def)
  ultimately have "extend_range req r s = Some (e, s\<lparr>hmem := set_range_first_free ?m2 r g\<rparr>)"
    using go by (simp add: extend_range_def NUM_PAGES_REQUESTED_WHEN_FULL_def PAGE_SIZE_def heap_sizes Let_def)
  moreover have "heap_ok (set_range_first_free ?m2 r g) r ?e (bs @ split_block req 8184)"
    by (rule heap_ok_renew [OF re hd2 tiles2]) (simp add: g_def split: option.split)
  moreover have "set_range_first_free ?m2 r g x = ?m x" if "\<not> x - e < 8192" "\<not> x - (r + 4) < 8" for x
  proof -
    have "\<not> x - (r + 8) < 4" "\<not> x - (r + 4) < 4"
      using that(2) r4 r fits in_window [of "r + 4" 8 x] in_window [of "r + 4" 4 x] in_window [of "r + 8" 4 x]
      by auto
    then show ?thesis using init(2) [OF that(1)] by (simp add: set_first_free_frame set_end_frame)
  qed
  ultimately show ?thesis by blast
qed

lemma kmalloc_grows:
  assumes ok: "heap_ok (hmem s) (heap_ranges s) e bs" and none: "first_fit (heap_ranges s + 16) req bs = None"
    and more: "request_more (heap_ranges s - 8) 8192 s = Some (res, s1)" "res \<noteq> NULL"
    and same: "heap_ranges s1 = heap_ranges s" and ok1: "heap_ok (hmem s1) (heap_ranges s) e bs"
    and fits: "unat e + 8192 \<le> 4294967295" and req: "req \<le> 8184"
  shows "\<exists>m'. kmalloc request_more vm req s = Some (e + 8, s1\<lparr>hmem := m'\<rparr>) \<and>
    heap_ok m' (heap_ranges s) (e + 8192) (bs @ split_block req 8184) \<and>
    (\<forall>x. \<not> x - e < 8192 \<longrightarrow> \<not> x - (heap_ranges s + 4) < 8 \<longrightarrow> m' x = hmem s1 x)"
proof -
  have "range_start (hmem s) (heap_ranges s) = heap_ranges s - 8"
    using ok by (simp add: heap_ok_def heap_header_def)
  moreover obtain m' where m': "extend_range req (heap_ranges s) s1 = Some (e, s1\<lparr>hmem := m'\<rparr>)"
    "heap_ok m' (heap_ranges s) (e + 8192) (bs @ split_block req 8184)"
    "\<forall>x. \<not> x - e < 8192 \<longrightarrow> \<not> x - (heap_ranges s + 4) < 8 \<longrightarrow> m' x = hmem s1 x"
    using extend_range_heap [OF ok1 fits req] by blast
  ultimately have "kmalloc request_more vm req s = Some (e + 8, s1\<lparr>hmem := m'\<rparr>)"
    using find_first_fit_none [OF ok none] heap_base(2) [OF ok] more
    by (simp add: kmalloc_def get_more_mem_def extend_ranges.simps NUM_PAGES_REQUESTED_WHEN_FULL_def
        PAGE_SIZE_def heap_sizes Let_def)
  then show ?thesis using m' by blast
qed

subsection \<open>Setting up\<close>

lemma init_new_heap_range_ok:
  assumes fits: "unat start + 81920 \<le> 4294967295"
  shows "\<exists>m'. init_new_heap_range m NULL start (start + HEAP_SIZE) = Some (start + 8, m') \<and>
    heap_ok m' (start + 8) (start + HEAP_SIZE) [(81888, False)]"
proof -
  have H: "HEAP_SIZE = 81920" by (simp add: HEAP_SIZE_def PAGE_SIZE_def)
  have e: "unat (start + 81920) = unat start + 81920" using fits by (subst unat_add_small) simp_all
  have r: "unat (start + 8) = unat start + 8" using fits by (subst unat_add_small) simp_all
  let ?r = "start + 8" and ?e = "start + 81920"
  let ?m1 = "init_heap_alloc_entry m start 16 81912"
  have "tiles ?m1 start (start + 8 + 81912) (split_block 16 81912)"
    using e by (intro init_entry_block(1) [where e = ?e]) simp_all
  then have t1: "tag_size ?m1 start = 16" "tag_used ?m1 start" "tiles ?m1 (?r + 16) ?e [(81888, False)]"
    by (simp_all add: split_block_def add.assoc)
  let ?m3 = "write32 (set_range_first_free (set_range_end (write32 ?m1 ?r start) ?r ?e) ?r (?r + 16)) (?r + 12) NULL"
  have "apart32 (?r + 12) ?r" "apart32 (?r + 12) (?r + 4)" "apart32 (?r + 12) (?r + 8)"
    "apart32 (?r + 8) ?r" "apart32 (?r + 8) (?r + 4)" "apart32 (?r + 4) ?r"
    by (simp_all add: apart32_def)
  note ap = this [THEN read32_write32_other]
  have fields: "range_start ?m3 ?r = start" "range_end ?m3 ?r = ?e" "range_next ?m3 ?r = NULL"
    "range_first_free ?m3 ?r = ?r + 16"
    by (simp_all only: range_start_def range_end_def range_next_def range_first_free_def
        set_range_end_def set_range_first_free_def ap read32_write32_same)
  have same: "?m3 x = ?m1 x" if "\<not> x - ?r < 16" for x
  proof -
    have "x \<noteq> ?r + k" if "k < 16" for k using \<open>\<not> x - ?r < 16\<close> that by auto
    from this [of 0] this [of 1] this [of 2] this [of 3] this [of 4] this [of 5] this [of 6] this [of 7]
      this [of 8] this [of 9] this [of 10] this [of 11] this [of 12] this [of 13] this [of 14] this [of 15]
    show ?thesis
      by (simp add: set_range_end_def set_range_first_free_def write32_def add.assoc)
  qed
  have win: "x - ?r < 16 \<longleftrightarrow> unat start + 8 \<le> unat x \<and> unat x < unat start + 24" for x
  proof -
    have "unat ?r + unat (16 :: u32) \<le> 4294967295" using r fits by simp
    from in_window [OF this, of x] show ?thesis unfolding r by auto
  qed
  have "?m3 x = ?m1 x" if "x - start < 8" for x
    using that win in_window [of start 8 x] fits by (intro same) simp
  note tag = tag_agree [of start ?m3 ?m1, OF this]
  have "unat (?r + 16) = unat start + 24" using fits r by (subst unat_add_small) simp_all
  then have tiles: "tiles ?m3 (?r + 16) ?e [(81888, False)]"
    using win by (intro tiles_agree [OF t1(3)] same) simp
  have "heap_ok ?m3 ?r ?e [(81888, False)]"
    using fields tiles tag t1 r e fits by (simp add: heap_ok_def heap_header_def)
  moreover have "init_new_heap_range m NULL start ?e = Some (?r, ?m3)"
    by (simp add: init_new_heap_range_def heap_sizes H Let_def walk_ranges.simps)
  ultimately show ?thesis unfolding H by blast
qed

subsection \<open>The interface of the heap\<close>

text \<open>
  What a client of the heap may rely on: live blocks do not overlap, an allocation yields a
  live block of at least the requested size, and it keeps the live blocks and their contents.
\<close>

locale block_heap =
  fixes alloc :: "'s \<Rightarrow> u32 \<Rightarrow> (u32 \<times> 's) option"
    and contents :: "'s \<Rightarrow> mem"
    and live :: "'s \<Rightarrow> u32 \<Rightarrow> u32 \<Rightarrow> bool"
    and ok :: "'s \<Rightarrow> bool"
  assumes live_apart: "ok s \<Longrightarrow> live s p n \<Longrightarrow> live s q k \<Longrightarrow> p \<noteq> q \<Longrightarrow> i < n \<Longrightarrow> j < k \<Longrightarrow>
      p + i \<noteq> q + j"
    and alloc_ok: "ok s \<Longrightarrow> alloc s req = Some (p, s') \<Longrightarrow> ok s'"
    and alloc_live: "ok s \<Longrightarrow> alloc s req = Some (p, s') \<Longrightarrow> \<exists>n. live s' p n \<and> req \<le> n"
    and alloc_keeps: "ok s \<Longrightarrow> alloc s req = Some (p, s') \<Longrightarrow> live s q k \<Longrightarrow>
      live s' q k \<and> q \<noteq> p \<and> (i < k \<longrightarrow> contents s' (q + i) = contents s (q + i))"
begin

lemma objects_apart:
  assumes "ok s" and "alloc s n = Some (p, s1)" and "alloc s1 k = Some (q, s2)"
    and "i < n" and "j < k"
  shows "p + i \<noteq> q + j"
proof -
  have ok1: "ok s1" using assms(1,2) by (rule alloc_ok)
  obtain pn where pn: "live s1 p pn" "n \<le> pn" using alloc_live [OF assms(1,2)] by blast
  obtain qk where qk: "live s2 q qk" "k \<le> qk" using alloc_live [OF ok1 assms(3)] by blast
  have p2: "live s2 p pn" "p \<noteq> q" using alloc_keeps [OF ok1 assms(3) pn(1)] by auto
  have "i < pn" using pn(2) assms(4) by (rule order.strict_trans2 [rotated])
  moreover have "j < qk" using qk(2) assms(5) by (rule order.strict_trans2 [rotated])
  ultimately show ?thesis
    using live_apart [OF alloc_ok [OF ok1 assms(3)] p2(1) qk(1) p2(2)] by blast
qed

lemma object_kept:
  assumes "ok s" and "alloc s n = Some (p, s1)" and "alloc s1 k = Some (q, s2)" and "i < n"
  shows "contents s2 (p + i) = contents s1 (p + i)"
proof -
  obtain pn where pn: "live s1 p pn" "n \<le> pn" using alloc_live [OF assms(1,2)] by blast
  have "i < pn" using pn(2) assms(4) by (rule order.strict_trans2 [rotated])
  then show ?thesis using alloc_keeps [OF alloc_ok [OF assms(1,2)] assms(3) pn(1)] by blast
qed

end

subsection \<open>kheap.c provides the interface\<close>

text \<open>\<open>kmalloc\<close> as long as the ranges suffice: a call into the virtual memory manager is \<open>None\<close>.\<close>

definition kmalloc_within :: "kheap \<Rightarrow> u32 \<Rightarrow> (u32 \<times> kheap) option" where
  "kmalloc_within s req = kmalloc (\<lambda>_ _ _. None) (\<lambda>_ _. None) req s"

definition heap_live :: "kheap \<Rightarrow> u32 \<Rightarrow> u32 \<Rightarrow> bool" where
  "heap_live s p n \<longleftrightarrow> (\<exists>e pre post.
     heap_ok (hmem s) (heap_ranges s) e (pre @ (n, True) # post) \<and>
     p = advance (heap_ranges s + 16) pre + 8)"

definition heap_valid :: "kheap \<Rightarrow> bool" where
  "heap_valid s \<longleftrightarrow> (\<exists>e bs. heap_ok (hmem s) (heap_ranges s) e bs)"

lemma tiles_unique: "tiles m t e bs \<Longrightarrow> tiles m t e bs' \<Longrightarrow> bs = bs'"
proof (induction bs arbitrary: t bs')
  case Nil
  then show ?case by (cases bs') auto
next
  case (Cons b bs)
  then show ?case by (cases b; cases bs') auto
qed

lemma heap_ok_unique: "heap_ok m r e bs \<Longrightarrow> heap_ok m r e' bs' \<Longrightarrow> e = e' \<and> bs = bs'"
  using tiles_unique [of m "r + 16" e bs bs'] by (auto simp: heap_ok_def heap_header_def)

lemma append_split_cases:
  assumes "xs @ x # ys = us @ u # vs"
  obtains "xs = us" "x = u" "ys = vs" | zs where "us = xs @ x # zs" "ys = zs @ u # vs"
  | zs where "xs = us @ u # zs" "vs = zs @ x # ys"
  using assms by (auto simp: append_eq_append_conv2 append_eq_Cons_conv Cons_eq_append_conv)

lemma block_fits:
  assumes "tiles m t e (pre @ (n, u) # post)"
  shows "unat (advance t pre) + 8 + unat n \<le> unat e"
    and "unat (advance t pre + 8) = unat (advance t pre) + 8"
proof -
  show *: "unat (advance t pre) + 8 + unat n \<le> unat e" using assms unfolding tiles_append by simp
  show "unat (advance t pre + 8) = unat (advance t pre) + 8"
    using * unat_lt_2p32 [of e] by (subst unat_add_small) simp_all
qed

lemma later_block:
  assumes "tiles m t e (pre @ (n, u) # mid @ (k, w) # post)"
  shows "unat (advance t pre) + 8 + unat n \<le> unat (advance t (pre @ (n, u) # mid))"
proof -
  have "tiles m t e ((pre @ (n, u) # mid) @ (k, w) # post)" using assms by simp
  then have "tiles m t (advance t (pre @ (n, u) # mid)) (pre @ (n, u) # mid)"
    by (simp only: tiles_append [of _ _ _ "pre @ (n, u) # mid"])
  from block_fits(1) [OF this] show ?thesis .
qed

text \<open>The data of a block lies between its tag and the next one.\<close>

lemma data_address:
  assumes "tiles m t e (pre @ (n, u) # post)" and "i < n"
  shows "unat (advance t pre + 8 + i) = unat (advance t pre) + 8 + unat i"
    and "unat (advance t pre + 8 + i) < unat (advance t pre) + 8 + unat n"
proof -
  note f = block_fits [OF assms(1)]
  have i: "unat i < unat n" using assms(2) by (simp add: word_less_nat_alt)
  show "unat (advance t pre + 8 + i) = unat (advance t pre) + 8 + unat i"
    using f i unat_lt_2p32 [of e] by (subst unat_add_small) simp_all
  then show "unat (advance t pre + 8 + i) < unat (advance t pre) + 8 + unat n" using i by simp
qed

lemma advance_split [simp]: "advance a (split_block req n) = a + 8 + n"
  by (simp add: split_block_def)

lemma blocks_apart:
  assumes tiles: "tiles m t e bs" and "bs = pre @ (n, u) # post" and "bs = pre' @ (k, w) # post'"
    and "advance t pre \<noteq> advance t pre'" and i: "i < n" and j: "j < k"
  shows "advance t pre + 8 + i \<noteq> advance t pre' + 8 + j"
proof -
  note d = data_address [OF tiles [unfolded assms(2)] i]
  note d' = data_address [OF tiles [unfolded assms(3)] j]
  from assms(2,3) have "pre @ (n, u) # post = pre' @ (k, w) # post'" by simp
  then show ?thesis
  proof (cases rule: append_split_cases)
    case 1
    then show ?thesis using assms(4) by simp
  next
    case (2 zs)
    then have "unat (advance t pre + 8 + i) < unat (advance t pre' + 8 + j)"
      using d d' later_block [of m t e pre n u zs k w post'] tiles assms(2) by simp
    then show ?thesis by (metis less_irrefl)
  next
    case (3 zs)
    then have "unat (advance t pre' + 8 + j) < unat (advance t pre + 8 + i)"
      using d d' later_block [of m t e pre' k w zs n u post] tiles assms(3) by simp
    then show ?thesis by (metis less_irrefl)
  qed
qed

lemma heap_live_apart:
  assumes "heap_live s p n" and "heap_live s q k" and "p \<noteq> q" and "i < n" and "j < k"
  shows "p + i \<noteq> q + j"
proof -
  obtain e pre post where p: "heap_ok (hmem s) (heap_ranges s) e (pre @ (n, True) # post)"
    "p = advance (heap_ranges s + 16) pre + 8"
    using assms(1) unfolding heap_live_def by blast
  obtain e' pre' post' where q: "heap_ok (hmem s) (heap_ranges s) e' (pre' @ (k, True) # post')"
    "q = advance (heap_ranges s + 16) pre' + 8"
    using assms(2) unfolding heap_live_def by blast
  have "tiles (hmem s) (heap_ranges s + 16) e (pre @ (n, True) # post)"
    using p(1) by (simp add: heap_ok_def)
  then show ?thesis
    using blocks_apart [of _ _ e _ pre n True post pre' k True post' i j] heap_ok_unique [OF p(1) q(1)]
      p(2) q(2) assms(3-5) by auto
qed

lemma kmalloc_within_cases:
  assumes ok: "heap_ok (hmem s) (heap_ranges s) e bs" and "kmalloc_within s req = Some (p, s')"
  obtains m' pre n post where "bs = pre @ (n, False) # post"
    "p = advance (heap_ranges s + 16) pre + 8" "req \<le> n" "s' = s\<lparr>hmem := m'\<rparr>"
    "heap_ok m' (heap_ranges s) e (pre @ split_block req n @ post)"
    "\<And>x. \<not> x - (p - 8) < 8 + n \<Longrightarrow> \<not> x - (heap_ranges s + 8) < 4 \<Longrightarrow> m' x = hmem s x"
proof (cases "first_fit (heap_ranges s + 16) req bs")
  case None
  then have "find_first_fit (hmem s) (heap_ranges s) req = Some (NULL, hmem s)"
    by (rule find_first_fit_none [OF ok])
  then have "kmalloc_within s req = None"
    using heap_base(2) [OF ok]
    by (simp add: kmalloc_within_def kmalloc_def get_more_mem_def extend_ranges.simps Let_def)
  then show ?thesis using assms(2) by simp
next
  case (Some a)
  obtain m' pre n post where r: "bs = pre @ (n, False) # post" "a = advance (heap_ranges s + 16) pre"
    "req \<le> n" "kmalloc (\<lambda>_ _ _. None) (\<lambda>_ _. None) req s = Some (a + 8, s\<lparr>hmem := m'\<rparr>)"
    "heap_ok m' (heap_ranges s) e (pre @ split_block req n @ post)"
    "\<forall>x. \<not> x - a < 8 + n \<longrightarrow> \<not> x - (heap_ranges s + 8) < 4 \<longrightarrow> m' x = hmem s x"
    using kmalloc_fits [OF ok Some] by blast
  have "p = a + 8" "s' = s\<lparr>hmem := m'\<rparr>"
    using assms(2) unfolding kmalloc_within_def r(4) by simp_all
  then show ?thesis using that [OF r(1) _ r(3) _ r(5)] r(2,6) by simp
qed

text \<open>A request that a block fits is answered alike whatever the memory manager would do.\<close>

lemma kmalloc_is_within:
  assumes ok: "heap_ok (hmem s) (heap_ranges s) e bs" and "first_fit (heap_ranges s + 16) req bs \<noteq> None"
  shows "kmalloc request_more vm req s = kmalloc_within s req"
proof -
  obtain a where a: "first_fit (heap_ranges s + 16) req bs = Some a" using assms(2) by blast
  have "tiles (hmem s) (heap_ranges s + 16) e bs" using ok by (simp add: heap_ok_def)
  then have "unat a \<noteq> 0" using tiles_first_fit_bounds [OF _ a] heap_base [OF ok] by fastforce
  then have "a \<noteq> NULL" by auto
  then have "find_first_fit (hmem s) (heap_ranges s) req =
      map_option (\<lambda>m. (a, m)) (take_entry (hmem s) (heap_ranges s) req a)"
    unfolding find_first_fit_def using scan_heap [OF ok, of req] a heap_base [OF ok]
    by (subst find_in_ranges.simps) simp
  then show ?thesis
    using \<open>a \<noteq> NULL\<close> unfolding kmalloc_within_def kmalloc_def
    by (cases "take_entry (hmem s) (heap_ranges s) req a") simp_all
qed

lemma kmalloc_within_live:
  assumes "heap_valid s" and "kmalloc_within s req = Some (p, s')"
  shows "heap_valid s'" and "\<exists>n. heap_live s' p n \<and> req \<le> n"
proof -
  obtain e bs where ok: "heap_ok (hmem s) (heap_ranges s) e bs"
    using assms(1) unfolding heap_valid_def by blast
  from ok assms(2) obtain m' pre n post where r: "p = advance (heap_ranges s + 16) pre + 8"
    "req \<le> n" "s' = s\<lparr>hmem := m'\<rparr>" "heap_ok m' (heap_ranges s) e (pre @ split_block req n @ post)"
    by (rule kmalloc_within_cases) blast
  show "heap_valid s'" unfolding heap_valid_def r(3) using r(4) by auto
  obtain k rest where "split_block req n = (k, True) # rest" "req \<le> k"
    using r(2) by (cases "req + 8 < n") (auto simp: split_block_def)
  then show "\<exists>n. heap_live s' p n \<and> req \<le> n"
    using r(4) unfolding heap_live_def r(1,3) by auto
qed

lemma kmalloc_within_keeps:
  assumes "heap_valid s" and call: "kmalloc_within s req = Some (p, s')" and live: "heap_live s q k"
  shows "heap_live s' q k \<and> q \<noteq> p \<and> (i < k \<longrightarrow> hmem s' (q + i) = hmem s (q + i))"
proof -
  obtain e pre2 post2 where ok: "heap_ok (hmem s) (heap_ranges s) e (pre2 @ (k, True) # post2)"
    and q: "q = advance (heap_ranges s + 16) pre2 + 8"
    using live unfolding heap_live_def by blast
  let ?t = "heap_ranges s + 16"
  have tiles: "tiles (hmem s) ?t e (pre2 @ (k, True) # post2)" using ok by (simp add: heap_ok_def)
  from ok call obtain m' pre n post where bs: "pre2 @ (k, True) # post2 = pre @ (n, False) # post"
    and r: "p = advance ?t pre + 8" "s' = s\<lparr>hmem := m'\<rparr>"
      "heap_ok m' (heap_ranges s) e (pre @ split_block req n @ post)"
    and same: "\<And>x. \<not> x - (p - 8) < 8 + n \<Longrightarrow> \<not> x - (heap_ranges s + 8) < 4 \<Longrightarrow> m' x = hmem s x"
    by (rule kmalloc_within_cases) blast
  let ?a = "advance ?t pre"
  note fits = block_fits [OF tiles [unfolded bs]]
  have e: "unat e \<le> 4294967295" using unat_lt_2p32 [of e] by simp
  have base: "unat ?t = unat (heap_ranges s) + 16" by (rule heap_base(1) [OF ok])
  have n8: "unat (8 + n) = 8 + unat n" using fits e by (subst unat_add_small) simp_all
  have win: "x - ?a < 8 + n \<longleftrightarrow> unat ?a \<le> unat x \<and> unat x < unat ?a + unat (8 + n)" for x
    using fits e n8 by (intro in_window) simp
  have "unat (heap_ranges s + 8) = unat (heap_ranges s) + 8"
    using base unat_lt_2p32 [of ?t] by (subst unat_add_small) simp_all
  then have hdr: "\<not> x - (heap_ranges s + 8) < 4" if "unat ?t \<le> unat x" for x
    using that base unat_lt_2p32 [of ?t] in_window [of "heap_ranges s + 8" 4 x] by simp
  have le: "unat ?t \<le> unat (advance ?t pre2)"
    using tiles unfolding tiles_append by (auto dest: tiles_le)
  have kept: "m' (q + i) = hmem s (q + i)"
    if i: "i < k" and ap: "unat (advance ?t pre2) + 8 + unat k \<le> unat ?a \<or>
      unat ?a + 8 + unat n \<le> unat (advance ?t pre2)"
  proof -
    note d = data_address [OF tiles i]
    show ?thesis
      using d ap n8 le hdr [of "q + i"] win [of "q + i"] by (intro same) (auto simp: q r(1))
  qed
  from bs show ?thesis
  proof (cases rule: append_split_cases)
    case 1
    then show ?thesis by simp
  next
    case (2 zs)
    have ap: "unat (advance ?t pre2) + 8 + unat k \<le> unat ?a"
      using later_block [of "hmem s" ?t e pre2 k True zs n False post] tiles by (simp add: 2)
    have "heap_ok m' (heap_ranges s) e (pre2 @ (k, True) # zs @ split_block req n @ post)"
      using r(3) by (simp add: 2)
    moreover have "unat q \<noteq> unat p" using block_fits [OF tiles] fits(2) ap by (simp add: q r(1))
    moreover have "i < k \<longrightarrow> m' (q + i) = hmem s (q + i)" using kept ap by blast
    ultimately show ?thesis unfolding heap_live_def r(2) q by auto
  next
    case (3 zs)
    have ap: "unat ?a + 8 + unat n \<le> unat (advance ?t pre2)"
      using later_block [of "hmem s" ?t e pre n False zs k True post2] tiles by (simp add: 3)
    have ok': "heap_ok m' (heap_ranges s) e ((pre @ split_block req n @ zs) @ (k, True) # post2)"
      using r(3) by (simp add: 3)
    have adv: "advance ?t (pre @ split_block req n @ zs) = advance ?t pre2" by (simp add: 3)
    have "heap_live s' q k"
      unfolding heap_live_def r(2) q
      by (rule exI [of _ e], rule exI [of _ "pre @ split_block req n @ zs"], rule exI [of _ post2])
        (use ok' adv in simp)
    moreover have "unat q \<noteq> unat p" using block_fits [OF tiles] fits(2) ap by (simp add: q r(1))
    moreover have "i < k \<longrightarrow> m' (q + i) = hmem s (q + i)" using kept ap by blast
    ultimately show ?thesis unfolding r(2) by auto
  qed
qed

interpretation kh: block_heap kmalloc_within hmem heap_live heap_valid
proof unfold_locales
  fix s s' :: kheap and p q n k i j req :: u32
  show "heap_valid s \<Longrightarrow> heap_live s p n \<Longrightarrow> heap_live s q k \<Longrightarrow> p \<noteq> q \<Longrightarrow> i < n \<Longrightarrow> j < k \<Longrightarrow>
      p + i \<noteq> q + j"
    by (rule heap_live_apart)
  show "heap_valid s \<Longrightarrow> kmalloc_within s req = Some (p, s') \<Longrightarrow> heap_valid s'"
    by (rule kmalloc_within_live(1))
  show "heap_valid s \<Longrightarrow> kmalloc_within s req = Some (p, s') \<Longrightarrow> \<exists>n. heap_live s' p n \<and> req \<le> n"
    by (rule kmalloc_within_live(2))
  show "heap_valid s \<Longrightarrow> kmalloc_within s req = Some (p, s') \<Longrightarrow> heap_live s q k \<Longrightarrow>
      heap_live s' q k \<and> q \<noteq> p \<and> (i < k \<longrightarrow> hmem s' (q + i) = hmem s (q + i))"
    by (rule kmalloc_within_keeps)
qed

subsection \<open>Properties\<close>

text \<open>A heap from 0x1000 to 0x1060 with one free block of 64 bytes.\<close>

definition ex_heap :: kheap where
  "ex_heap = \<lparr>hmem = (\<lambda>_. 0)(0x1000 := 16, 0x1004 := 1, 0x1009 := 0x10, 0x100C := 0x60, 0x100D := 0x10,
     0x1010 := 0x18, 0x1011 := 0x10, 0x1018 := 64), heap_ranges = 0x1008\<rparr>"

lemma ex_heap_ok: "heap_ok (hmem ex_heap) (heap_ranges ex_heap) 0x1060 [(64, False)]"
  by (simp add: ex_heap_def heap_ok_def heap_header_def range_start_def range_end_def range_next_def
      range_first_free_def tag_size_def tag_used_def read32_def)

text \<open>
  C14. When a block of the heap is free and large enough, \<open>kmalloc\<close> takes the first such
  block without asking for more memory: it returns the address behind the block's tag, splits
  off what is left when that is more than a tag, keeps the heap in order and changes no byte
  outside the block but the range's free pointer.
\<close>

theorem kmalloc_first_fit:
  assumes "heap_ok (hmem s) (heap_ranges s) e bs"
    and "first_fit (heap_ranges s + 16) req bs = Some a"
  shows "\<exists>m' pre n post. bs = pre @ (n, False) # post \<and> a = advance (heap_ranges s + 16) pre \<and>
    req \<le> n \<and> (\<forall>(k, u) \<in> set pre. u \<or> \<not> req \<le> k) \<and>
    kmalloc request_more vm req s = Some (a + 8, s\<lparr>hmem := m'\<rparr>) \<and>
    heap_ok m' (heap_ranges s) e
      (pre @ (if req + 8 < n then [(req, True), (n - (req + 8), False)] else [(n, True)]) @ post) \<and>
    (\<forall>x. \<not> x - a < 8 + n \<longrightarrow> \<not> x - (heap_ranges s + 8) < 4 \<longrightarrow> m' x = hmem s x)"
  using kmalloc_fits [OF assms] unfolding split_block_def .

theorem kmalloc_first_fit_witness:
  "\<exists>m'. kmalloc (\<lambda>_ _ _. None) (\<lambda>_ _. None) 8 ex_heap = Some (0x1020, ex_heap\<lparr>hmem := m'\<rparr>) \<and>
     heap_ok m' 0x1008 0x1060 [(8, True), (48, False)]"
proof -
  have "heap_ranges ex_heap = 0x1008" by (simp add: ex_heap_def)
  then show ?thesis
    using kmalloc_first_fit [OF ex_heap_ok, of 8 "0x1018" "\<lambda>_ _ _. None" "\<lambda>_ _. None"]
    by (auto simp: Cons_eq_append_conv)
qed

text \<open>
  Two successive allocations from the heap never share a byte, and the second leaves
  the contents of the first alone: the promise of the heap's interface.
\<close>

theorem kmalloc_objects_apart:
  assumes "heap_valid s" and "kmalloc_within s n = Some (p, s1)" and "kmalloc_within s1 k = Some (q, s2)"
    and "i < n" and "j < k"
  shows "p + i \<noteq> q + j \<and> hmem s2 (p + i) = hmem s1 (p + i)"
  using kh.objects_apart [OF assms] kh.object_kept [OF assms(1-4)] by simp

theorem kmalloc_objects_apart_witness:
  "\<exists>p q s1 s2. kmalloc_within ex_heap 8 = Some (p, s1) \<and> kmalloc_within s1 16 = Some (q, s2) \<and>
     p + 7 \<noteq> q + 15"
proof -
  have r: "heap_ranges ex_heap = 0x1008" by (simp add: ex_heap_def)
  obtain m' where 1: "kmalloc_within ex_heap 8 = Some (0x1020, ex_heap\<lparr>hmem := m'\<rparr>)"
    and ok: "heap_ok m' 0x1008 0x1060 [(8, True), (48, False)]"
    using kmalloc_fits [OF ex_heap_ok, of 8 "0x1018" "\<lambda>_ _ _. None" "\<lambda>_ _. None"] r
    by (auto simp: Cons_eq_append_conv split_block_def kmalloc_within_def)
  let ?s1 = "ex_heap\<lparr>hmem := m'\<rparr>"
  obtain q s2 where 2: "kmalloc_within ?s1 16 = Some (q, s2)"
    using kmalloc_fits [of ?s1 "0x1060" "[(8, True), (48, False)]" 16 "0x1028" "\<lambda>_ _ _. None" "\<lambda>_ _. None"]
      ok r by (auto simp: kmalloc_within_def)
  have "heap_valid ex_heap" using ex_heap_ok by (auto simp: heap_valid_def)
  from kmalloc_objects_apart [OF this 1 2, of 7 15] 1 2 show ?thesis by auto
qed

text \<open>
  C16. Freeing a used block of a heap in order returns and changes no byte outside the block's tag but
  the range's free pointer. A block with one behind it becomes free, merged with that one when it is
  free too, and the heap stays in order. For the last block the code reads the eight bytes behind the
  range as the next tag: when they read as used, the block becomes free and the heap stays in order;
  when they read as free, the block's size grows by the size read there and a tag, and unless that
  sum wraps around the heap is in order no more. A last block without data is not found to be
  in the range, and the call does nothing.
\<close>

theorem kfree_merges:
  assumes "heap_ok (hmem s) (heap_ranges s) e (pre @ (n, True) # post)"
  defines "a \<equiv> advance (heap_ranges s + 16) pre"
  shows "\<exists>m'. kfree (a + 8) s = Some (s\<lparr>hmem := m'\<rparr>) \<and>
    (\<forall>x. \<not> x - a < 8 \<longrightarrow> \<not> x - (heap_ranges s + 8) < 4 \<longrightarrow> m' x = hmem s x) \<and>
    (case post of
       (k, u) # rest \<Rightarrow> heap_ok m' (heap_ranges s) e
         (pre @ (if u then [(n, False), (k, True)] else [(n + (k + 8), False)]) @ rest)
     | [] \<Rightarrow>
         if n = 0 then m' = hmem s
         else if tag_used (hmem s) e then heap_ok m' (heap_ranges s) e (pre @ [(n, False)])
         else \<not> tag_used m' a \<and> tag_size m' a = n + (tag_size (hmem s) e + 8) \<and>
           (unat n + unat (tag_size (hmem s) e) + 8 < 4294967296 \<longrightarrow>
             \<not> (\<exists>bs. heap_ok m' (heap_ranges s) e bs)))"
proof (cases post)
  case (Cons b rest)
  then show ?thesis
    using kfree_inner [of s e pre n "fst b" "snd b" rest] assms(1) unfolding a_def
    by (cases b; cases "snd b") (auto simp add: freed_block_def)
next
  case Nil
  show ?thesis
  proof (cases "n = 0")
    case True
    then show ?thesis
      using kfree_last_empty [of s e pre] assms(1) unfolding a_def by (intro exI [of _ "hmem s"]) (simp add: Nil)
  next
    case False
    then show ?thesis
      using kfree_last_used [of s e pre n] kfree_last_free [of s e pre n] assms(1) unfolding a_def
      by (cases "tag_used (hmem s) e") (auto simp add: Nil)
  qed
qed

theorem kfree_merges_witness:
  "\<exists>m1 m2. kmalloc (\<lambda>_ _ _. None) (\<lambda>_ _. None) 8 ex_heap = Some (0x1020, ex_heap\<lparr>hmem := m1\<rparr>) \<and>
     kfree 0x1020 (ex_heap\<lparr>hmem := m1\<rparr>) = Some (ex_heap\<lparr>hmem := m2\<rparr>) \<and>
     heap_ok m2 0x1008 0x1060 [(64, False)] \<and>
   (\<exists>m3 m4. kmalloc (\<lambda>_ _ _. None) (\<lambda>_ _. None) 64 ex_heap = Some (0x1020, ex_heap\<lparr>hmem := m3\<rparr>) \<and>
     kfree 0x1020 (ex_heap\<lparr>hmem := m3\<rparr>) = Some (ex_heap\<lparr>hmem := m4\<rparr>) \<and>
     tag_size m4 0x1018 = 72 \<and> \<not> (\<exists>bs. heap_ok m4 0x1008 0x1060 bs))"
proof -
  have r: "heap_ranges ex_heap = 0x1008" by (simp add: ex_heap_def)
  obtain m1 where 1: "kmalloc (\<lambda>_ _ _. None) (\<lambda>_ _. None) 8 ex_heap = Some (0x1020, ex_heap\<lparr>hmem := m1\<rparr>)"
    and ok: "heap_ok m1 0x1008 0x1060 [(8, True), (48, False)]"
    using kmalloc_fits [OF ex_heap_ok, of 8 "0x1018" "\<lambda>_ _ _. None" "\<lambda>_ _. None"] r
    by (auto simp: Cons_eq_append_conv split_block_def)
  obtain m3 where 2: "kmalloc (\<lambda>_ _ _. None) (\<lambda>_ _. None) 64 ex_heap = Some (0x1020, ex_heap\<lparr>hmem := m3\<rparr>)"
    and ok3: "heap_ok m3 0x1008 0x1060 [(64, True)]"
    and same: "\<forall>x. \<not> x - 0x1018 < 72 \<longrightarrow> \<not> x - 0x1010 < 4 \<longrightarrow> m3 x = hmem ex_heap x"
    using kmalloc_fits [OF ex_heap_ok, of 64 "0x1018" "\<lambda>_ _ _. None" "\<lambda>_ _. None"] r
    by (auto simp: Cons_eq_append_conv split_block_def)
  have "\<not> tag_used m3 0x1060" "tag_size m3 0x1060 = 0"
    using same by (simp_all add: tag_used_def tag_size_def read32_def ex_heap_def)
  then have "\<exists>m4. kfree 0x1020 (ex_heap\<lparr>hmem := m3\<rparr>) = Some (ex_heap\<lparr>hmem := m4\<rparr>) \<and>
      tag_size m4 0x1018 = 72 \<and> \<not> (\<exists>bs. heap_ok m4 0x1008 0x1060 bs)"
    using kfree_merges [of "ex_heap\<lparr>hmem := m3\<rparr>" "0x1060" "[]" 64 "[]"] ok3 r by auto
  then show ?thesis
    using kfree_merges [of "ex_heap\<lparr>hmem := m1\<rparr>" "0x1060" "[]" 8 "[(48, False)]"] 1 2 ok r by auto
qed

text \<open>
  C17. \<open>init_kheap\<close> on a region of 20 pages returns and leaves a heap in order whose one block
  behind the range's own is free and has all the bytes that two tags and the range do not need.
\<close>

theorem init_kheap_heap:
  assumes "unat start + 81920 \<le> 4294967295" and "heap_ranges s = NULL"
  shows "\<exists>m'. init_kheap start s = Some (s\<lparr>hmem := m', heap_ranges := start + 8\<rparr>) \<and>
    heap_ok m' (start + 8) (start + 20 * PAGE_SIZE) [(20 * PAGE_SIZE - 32, False)]"
  using init_new_heap_range_ok [OF assms(1), of "hmem s"] assms(2)
  by (auto simp: init_kheap_def HEAP_SIZE_def PAGE_SIZE_def)

theorem init_kheap_heap_witness:
  "\<exists>m'. init_kheap 0x100000 \<lparr>hmem = \<lambda>_. 0xFF, heap_ranges = NULL\<rparr> =
       Some \<lparr>hmem = m', heap_ranges = 0x100008\<rparr> \<and>
     heap_ok m' 0x100008 0x114000 [(81888, False)]"
  using init_kheap_heap [of "0x100000" "\<lparr>hmem = \<lambda>_. 0xFF, heap_ranges = NULL\<rparr>"]
  by (simp add: PAGE_SIZE_def)

end
