(* ===== verification/Vmm.thy ===== *)
theory Vmm
  imports Kheap Early_Paging
begin

text \<open>
  \<^verbatim>\<open>src/kernel/memory_management/vmm.c\<close>: the allocator of kernel virtual memory. Its
  list of areas is made of \<open>dynam_alloc_area_t\<close> structures that \<open>kmalloc\<close> places in the
  kernel heap, so the list lives in the byte memory \<open>hmem\<close>. \<open>None\<close> is a page fault in
  one of the paging calls or a loop that does not end. \<open>kmalloc\<close> and \<open>vmalloc\<close> call each
  other; the depth of these calls is bounded by a fuel argument of \<open>vmalloc\<close>.
\<close>

subsection \<open>State\<close>

record vmm = kheap +
  paging :: paging_state
  dynamic_alloc_area_bottom :: u32
  dynamic_alloc_area_top :: u32
  allocated_areas_list :: u32

text \<open>\<open>dynam_alloc_area_t\<close>: four words.\<close>

definition sizeof_area :: u32 where "sizeof_area = 16"

definition area_start :: "mem \<Rightarrow> u32 \<Rightarrow> u32" where "area_start m a = read32 m a"
definition area_length :: "mem \<Rightarrow> u32 \<Rightarrow> u32" where "area_length m a = read32 m (a + 4)"
definition area_flags :: "mem \<Rightarrow> u32 \<Rightarrow> u32" where "area_flags m a = read32 m (a + 8)"
definition area_next :: "mem \<Rightarrow> u32 \<Rightarrow> u32" where "area_next m a = read32 m (a + 12)"

definition set_area_length :: "mem \<Rightarrow> u32 \<Rightarrow> u32 \<Rightarrow> mem" where
  "set_area_length m a v = write32 m (a + 4) v"

definition set_area_next :: "mem \<Rightarrow> u32 \<Rightarrow> u32 \<Rightarrow> mem" where
  "set_area_next m a v = write32 m (a + 12) v"

definition init_dynamic_alloc_area :: "mem \<Rightarrow> u32 \<Rightarrow> u32 \<Rightarrow> u32 \<Rightarrow> u32 \<Rightarrow> mem" where
  "init_dynamic_alloc_area m dest start_address sz flags =
     (let m = write32 m dest start_address;
          m = set_area_length m dest (num_pages_needed sz * PAGE_SIZE);
          m = write32 m (dest + 8) flags
      in set_area_next m dest NULL)"

subsection \<open>Physical memory behind a region\<close>

text \<open>The loop that maps one separately allocated frame per page.\<close>

function map_single_frames :: "u32 \<Rightarrow> u32 \<Rightarrow> u32 \<Rightarrow> u32 \<Rightarrow> paging_state \<Rightarrow> (bool \<times> paging_state) option" where
  "map_single_frames virtual_address flags num page s =
     (if page < num then
        (let (pageframe_address, p') = alloc_pageframe (pmm s) PAGE_SIZE;
             s1 = s\<lparr>pmm := p'\<rparr>
         in if pageframe_address \<noteq> NULL then
              (case map_pageframe s1 (kernel_PGD s1) pageframe_address
                  (virtual_address + page * PAGE_SIZE) flags of
                 None \<Rightarrow> None
               | Some (was_mapped, s2) \<Rightarrow>
                   if \<not> was_mapped then Some (False, s2)
                   else map_single_frames virtual_address flags num (page + 1) s2)
            else Some (False, s1))
      else Some (True, s))"
  by pat_completeness auto
termination
  by (relation "measure (\<lambda>(_, _, num, page, _). unat num - unat page)")
    (auto simp: unat_inc word_less_nat_alt)

declare map_single_frames.simps [simp del]

definition vmalloc_core :: "u32 \<Rightarrow> u32 \<Rightarrow> u32 \<Rightarrow> 'a vmm_scheme \<Rightarrow> (u32 \<times> 'a vmm_scheme) option" where
  "vmalloc_core virtual_address sz flags s =
     (let num = num_pages_needed sz; ps = paging s in
      map_option (\<lambda>(was_mapped, ps'). (if was_mapped then virtual_address else NULL, s\<lparr>paging := ps'\<rparr>))
       (if flags AND VM_AREA_MMIO \<noteq> 0 then
          (let (_, p') = alloc_requested_pageframe (pmm ps) virtual_address sz;
               ps = ps\<lparr>pmm := p'\<rparr>
           in identity_map_pageframes ps (kernel_PGD ps) virtual_address flags num)
        else
          (let (pageframe_address, p') = alloc_pageframe (pmm ps) sz;
               ps = ps\<lparr>pmm := p'\<rparr>
           in if pageframe_address = NULL then map_single_frames virtual_address flags num 0 ps
              else map_contiguous_pages ps (kernel_PGD ps) pageframe_address virtual_address flags num)))"

subsection \<open>The list of areas\<close>

definition virtyAddyIsInArea :: "u32 \<Rightarrow> u32 \<Rightarrow> u32 \<Rightarrow> bool" where
  "virtyAddyIsInArea start end_addr virtual_address \<longleftrightarrow>
     virtual_address \<ge> start \<and> virtual_address < end_addr"

partial_function (option) find_vm_area_starting_at :: "mem \<Rightarrow> u32 \<Rightarrow> u32 \<Rightarrow> u32 option" where
  "find_vm_area_starting_at m virtual_address cur =
     (if cur \<noteq> NULL then
        (if area_start m cur = virtual_address then Some cur
         else find_vm_area_starting_at m virtual_address (area_next m cur))
      else Some NULL)"

partial_function (option) virt_region_exists_in_area :: "mem \<Rightarrow> u32 \<Rightarrow> u32 \<Rightarrow> u32 \<Rightarrow> u32 option" where
  "virt_region_exists_in_area m start_address sz cur =
     (if cur \<noteq> NULL then
        (let end_addr = start_address + sz;
             a_start = area_start m cur;
             a_end = a_start + area_length m cur
         in if virtyAddyIsInArea a_start a_end start_address then Some cur
            else if virtyAddyIsInArea a_start a_end end_addr then Some cur
            else if virtyAddyIsInArea start_address end_addr a_start then Some cur
            else virt_region_exists_in_area m start_address sz (area_next m cur))
      else Some NULL)"

text \<open>The loop of \<open>find_first_alloc\<close>, which looks at \<open>next->next_area\<close>, and its end.\<close>

partial_function (option) find_gap :: "mem \<Rightarrow> u32 \<Rightarrow> u32 \<Rightarrow> u32 \<Rightarrow> u32 \<Rightarrow> u32 option" where
  "find_gap m area_bottom requested_size prev nxt =
     (let prev_area_start = area_start m prev;
          potential_new_area_start = prev_area_start - requested_size
      in if nxt \<noteq> NULL then
           (let next_area_end = area_start m (area_next m nxt) + area_length m (area_next m nxt);
                avail_size = prev_area_start - next_area_end
            in if avail_size \<ge> requested_size \<and> potential_new_area_start \<ge> next_area_end
               then Some (prev_area_start - requested_size)
               else find_gap m area_bottom requested_size nxt (area_next m nxt))
         else if potential_new_area_start \<ge> area_bottom then Some (prev_area_start - requested_size)
         else Some NULL)"

definition find_first_alloc :: "mem \<Rightarrow> u32 \<Rightarrow> u32 \<Rightarrow> u32 \<Rightarrow> u32 \<Rightarrow> u32 option" where
  "find_first_alloc m area_bottom area_top areas requested_size =
     (if areas = NULL then Some (area_top - num_pages_needed requested_size)
      else
        (let next_area_end = area_start m areas + area_length m areas in
         if area_top - requested_size \<ge> next_area_end then Some (area_top - requested_size)
         else find_gap m area_bottom requested_size areas (area_next m areas)))"

partial_function (option) insert_loop :: "mem \<Rightarrow> u32 \<Rightarrow> u32 \<Rightarrow> u32 \<Rightarrow> mem option" where
  "insert_loop m new_vm_area prev nxt =
     (if nxt \<noteq> NULL then
        (let next_area_start = area_start m (area_next m nxt);
             next_area_end = next_area_start + area_length m nxt
         in if area_start m new_vm_area > next_area_start then Some (set_area_next m prev new_vm_area)
            else if area_start m new_vm_area < next_area_end
              then insert_loop m new_vm_area nxt (area_next m nxt)
            else if area_start m new_vm_area = next_area_end then Some m
            else insert_loop m new_vm_area prev nxt)
      else Some (set_area_next m prev new_vm_area))"

text \<open>The new head of the list and the memory.\<close>

definition insert_new_vm_area :: "mem \<Rightarrow> u32 \<Rightarrow> u32 \<Rightarrow> (u32 \<times> mem) option" where
  "insert_new_vm_area m areas new_vm_area =
     (if areas = NULL then Some (new_vm_area, m)
      else if area_start m new_vm_area > area_start m areas
        then Some (new_vm_area, set_area_next m new_vm_area areas)
      else map_option (\<lambda>m. (areas, m)) (insert_loop m new_vm_area areas (area_next m areas)))"

partial_function (option) get_vm_area_prior :: "mem \<Rightarrow> u32 \<Rightarrow> u32 \<Rightarrow> u32 option" where
  "get_vm_area_prior m entry cur =
     (if cur \<noteq> NULL then
        (if area_next m cur = entry then Some cur else get_vm_area_prior m entry (area_next m cur))
      else Some NULL)"

subsection \<open>Allocation\<close>

text \<open>A new area structure is filled in and put into the list.\<close>

definition track_area :: "u32 \<Rightarrow> u32 \<Rightarrow> u32 \<Rightarrow> u32 \<Rightarrow> 'a vmm_scheme \<Rightarrow> 'a vmm_scheme option" where
  "track_area new_vm_area start_address sz flags s =
     (let m = init_dynamic_alloc_area (hmem s) new_vm_area start_address sz flags in
      map_option (\<lambda>(areas, m). s\<lparr>hmem := m, allocated_areas_list := areas\<rparr>)
        (insert_new_vm_area m (allocated_areas_list s) new_vm_area))"

definition vmalloc_request_more_memory ::
    "u32 \<Rightarrow> u32 \<Rightarrow> 'a vmm_scheme \<Rightarrow> (u32 \<times> 'a vmm_scheme) option" where
  "vmalloc_request_more_memory starting_address extension_size s =
     Option.bind (find_vm_area_starting_at (hmem s) starting_address (allocated_areas_list s)) (\<lambda>curr_area.
       if curr_area = NULL then Some (NULL, s)
       else
         (let curr_area_end = area_start (hmem s) curr_area + area_length (hmem s) curr_area in
          Option.bind (virt_region_exists_in_area (hmem s) curr_area_end extension_size
              (allocated_areas_list s)) (\<lambda>found.
            if found = NULL then
              map_option (\<lambda>(new_area, s).
                  (new_area, s\<lparr>hmem := set_area_length (hmem s) curr_area
                     (area_length (hmem s) curr_area + extension_size)\<rparr>))
                (vmalloc_core curr_area_end extension_size VM_AREA_WRITE s)
            else Some (NULL, s))))"

text \<open>
  \<open>noflags\<close> stands for the second argument of the \<open>vmalloc\<close> call in kheap.c, which is
  missing there: whatever the stack holds.
\<close>

fun vmalloc ::
    "nat \<Rightarrow> ('a vmm_scheme \<Rightarrow> u32) \<Rightarrow> u32 \<Rightarrow> u32 \<Rightarrow> 'a vmm_scheme \<Rightarrow> (u32 \<times> 'a vmm_scheme) option" where
  "vmalloc 0 noflags requested_size flags s = None"
| "vmalloc (Suc fuel) noflags requested_size flags s =
     Option.bind (find_first_alloc (hmem s) (dynamic_alloc_area_bottom s) (dynamic_alloc_area_top s)
         (allocated_areas_list s) requested_size) (\<lambda>new_vm_area_starting_address.
       Option.bind (vmalloc_core new_vm_area_starting_address requested_size flags s)
         (\<lambda>(allocated_address_start, s).
         if allocated_address_start = NULL then Some (NULL, s)
         else
           Option.bind (kmalloc vmalloc_request_more_memory
               (\<lambda>sz s. vmalloc fuel noflags sz (noflags s) s) sizeof_area s) (\<lambda>(new_vm_area, s).
             map_option (\<lambda>s. (allocated_address_start, s))
               (track_area new_vm_area allocated_address_start requested_size flags s))))"

abbreviation kmalloc_vmm ::
    "nat \<Rightarrow> ('a vmm_scheme \<Rightarrow> u32) \<Rightarrow> u32 \<Rightarrow> 'a vmm_scheme \<Rightarrow> (u32 \<times> 'a vmm_scheme) option" where
  "kmalloc_vmm fuel noflags \<equiv>
     kmalloc vmalloc_request_more_memory (\<lambda>sz s. vmalloc fuel noflags sz (noflags s) s)"

definition vmalloc_request_virtual_address ::
    "nat \<Rightarrow> ('a vmm_scheme \<Rightarrow> u32) \<Rightarrow> u32 \<Rightarrow> u32 \<Rightarrow> u32 \<Rightarrow>
     'a vmm_scheme \<Rightarrow> (u32 \<times> 'a vmm_scheme) option" where
  "vmalloc_request_virtual_address fuel noflags virtual_address requested_size flags s =
     Option.bind (virt_region_exists_in_area (hmem s) virtual_address requested_size
         (allocated_areas_list s)) (\<lambda>found.
       if found = NULL then
         Option.bind (vmalloc_core virtual_address requested_size flags s) (\<lambda>(allocated_address, s).
           Option.bind (kmalloc_vmm fuel noflags sizeof_area s) (\<lambda>(new_vm_area, s).
             map_option (\<lambda>s. (allocated_address, s))
               (track_area new_vm_area allocated_address requested_size flags s)))
       else if flags AND VM_AREA_MMIO \<noteq> 0 then Some (virtual_address, s)
       else Some (NULL, s))"

definition vmm_init_kheap :: "nat \<Rightarrow> ('a vmm_scheme \<Rightarrow> u32) \<Rightarrow> 'a vmm_scheme \<Rightarrow> 'a vmm_scheme option" where
  "vmm_init_kheap fuel noflags s =
     Option.bind (vmalloc_core (dynamic_alloc_area_top s - HEAP_SIZE) HEAP_SIZE VM_AREA_WRITE s)
       (\<lambda>(kheap_virtual_address_start, s).
       Option.bind (init_kheap kheap_virtual_address_start s) (\<lambda>s.
         Option.bind (kmalloc_vmm fuel noflags sizeof_area s) (\<lambda>(first_struct, s).
           Option.bind (track_area first_struct kheap_virtual_address_start HEAP_SIZE VM_AREA_WRITE s) (\<lambda>s.
             Option.bind (kmalloc_vmm fuel noflags sizeof_area s) (\<lambda>(recursive_pgd_space, s).
               (let num_bytes_mapped_by_one_pde =
                      push_bit PAGE_DIR_INDEX_BIT_INDEX (RECURSIVE_PDE_IDX + 1) -
                      push_bit PAGE_DIR_INDEX_BIT_INDEX RECURSIVE_PDE_IDX
                in track_area recursive_pgd_space (push_bit PAGE_DIR_INDEX_BIT_INDEX RECURSIVE_PDE_IDX)
                     num_bytes_mapped_by_one_pde VM_AREA_NO_ACCESS s))))))"

subsection \<open>Freeing\<close>

text \<open>
  The pointer that \<open>get_pte\<close> returns is used as if it were the entry, so the frame that is
  freed is the one of the entry's own address.
\<close>

function free_pages :: "u32 \<Rightarrow> u32 \<Rightarrow> u32 \<Rightarrow> paging_state \<Rightarrow> (bool \<times> paging_state) option" where
  "free_pages start_address num page s =
     (if page < num then
        (let virt_addy_to_free = start_address + page * PAGE_SIZE;
             pte = get_pte s (kernel_PGD s) virt_addy_to_free;
             pageframe_allocated = get_pageframe_address pte;
             (freed, p') = free_pageframe (pmm s) pageframe_allocated;
             s1 = s\<lparr>pmm := p'\<rparr>
         in if \<not> freed then Some (False, s1)
            else
              (case free_mapping s1 (kernel_PGD s1) virt_addy_to_free of
                 None \<Rightarrow> None
               | Some (freed_mapping, s2) \<Rightarrow>
                   if \<not> freed_mapping then Some (False, s2)
                   else free_pages start_address num (page + 1) s2))
      else Some (True, s))"
  by pat_completeness auto
termination
  by (relation "measure (\<lambda>(_, num, page, _). unat num - unat page)")
    (auto simp: unat_inc word_less_nat_alt)

declare free_pages.simps [simp del]

definition vmalloc_free :: "u32 \<Rightarrow> 'a vmm_scheme \<Rightarrow> (bool \<times> 'a vmm_scheme) option" where
  "vmalloc_free virtual_page_address s =
     Option.bind (find_vm_area_starting_at (hmem s) virtual_page_address (allocated_areas_list s)) (\<lambda>area.
       if area_flags (hmem s) area AND VM_AREA_MMIO \<noteq> 0 then Some (True, s)
       else
         Option.bind (free_pages (area_start (hmem s) area)
             (num_pages_needed (area_length (hmem s) area)) 0 (paging s)) (\<lambda>(freed, ps).
           let s = s\<lparr>paging := ps\<rparr> in
           if \<not> freed then Some (False, s)
           else
             Option.bind (get_vm_area_prior (hmem s) area (allocated_areas_list s)) (\<lambda>prev_entry.
               if prev_entry = NULL then Some (False, s)
               else
                 map_option (\<lambda>s. (True, s))
                   (kfree area (s\<lparr>hmem := set_area_next (hmem s) prev_entry (area_next (hmem s) area)\<rparr>)))))"

text \<open>\<open>mem_start\<close> and \<open>mem_length\<close> are the fields of \<open>boot_cpu_mem\<close>.\<close>

definition init_vmm :: "u32 \<Rightarrow> u32 \<Rightarrow> 'a vmm_scheme \<Rightarrow> 'a vmm_scheme" where
  "init_vmm mem_start mem_length s =
     s\<lparr>dynamic_alloc_area_bottom :=
         round_up_to_nearest_page (pmm_bitmap_end_addy (pmm (paging s))) + PAGE_SIZE,
       dynamic_alloc_area_top := mem_start + mem_length,
       allocated_areas_list := NULL\<rparr>"

subsection \<open>The list of areas as a list\<close>

text \<open>From \<open>p\<close> on, the memory holds the areas \<open>(address, start, length)\<close> of the list.\<close>

fun areas :: "mem \<Rightarrow> u32 \<Rightarrow> (u32 \<times> u32 \<times> u32) list \<Rightarrow> bool" where
  "areas m p [] \<longleftrightarrow> p = NULL"
| "areas m p ((a, st, ln) # xs) \<longleftrightarrow> p = a \<and> a \<noteq> NULL \<and> area_start m a = st \<and> area_length m a = ln \<and>
     areas m (area_next m a) xs"

definition area_addr :: "(u32 \<times> u32 \<times> u32) option \<Rightarrow> u32" where
  "area_addr x = (case x of None \<Rightarrow> NULL | Some (a, _) \<Rightarrow> a)"

lemma find_vm_area_list:
  "areas m p xs \<Longrightarrow> find_vm_area_starting_at m va p =
     Some (area_addr (find (\<lambda>(a, st, ln). st = va) xs))"
proof (induction m p xs rule: areas.induct)
  case (2 m p a st ln xs)
  then show ?case by (subst find_vm_area_starting_at.simps) (auto simp: area_addr_def)
qed (simp add: find_vm_area_starting_at.simps area_addr_def)

definition hits :: "u32 \<Rightarrow> u32 \<Rightarrow> u32 \<times> u32 \<times> u32 \<Rightarrow> bool" where
  "hits va sz = (\<lambda>(a, st, ln). virtyAddyIsInArea st (st + ln) va \<or>
     virtyAddyIsInArea st (st + ln) (va + sz) \<or> virtyAddyIsInArea va (va + sz) st)"

lemma virt_region_list:
  "areas m p xs \<Longrightarrow> virt_region_exists_in_area m va sz p = Some (area_addr (find (hits va sz) xs))"
proof (induction m p xs rule: areas.induct)
  case (2 m p a st ln xs)
  then show ?case
    by (subst virt_region_exists_in_area.simps) (auto simp: area_addr_def hits_def Let_def)
qed (simp add: virt_region_exists_in_area.simps area_addr_def)

lemma areas_nonnull: "areas m p xs \<Longrightarrow> (a, st, ln) \<in> set xs \<Longrightarrow> a \<noteq> NULL"
  by (induction m p xs rule: areas.induct) auto

lemma area_addr_find_null:
  assumes "areas m p xs"
  shows "area_addr (find P xs) = NULL \<longleftrightarrow> (\<forall>x \<in> set xs. \<not> P x)"
proof (cases "find P xs")
  case None
  then have "\<forall>x \<in> set xs. \<not> P x" by (metis find_None_iff)
  with None show ?thesis by (simp add: area_addr_def)
next
  case (Some x)
  then obtain i where "i < length xs" "P (xs ! i)" "x = xs ! i" by (auto simp: find_Some_iff)
  moreover obtain a st ln where "x = (a, st, ln)" by (cases x)
  ultimately have "(a, st, ln) \<in> set xs" "P (a, st, ln)" by (metis nth_mem)+
  then show ?thesis
    using areas_nonnull [OF assms] Some \<open>x = (a, st, ln)\<close> by (auto simp: area_addr_def)
qed

text \<open>In terms of numbers: an area that starts right behind the region is a hit, too.\<close>

lemma hits_iff:
  assumes "unat va + unat sz < 4294967296" and "unat st + unat ln < 4294967296" and "ln \<noteq> 0"
  shows "hits va sz (a, st, ln) \<longleftrightarrow> unat st \<le> unat va + unat sz \<and> unat va < unat st + unat ln"
proof -
  have s: "unat (va + sz) = unat va + unat sz" "unat (st + ln) = unat st + unat ln"
    using assms(1,2) by (subst unat_add_small; simp)+
  have "unat ln \<noteq> 0" using assms(3) by (simp add: unat_eq_0)
  then show ?thesis
    unfolding hits_def virtyAddyIsInArea_def prod.case word_le_nat_alt word_less_nat_alt s by linarith
qed

subsection \<open>Inserting an area\<close>

text \<open>The sixteen bytes of one area structure and those of another.\<close>

definition nodes_apart :: "u32 \<Rightarrow> u32 \<Rightarrow> bool" where
  "nodes_apart a b \<longleftrightarrow> 16 \<le> a - b \<and> 16 \<le> b - a"

lemma nodes_apart_fields:
  assumes "nodes_apart a b" and "i \<in> {0, 4, 8, 12}" and "j \<in> {0, 4, 8, 12}"
  shows "apart32 (a + i) (b + j)"
proof -
  define d where "d = a - b"
  have d: "16 \<le> d" "16 \<le> - d" using assms(1) by (simp_all add: nodes_apart_def d_def)
  have nz: "unat d \<noteq> 0" using d(1) by (auto simp: unat_eq_0)
  have "unat (- d) = 4294967296 - unat d"
    using nz unat_lt_2p32 [of d] unat_sub_if_size [of 0 d] by (simp add: word_size)
  then have u: "16 \<le> unat d" "unat d \<le> 4294967280"
    using d unat_lt_2p32 [of d] by (simp_all add: word_le_nat_alt)
  have *: "4 \<le> d + i - j \<and> 4 \<le> j - i - d"
    using assms(2,3) u by (auto simp: word_le_nat_alt unat_sub_if_size unat_plus_if_size word_size)
  have "a + i - (b + j) = d + i - j" "b + j - (a + i) = j - i - d" by (simp_all add: d_def)
  then show ?thesis using * by (simp only: apart32_def)
qed

lemma set_area_next_same:
  "area_next (set_area_next m a v) a = v" "area_start (set_area_next m a v) a = area_start m a"
  "area_length (set_area_next m a v) a = area_length m a"
proof -
  have "apart32 (a + 12) a" "apart32 (a + 12) (a + 4)" by (simp_all add: apart32_def)
  then show "area_next (set_area_next m a v) a = v" "area_start (set_area_next m a v) a = area_start m a"
    "area_length (set_area_next m a v) a = area_length m a"
    by (simp_all add: area_next_def area_start_def area_length_def set_area_next_def read32_write32_other)
qed

lemma set_area_next_other:
  assumes "nodes_apart a b"
  shows "area_next (set_area_next m a v) b = area_next m b"
    "area_start (set_area_next m a v) b = area_start m b"
    "area_length (set_area_next m a v) b = area_length m b"
  using nodes_apart_fields [OF assms, of 12 12] nodes_apart_fields [OF assms, of 12 0]
    nodes_apart_fields [OF assms, of 12 4]
  by (simp_all add: area_next_def area_start_def area_length_def set_area_next_def read32_write32_other)

lemma nodes_apart_sym: "nodes_apart a b \<Longrightarrow> nodes_apart b a"
  by (simp add: nodes_apart_def)

lemma insert_into_short_list:
  assumes "areas m p xs" and "length xs \<le> 1" and "new \<noteq> NULL" and "area_next m new = NULL"
    and "\<forall>(b, st, ln) \<in> set xs. nodes_apart new b"
  defines "node \<equiv> (new, area_start m new, area_length m new)"
  shows "\<exists>p' m'. insert_new_vm_area m p new = Some (p', m') \<and>
    areas m' p' (if \<forall>(b, st, ln) \<in> set xs. st < area_start m new then node # xs else xs @ [node])"
proof (cases xs)
  case Nil
  then show ?thesis
    using assms(1,3,4) by (simp add: insert_new_vm_area_def node_def)
next
  case (Cons x ys)
  obtain b st ln where x: "x = (b, st, ln)" by (cases x)
  have xs: "xs = [(b, st, ln)]" using assms(2) Cons x by simp
  have b: "p = b" "b \<noteq> NULL" "area_start m b = st" "area_length m b = ln" "area_next m b = NULL"
    using assms(1) by (simp_all add: xs)
  have ap: "nodes_apart new b" "nodes_apart b new"
    using assms(5) nodes_apart_sym by (auto simp: xs)
  note fields = set_area_next_same set_area_next_other [OF ap(1)] set_area_next_other [OF ap(2)]
  show ?thesis
  proof (cases "st < area_start m new")
    case True
    then show ?thesis
      using assms(3) b by (simp add: xs insert_new_vm_area_def node_def fields)
  next
    case False
    then show ?thesis
      using assms(3,4) b
      by (simp add: xs insert_new_vm_area_def node_def fields insert_loop.simps)
  qed
qed

text \<open>
  In a longer list the loop compares with the area behind the next one and links the new area
  without its successor, so everything behind the first area is lost.
\<close>

lemma insert_drops_tail:
  assumes "areas m p ((a, st, ln) # (b, stb, lnb) # xs)" and "new \<noteq> NULL" and "area_next m new = NULL"
    and "nodes_apart new a" and "area_start m new \<le> st"
    and "area_start m (area_next m b) < area_start m new"
  shows "\<exists>m'. insert_new_vm_area m p new = Some (p, m') \<and>
    areas m' p [(a, st, ln), (new, area_start m new, area_length m new)]"
proof -
  have a: "p = a" "a \<noteq> NULL" "area_start m a = st" "area_length m a = ln" "area_next m a = b" "b \<noteq> NULL"
    using assms(1) by simp_all
  note fields = set_area_next_same set_area_next_other [OF nodes_apart_sym [OF assms(4)]]
  show ?thesis
    using a assms(2,3,5,6)
    by (simp add: insert_new_vm_area_def insert_loop.simps Let_def fields)
qed

subsection \<open>Where a region is placed\<close>

lemma find_first_alloc_single:
  assumes "areas m p [(a, st, ln)]" and fit: "unat area_bottom \<le> unat st" "unat st + unat ln \<le> unat area_top"
    and "unat req \<le> unat st"
  shows "find_first_alloc m area_bottom area_top p req = Some
    (if unat st + unat ln + unat req \<le> unat area_top then area_top - req
     else if unat area_bottom + unat req \<le> unat st then st - req else NULL)"
proof -
  have p: "p = a" "a \<noteq> NULL" "area_start m a = st" "area_length m a = ln" "area_next m a = NULL"
    using assms(1) by simp_all
  have s: "unat (st + ln) = unat st + unat ln"
    using fit(2) unat_lt_2p32 [of area_top] by (subst unat_add_small) simp_all
  have t: "unat (area_top - req) = unat area_top - unat req" "unat (st - req) = unat st - unat req"
    using assms(3,4) by (simp_all add: unat_sub_le word_le_nat_alt)
  have "st + ln \<le> area_top - req \<longleftrightarrow> unat st + unat ln + unat req \<le> unat area_top"
    using s t assms(3,4) by (auto simp: word_le_nat_alt)
  moreover have "area_bottom \<le> st - req \<longleftrightarrow> unat area_bottom + unat req \<le> unat st"
    using t assms(4) by (auto simp: word_le_nat_alt)
  ultimately show ?thesis
    using p by (simp add: find_first_alloc_def find_gap.simps Let_def)
qed

subsection \<open>What backs an allocated region\<close>

lemma alloc_pageframe_aligned:
  assumes "pmm_ok p" and "alloc_pageframe p sz = (a, p')" and "a \<noteq> NULL"
  shows "page_aligned a"
proof -
  have "a = 4096 * phys_addy_to_pfn a"
    using alloc_pageframe_pfn [OF assms] by (simp add: pfn_to_phys_addy_def PAGE_SIZE_def mult.commute)
  then show ?thesis by (metis page_aligned_times)
qed

lemma range_mappable_pmm: "range_mappable (s\<lparr>pmm := p\<rparr>) va num = range_mappable s va num"
  by (simp add: range_mappable_def pte_cell_def pde_at_def cr3_def)

lemma paging_ok_pmm: "paging_ok (s\<lparr>pmm := p\<rparr>) = paging_ok s"
  by (simp add: paging_ok_def pde_at_def cr3_def)

lemma vmalloc_core_contiguous:
  assumes "paging_ok (paging s)" and "pmm_ok (pmm (paging s))" and "flags AND VM_AREA_MMIO = 0"
    and "alloc_pageframe (pmm (paging s)) sz = (pa, p')" and "pa \<noteq> NULL"
    and "range_mappable (paging s) va (num_pages_needed sz)"
  shows "\<exists>ps'. vmalloc_core va sz flags s = Some (va, s\<lparr>paging := ps'\<rparr>) \<and> paging_ok ps' \<and> pmm ps' = p' \<and>
    cr3 ps' = cr3 (paging s) \<and>
    (\<forall>k x. k < num_pages_needed sz \<and> paging_entry_present (pde_at (paging s) (get_PDE_idx x)) \<and>
      pte_cell (paging s) x = pte_cell (paging s) (va + k * PAGE_SIZE) \<longrightarrow>
      walk (phys ps') (cr3 ps') x =
        Some (leads_to (pde_at (paging s) (get_PDE_idx x)) (pa + k * PAGE_SIZE) flags x))"
proof -
  let ?ps = "(paging s)\<lparr>pmm := p'\<rparr>"
  have cells: "pte_cell ?ps x = pte_cell (paging s) x" "pde_at ?ps i = pde_at (paging s) i"
    "cr3 ?ps = cr3 (paging s)" "kernel_PGD ?ps = kernel_PGD (paging s)" for x i
    by (simp_all add: pte_cell_def pde_at_def cr3_def)
  have "paging_ok ?ps" "range_mappable ?ps va (num_pages_needed sz)"
    using assms(1,6) by (simp_all only: paging_ok_pmm range_mappable_pmm)
  from map_pages_mapped [OF this(1) alloc_pageframe_aligned [OF assms(2,4,5)] this(2), of flags 0]
  obtain ps' where run: "map_pages ?ps (kernel_PGD ?ps) pa va flags (num_pages_needed sz) 0 = Some (True, ps')"
    and ps': "paging_ok ps'" "same_tables ?ps ps'" "pmm ps' = p'"
    and hit: "\<forall>k x. 0 \<le> k \<and> k < num_pages_needed sz \<and> paging_entry_present (pde_at ?ps (get_PDE_idx x)) \<and>
      pte_cell ?ps x = pte_cell ?ps (va + k * PAGE_SIZE) \<longrightarrow>
      walk (phys ps') (cr3 ?ps) x =
        Some (leads_to (pde_at ?ps (get_PDE_idx x)) (pa + k * PAGE_SIZE) flags x)"
    by auto
  have "vmalloc_core va sz flags s = Some (va, s\<lparr>paging := ps'\<rparr>)"
    using assms(3,4,5) run by (simp add: vmalloc_core_def map_contiguous_pages_def Let_def)
  moreover have "cr3 ps' = cr3 (paging s)" using ps'(2) by (simp add: same_tables_def cr3_def)
  ultimately show ?thesis using ps' hit unfolding cells by auto
qed

text \<open>The frame that \<open>vmalloc_free\<close> asks to free lies in the window of the page tables.\<close>

lemma get_pte_frame:
  "get_pageframe_address (get_pte s (kernel_PGD s) va) = get_page_tab_virtual_pointer (get_PDE_idx va)"
proof -
  let ?w = "get_page_tab_virtual_pointer (get_PDE_idx va)" and ?j = "get_pte_idx va"
  note w = window_fields [OF get_PDE_idx_bound [of va] get_pte_idx_bound [of va]]
  have "get_pte s (kernel_PGD s) va = ?w + 4 * ?j" using w(2) by (simp add: get_pte_def Let_def)
  also have "\<dots> = ?w OR 4 * ?j"
  proof (rule disjunctive_add_eq_or)
    have "(?w + 4 * ?j) AND 0xfff = 4 * ?j" by (rule w(5))
    then have j: "4 * ?j = 4 * ?j AND 0xfff" by (metis and.idem and.assoc)
    have "?w AND 0xfff = 0" using w(1) by (simp add: page_aligned_def)
    moreover have "?w AND (4 * ?j AND 0xfff) = (?w AND 0xfff) AND 4 * ?j"
      by (simp only: and.assoc and.commute and.left_commute)
    ultimately show "?w AND 4 * ?j = 0" using j by simp
  qed
  finally have eq: "get_pte s (kernel_PGD s) va = ?w OR 4 * ?j" .
  have "4 * ?j AND NOT 0xfff = 0"
  proof -
    have "4 * ?j = (?w + 4 * ?j) AND 0xfff" using w(5) by simp
    then have "4 * ?j AND NOT 0xfff = ((?w + 4 * ?j) AND 0xfff) AND NOT 0xfff" by (rule arg_cong)
    also have "\<dots> = 0" by (simp only: and.assoc bit.conj_cancel_right and_zero_eq)
    finally show ?thesis .
  qed
  then show ?thesis unfolding eq using w(1) by (intro entry_frame) simp_all
qed

lemma free_pages_refused:
  assumes "\<not> allocated (pmm s) (phys_addy_to_pfn (get_page_tab_virtual_pointer (get_PDE_idx start)))"
    and "0 < num"
  shows "\<exists>p'. free_pages start num 0 s = Some (False, s\<lparr>pmm := p'\<rparr>) \<and>
    (\<forall>j. allocated p' j \<longleftrightarrow> allocated (pmm s) j)"
proof -
  let ?a = "get_page_tab_virtual_pointer (get_PDE_idx start)"
  obtain freed p' where free: "free_pageframe (pmm s) ?a = (freed, p')" by fastforce
  have "\<not> freed" "\<forall>j. allocated p' j \<longleftrightarrow> allocated (pmm s) j"
    using free_pageframe_result [OF free] free_pageframe_bits [OF free] assms(1) by auto
  then show ?thesis
    using assms(2) free get_pte_frame [of s start]
    by (subst free_pages.simps) (simp, blast)
qed

subsection \<open>Properties\<close>

lemma ex_paging_range: "range_mappable ex_paging 0x500000 2"
proof -
  have two: "k < 2 \<longleftrightarrow> k = 0 \<or> k = 1" for k :: u32
  proof -
    have "k < 1 + 1 \<longleftrightarrow> k \<le> 1" by (rule word_lt_inc [of _ 2]) simp
    then show ?thesis by (auto simp: le_less word_less_1)
  qed
  have "pte_cell ex_paging 0x500000 = 0x202400" "pte_cell ex_paging 0x501000 = 0x202404"
    "pte_cell ex_paging 0xC0200000 = 0x201800"
    by (simp_all add: pte_cell_def get_PDE_idx_def get_pte_idx_def addr_defs ex_paging_pde flag_defs)
  then show ?thesis
    unfolding range_mappable_def two
    by (auto simp: PAGE_SIZE_def get_PDE_idx_def PAGE_DIR_INDEX_BIT_INDEX_def ex_paging_pde
        kernel_pde_flags_present RECURSIVE_PDE_IDX_def ex_paging_facts(4))
qed

definition ex_vmm :: vmm where
  "ex_vmm = \<lparr>hmem = \<lambda>_. 0, heap_ranges = 0, paging = ex_paging, dynamic_alloc_area_bottom = 0xD0000000,
     dynamic_alloc_area_top = 0xE0000000, allocated_areas_list = 0\<rparr>"



text \<open>
  C18. For a list of nonempty areas in which, as for the region asked about, nothing wraps around at
  the top of the address space, the overlap check returns the first area of the list that starts at
  or below the region's end and ends above the region's start, and NULL exactly when every area ends
  at or below the region's start or starts above its end. So an area that ends where the region
  begins is not found, but one that begins where the region ends is, although they do not overlap.
\<close>

theorem region_check_exact:
  assumes "areas m p xs" and "unat va + unat sz < 4294967296"
    and "\<forall>(a, st, ln) \<in> set xs. unat st + unat ln < 4294967296 \<and> ln \<noteq> 0"
  shows "\<exists>r. virt_region_exists_in_area m va sz p = Some r \<and>
    r = area_addr (find (\<lambda>(a, st, ln). unat st \<le> unat va + unat sz \<and> unat va < unat st + unat ln) xs) \<and>
    (r = NULL \<longleftrightarrow> (\<forall>(a, st, ln) \<in> set xs. unat va + unat sz < unat st \<or> unat st + unat ln \<le> unat va))"
proof -
  let ?P = "\<lambda>(a :: u32, st, ln). unat st \<le> unat va + unat sz \<and> unat va < unat st + unat ln"
  have "find (hits va sz) xs = find ?P xs"
    using assms(2,3) hits_iff by (intro find_cong) auto
  moreover have "(\<forall>x \<in> set xs. \<not> ?P x) \<longleftrightarrow>
      (\<forall>(a, st, ln) \<in> set xs. unat va + unat sz < unat st \<or> unat st + unat ln \<le> unat va)"
    by (intro ball_cong) (auto simp: not_less not_le)
  ultimately show ?thesis
    using virt_region_list [OF assms(1)] area_addr_find_null [OF assms(1), of ?P] by simp
qed

definition ex_area_mem :: mem where
  "ex_area_mem = init_dynamic_alloc_area (\<lambda>_. 0) 0x1000 0xD0010000 0x1000 1"

lemma ex_areas: "areas ex_area_mem 0x1000 [(0x1000, 0xD0010000, 0x1000)]"
  by (simp add: ex_area_mem_def init_dynamic_alloc_area_def area_start_def area_length_def area_next_def
      set_area_length_def set_area_next_def Let_def num_pages_needed_def PAGE_SIZE_def
      write32_def read32_def)

theorem region_check_exact_witness:
  "virt_region_exists_in_area ex_area_mem 0xD000F000 0x1000 0x1000 = Some 0x1000 \<and>
   0xD000F000 + 0x1000 = area_start ex_area_mem 0x1000"
  using region_check_exact [OF ex_areas, of "0xD000F000" "0x1000"]
  by (simp add: area_addr_def) (simp add: ex_area_mem_def init_dynamic_alloc_area_def area_start_def
      set_area_length_def set_area_next_def Let_def write32_def read32_def)

text \<open>
  With one area in the list, \<open>find_first_alloc\<close> places a region of the requested size directly
  below the top when it fits above the area, else directly below the area when it fits above the
  bottom, and gives NULL when neither does; a region it returns lies between bottom and top and
  does not overlap the area.
\<close>

theorem find_first_alloc_one_area:
  assumes "areas m p [(a, st, ln)]" and "unat area_bottom \<le> unat st" and "unat st + unat ln \<le> unat area_top"
    and "unat req \<le> unat st" and "0 < unat area_bottom"
  shows "\<exists>r. find_first_alloc m area_bottom area_top p req = Some r \<and>
    r = (if unat st + unat ln + unat req \<le> unat area_top then area_top - req
      else if unat area_bottom + unat req \<le> unat st then st - req else NULL) \<and>
    (r \<noteq> NULL \<longrightarrow> unat area_bottom \<le> unat r \<and> unat r + unat req \<le> unat area_top \<and>
      (unat r + unat req \<le> unat st \<or> unat st + unat ln \<le> unat r))"
proof -
  have "unat (area_top - req) = unat area_top - unat req" "unat (st - req) = unat st - unat req"
    using assms by (simp_all add: unat_sub_le word_le_nat_alt)
  then show ?thesis
    unfolding find_first_alloc_single [OF assms(1-4)] using assms(2-5) by auto
qed

theorem find_first_alloc_one_area_witness:
  "find_first_alloc ex_area_mem 0xD0000000 0xD0011000 0x1000 0x2000 = Some 0xD000E000"
  using find_first_alloc_one_area [OF ex_areas, of "0xD0000000" "0xD0011000" "0x2000"] by simp

text \<open>
  Into a list of at most one area, a new area is inserted in descending order of the
  starting addresses and nothing is lost.
\<close>

theorem insert_area_short:
  assumes "areas m p xs" and "length xs \<le> 1" and "new \<noteq> NULL" and "area_next m new = NULL"
    and "\<forall>(b, st, ln) \<in> set xs. nodes_apart new b"
  shows "\<exists>p' m'. insert_new_vm_area m p new = Some (p', m') \<and>
    areas m' p' (if \<forall>(b, st, ln) \<in> set xs. st < area_start m new
      then (new, area_start m new, area_length m new) # xs
      else xs @ [(new, area_start m new, area_length m new)])"
  using insert_into_short_list [OF assms] by simp

definition ex_area_mem2 :: mem where
  "ex_area_mem2 = init_dynamic_alloc_area ex_area_mem 0x2000 0xD0000000 0x1000 1"

lemma ex_areas2:
  "areas ex_area_mem2 0x1000 [(0x1000, 0xD0010000, 0x1000)]" "area_next ex_area_mem2 0x2000 = NULL"
  "area_start ex_area_mem2 0x2000 = 0xD0000000" "area_length ex_area_mem2 0x2000 = 0x1000"
  by (simp_all add: ex_area_mem2_def ex_area_mem_def init_dynamic_alloc_area_def area_start_def
      area_length_def area_next_def set_area_length_def set_area_next_def Let_def
      num_pages_needed_def PAGE_SIZE_def write32_def read32_def)

theorem insert_area_short_witness:
  "\<exists>p' m'. insert_new_vm_area ex_area_mem2 0x1000 0x2000 = Some (p', m') \<and>
     areas m' p' [(0x1000, 0xD0010000, 0x1000), (0x2000, 0xD0000000, 0x1000)]"
  using insert_area_short [OF ex_areas2(1) _ _ ex_areas2(2)] by (simp add: ex_areas2 nodes_apart_def)

text \<open>
  Below the head of a list of two or more areas, the insertion loses areas: it compares
  the new area with the one behind the next, links it behind the first and ends the list there, so
  the second area and all behind it are no longer tracked.
\<close>

theorem insert_area_loses_tail:
  assumes "areas m p ((a, st, ln) # (b, stb, lnb) # xs)" and "new \<noteq> NULL" and "area_next m new = NULL"
    and "nodes_apart new a" and "area_start m new \<le> st"
    and "area_start m (area_next m b) < area_start m new"
  shows "\<exists>m'. insert_new_vm_area m p new = Some (p, m') \<and>
    areas m' p [(a, st, ln), (new, area_start m new, area_length m new)]"
  using assms by (rule insert_drops_tail)

definition ex_area_mem3 :: mem where
  "ex_area_mem3 = init_dynamic_alloc_area (set_area_next ex_area_mem2 0x1000 0x2000) 0x3000 0xD0008000 0x1000 1"

theorem insert_area_loses_tail_witness:
  "areas ex_area_mem3 0x1000 [(0x1000, 0xD0010000, 0x1000), (0x2000, 0xD0000000, 0x1000)] \<and>
   (\<exists>m'. insert_new_vm_area ex_area_mem3 0x1000 0x3000 = Some (0x1000, m') \<and>
      areas m' 0x1000 [(0x1000, 0xD0010000, 0x1000), (0x3000, 0xD0008000, 0x1000)])"
proof -
  note eval = ex_area_mem3_def ex_area_mem2_def ex_area_mem_def init_dynamic_alloc_area_def area_start_def
    area_length_def area_next_def set_area_length_def set_area_next_def Let_def
    num_pages_needed_def PAGE_SIZE_def write32_def read32_def
  have l: "areas ex_area_mem3 0x1000 [(0x1000, 0xD0010000, 0x1000), (0x2000, 0xD0000000, 0x1000)]"
    by (simp add: eval)
  have n: "area_next ex_area_mem3 0x3000 = NULL" "area_start ex_area_mem3 0x3000 = 0xD0008000"
    "area_length ex_area_mem3 0x3000 = 0x1000" "area_next ex_area_mem3 0x2000 = NULL"
    "area_start ex_area_mem3 NULL = 0"
    by (simp_all add: eval)
  show ?thesis
    using insert_area_loses_tail [OF l _ n(1)] l by (simp add: n nodes_apart_def)
qed

text \<open>
  \<open>vmalloc_free\<close> takes the pointer to a page-table entry for the entry, so the frame it asks
  to free is the one at which the page table itself appears in the recursive window; when the
  bitmap does not have that frame as allocated, the call fails, unmaps nothing and frees nothing.
\<close>

theorem vmalloc_free_wrong_frame:
  assumes "find_vm_area_starting_at (hmem s) va (allocated_areas_list s) = Some a"
    and "area_flags (hmem s) a AND VM_AREA_MMIO = 0"
    and "0 < num_pages_needed (area_length (hmem s) a)"
    and "\<not> allocated (pmm (paging s))
      (phys_addy_to_pfn (get_page_tab_virtual_pointer (get_PDE_idx (area_start (hmem s) a))))"
  shows "\<exists>p'. vmalloc_free va s = Some (False, s\<lparr>paging := (paging s)\<lparr>pmm := p'\<rparr>\<rparr>) \<and>
    (\<forall>j. allocated p' j \<longleftrightarrow> allocated (pmm (paging s)) j)"
  using free_pages_refused [OF assms(4,3)] assms(1,2) by (auto simp: vmalloc_free_def Let_def)

theorem vmalloc_free_wrong_frame_witness:
  "\<exists>p'. vmalloc_free 0xD0010000 (ex_vmm\<lparr>hmem := ex_area_mem, allocated_areas_list := 0x1000\<rparr>) =
     Some (False, ex_vmm\<lparr>hmem := ex_area_mem, allocated_areas_list := 0x1000, paging := ex_paging\<lparr>pmm := p'\<rparr>\<rparr>)"
proof -
  have f: "find_vm_area_starting_at ex_area_mem 0xD0010000 0x1000 = Some 0x1000"
    using find_vm_area_list [OF ex_areas] by (simp add: area_addr_def)
  have a: "area_flags ex_area_mem 0x1000 = 1" "area_length ex_area_mem 0x1000 = 0x1000"
    "area_start ex_area_mem 0x1000 = 0xD0010000"
    using ex_areas by (simp_all add: ex_area_mem_def init_dynamic_alloc_area_def area_flags_def
        set_area_length_def set_area_next_def write32_def read32_def Let_def)
  have "\<not> allocated ex_pmm (phys_addy_to_pfn (get_page_tab_virtual_pointer (get_PDE_idx 0xD0010000)))"
    by (simp add: pmm_eval addr_defs)
  moreover have "pmm ex_paging = ex_pmm" by (simp add: ex_paging_def boot_paging_def)
  ultimately show ?thesis
    using vmalloc_free_wrong_frame [of "ex_vmm\<lparr>hmem := ex_area_mem, allocated_areas_list := 0x1000\<rparr>"
        "0xD0010000" "0x1000"] f a
    by (auto simp: ex_vmm_def flag_defs num_pages_needed_def PAGE_SIZE_def)
qed

end
