(* ===== verification/Memory_Runs.thy ===== *)
theory Memory_Runs
  imports Pmm Kheap
begin

text \<open>
  The two allocators in use: any sequence of operations of their clients, as step relations on the
  state of the allocator and what the clients own.
\<close>

subsection \<open>Frames\<close>

text \<open>A client takes runs of frames, is refused, or gives back one of its frames.\<close>

definition frames_of :: "u32 \<Rightarrow> u32 \<Rightarrow> u32 set" where
  "frames_of a sz = {phys_addy_to_pfn a + k | k. k < num_pages_needed sz}"

inductive frame_step :: "pmm_state \<times> u32 set \<Rightarrow> pmm_state \<times> u32 set \<Rightarrow> bool" where
  take: "alloc_pageframe p sz = (a, p') \<Longrightarrow> a \<noteq> NULL \<Longrightarrow> frame_step (p, own) (p', own \<union> frames_of a sz)"
| refuse: "alloc_pageframe p sz = (NULL, p') \<Longrightarrow> frame_step (p, own) (p', own)"
| give_back: "free_pageframe p a = (ok, p') \<Longrightarrow> phys_addy_to_pfn a \<in> own \<Longrightarrow>
    frame_step (p, own) (p', own - {phys_addy_to_pfn a})"

inductive_cases frame_stepE: "frame_step (p, own) q"

text \<open>The bitmap marks the frames that were taken at the start and those the clients own, which are others.\<close>

definition frames_exact :: "pmm_state \<Rightarrow> pmm_state \<times> u32 set \<Rightarrow> bool" where
  "frames_exact p0 c \<longleftrightarrow> pmm_ok (fst c) \<and>
     (\<forall>j. allocated (fst c) j \<longleftrightarrow> allocated p0 j \<or> j \<in> snd c) \<and> (\<forall>j \<in> snd c. \<not> allocated p0 j)"

lemma free_pageframe_ok:
  assumes "pmm_ok p" and "free_pageframe p a = (ok, p')" and "phys_addy_to_pfn a \<noteq> 0"
  shows "pmm_ok p'"
  using free_pageframe_bits [OF assms(2), of 0] assms
  by (auto simp: free_pageframe_def pmm_ok_def Let_def split: prod.splits)

lemma frame_step_exact:
  assumes "frame_step c c'" and "frames_exact p0 c" and p0: "pmm_ok p0"
  shows "frames_exact p0 c'"
  using assms(1,2)
proof (induction rule: frame_step.induct)
  case (take p sz a p' own)
  then have ok: "pmm_ok p" by (simp add: frames_exact_def)
  have "allocated p' j \<longleftrightarrow> allocated p j \<or> j \<in> frames_of a sz" for j
    using bitmap.alloc_taken [OF ok take(1,2)] by (auto simp: frames_of_def)
  moreover have "\<not> allocated p j" if "j \<in> frames_of a sz" for j
    using that bitmap.alloc_fresh [OF ok take(1,2)] by (auto simp: frames_of_def)
  ultimately show ?case using take(3) bitmap.alloc_inv [OF ok take(1)] by (auto simp: frames_exact_def)
next
  case (refuse p sz p' own)
  then have "p' = p" using bitmap.alloc_null by (simp add: frames_exact_def)
  then show ?case using refuse by simp
next
  case (give_back p a ok p' own)
  then have "phys_addy_to_pfn a \<noteq> 0" using p0 by (auto simp: frames_exact_def pmm_ok_def)
  then have "pmm_ok p'" using free_pageframe_ok give_back by (auto simp: frames_exact_def)
  then show ?case using give_back bitmap.release_taken [OF give_back(1)] by (auto simp: frames_exact_def)
qed

lemma frame_run_exact: "frame_step\<^sup>*\<^sup>* c c' \<Longrightarrow> frames_exact p0 c \<Longrightarrow> pmm_ok p0 \<Longrightarrow> frames_exact p0 c'"
  by (induction rule: rtranclp_induct) (auto intro: frame_step_exact)

subsection \<open>Objects on the heap\<close>

lemma header_low: "heap_ok m r e bs \<Longrightarrow> unat (r + 16) \<le> unat x \<Longrightarrow> \<not> x - (r + 8) < 4"
proof -
  assume ok: "heap_ok m r e bs" and x: "unat (r + 16) \<le> unat x"
  have "unat r + 16 \<le> unat e" using ok by (simp add: heap_ok_def)
  then have "unat (r + 8) = unat r + 8" using unat_lt_2p32 [of e] by (subst unat_add_small) simp_all
  then show ?thesis
    using x heap_base(1) [OF ok] in_window [of "r + 8" 4 x] unat_lt_2p32 [of "r + 16"] by simp
qed

text \<open>Writing into the data of a live block leaves the heap in order.\<close>

lemma heap_ok_write:
  assumes ok: "heap_ok m r e (pre @ (k, True) # post)" and i: "i < k"
  defines "x \<equiv> advance (r + 16) pre + 8 + i"
  shows "heap_ok (m(x := v)) r e (pre @ (k, True) # post)"
proof -
  let ?a = "advance (r + 16) pre" and ?m = "m(x := v)"
  have tiles: "tiles m (r + 16) e (pre @ [(k, True)] @ post)" using ok by (simp add: heap_ok_def)
  note tiles' = tiles [simplified append_Cons append_Nil]
  note d = data_address [OF tiles' i] and f = block_fits [OF tiles']
  have ux: "unat x = unat ?a + 8 + unat i" unfolding x_def by (rule d(1))
  have z: "unat (?a + 8 + k) = unat ?a + 8 + unat k" by (rule block_end [OF f(1)])
  have le: "unat (r + 16) \<le> unat ?a" using tiles unfolding tiles_append by (auto dest: tiles_le)
  have e: "unat ?a + 8 \<le> 4294967295" using f(1) unat_lt_2p32 [of e] by simp
  have "?m y = m y" if "y - ?a < 8" for y
    using that in_window [of ?a 8 y] e ux by auto
  note tag = tag_agree [of ?a ?m m, OF this]
  have mid: "tiles m ?a e ((k, True) # post)" using tiles' unfolding tiles_append by simp
  have "tiles ?m (r + 16) e (pre @ [(k, True)] @ post)"
  proof (rule tiles_update [OF tiles])
    show "?m y = m y" if "\<not> (unat (advance (r + 16) pre) \<le> unat y \<and> unat y < unat (advance (advance (r + 16) pre) [(k, True)]))" for y
      using that ux z i by (auto simp: word_less_nat_alt)
    show "tiles ?m (advance (r + 16) pre) (advance (advance (r + 16) pre) [(k, True)]) [(k, True)]"
      using mid tag z by simp
  qed
  moreover have "?m y = m y" if "unat y < unat r + 16" for y
    using that ux le heap_base(1) [OF ok] by auto
  then have "heap_header ?m r e" "range_first_free ?m r = range_first_free m r"
    using header_agree [of m r e ?m] ok by (auto simp: heap_ok_def)
  ultimately show ?thesis using ok by (auto simp: heap_ok_def split: option.splits)
qed

lemma heap_liveI:
  "heap_ok (hmem s) (heap_ranges s) e (pre @ (n, True) # post) \<Longrightarrow> p = advance (heap_ranges s + 16) pre + 8 \<Longrightarrow> heap_live s p n"
  unfolding heap_live_def by blast

text \<open>
  Freeing keeps the other live blocks and their contents, unless the block is the last of the heap
  and the word behind the heap reads as a free tag, which would be merged into it.
\<close>

definition overruns :: "kheap \<Rightarrow> u32 \<Rightarrow> bool" where
  "overruns s p \<longleftrightarrow> (\<exists>e pre n. heap_ok (hmem s) (heap_ranges s) e (pre @ [(n, True)]) \<and>
     p = advance (heap_ranges s + 16) pre + 8 \<and> n \<noteq> 0 \<and> \<not> tag_used (hmem s) e)"

lemma advance_freed [simp]: "advance a (freed_block n k u) = a + 8 + n + 8 + k"
  by (simp add: freed_block_def add.assoc add.left_commute)

text \<open>The blocks behind a freed one stay where they are.\<close>

lemma freed_keeps_later:
  assumes "post = zs @ (k, True) # post2"
  obtains zs' where "freed n post = zs' @ (k, True) # post2" "advance (a + 8 + n) zs = advance a zs'"
proof (cases zs)
  case Nil
  then show ?thesis using that [of "[(n, False)]"] assms by (simp add: freed_def freed_block_def)
next
  case (Cons z zs2)
  obtain l u where "z = (l, u)" by fastforce
  then show ?thesis using that [of "freed_block n l u @ zs2"] assms Cons by (simp add: freed_def algebra_simps)
qed

lemma kfree_live:
  assumes "heap_live s p n" and "\<not> overruns s p"
  shows "\<exists>s'. kfree p s = Some s' \<and> heap_valid s' \<and>
    (\<forall>q k. heap_live s q k \<longrightarrow> q \<noteq> p \<longrightarrow> heap_live s' q k \<and> (\<forall>i < k. hmem s' (q + i) = hmem s (q + i)))"
proof -
  let ?r = "heap_ranges s" and ?t = "heap_ranges s + 16"
  obtain e pre post where ok: "heap_ok (hmem s) ?r e (pre @ (n, True) # post)" and p: "p = advance ?t pre + 8"
    using assms(1) unfolding heap_live_def by blast
  show ?thesis
  proof (cases "post = [] \<and> n = 0")
    case True
    then have "kfree p s = Some s" using kfree_last_empty [of s e pre] ok by (simp add: p)
    then show ?thesis using ok by (auto simp: heap_valid_def)
  next
    case False
    then have last: "post = [] \<Longrightarrow> n \<noteq> 0 \<and> tag_used (hmem s) e"
      using assms(2) ok p unfolding overruns_def by blast
    obtain m' where m': "kfree p s = Some (s\<lparr>hmem := m'\<rparr>)" "heap_ok m' ?r e (pre @ freed n post)"
      "\<And>x. \<not> x - advance ?t pre < 8 \<Longrightarrow> \<not> x - (?r + 8) < 4 \<Longrightarrow> m' x = hmem s x"
      using kfree_block [OF ok last] unfolding p by blast
    have tiles: "tiles (hmem s) ?t e (pre @ (n, True) # post)" using ok by (simp add: heap_ok_def)
    note f = block_fits [OF tiles]
    have e: "unat (advance ?t pre) + 8 \<le> 4294967295" using f(1) unat_lt_2p32 [of e] by simp
    have others: "heap_live (s\<lparr>hmem := m'\<rparr>) q k \<and> (\<forall>i < k. m' (q + i) = hmem s (q + i))"
      if live: "heap_live s q k" and ne: "q \<noteq> p" for q k
    proof -
      obtain e' pre2 post2 where ok2: "heap_ok (hmem s) ?r e' (pre2 @ (k, True) # post2)"
        and q: "q = advance ?t pre2 + 8"
        using live unfolding heap_live_def by blast
      have bs: "pre2 @ (k, True) # post2 = pre @ (n, True) # post" and "e' = e"
        using heap_ok_unique [OF ok2 ok] by simp_all
      have tiles2: "tiles (hmem s) ?t e (pre2 @ (k, True) # post2)" using tiles bs by simp
      have le: "unat ?t \<le> unat (advance ?t pre2)" using tiles2 unfolding tiles_append by (auto dest: tiles_le)
      have kept: "\<forall>i < k. m' (q + i) = hmem s (q + i)"
        if ap: "unat (advance ?t pre2) + 8 + unat k \<le> unat (advance ?t pre) \<or>
          unat (advance ?t pre) + 8 + unat n \<le> unat (advance ?t pre2)"
      proof (intro allI impI m'(3))
        fix i assume i: "i < k"
        note d = data_address [OF tiles2 i]
        show "\<not> q + i - advance ?t pre < 8" using d ap e in_window [of "advance ?t pre" 8 "q + i"] by (auto simp: q)
        show "\<not> q + i - (?r + 8) < 4" using d le by (intro header_low [OF ok]) (simp add: q)
      qed
      from bs show ?thesis
      proof (cases rule: append_split_cases)
        case 1
        then show ?thesis using ne by (simp add: p q)
      next
        case (2 zs)
        have "unat (advance ?t pre2) + 8 + unat k \<le> unat (advance ?t pre)"
          using later_block [of "hmem s" ?t e pre2 k True zs n True post] tiles by (simp add: 2)
        moreover have "heap_ok m' ?r e (pre2 @ (k, True) # zs @ freed n post)" using m'(2) by (simp add: 2)
        ultimately show ?thesis using kept by (auto simp: q intro: heap_liveI)
      next
        case (3 zs)
        have "unat (advance ?t pre) + 8 + unat n \<le> unat (advance ?t pre2)"
          using later_block [of "hmem s" ?t e pre n True zs k True post2] tiles2 by (simp add: 3)
        moreover obtain zs' where "freed n post = zs' @ (k, True) # post2"
          "advance (advance ?t pre + 8 + n) zs = advance (advance ?t pre) zs'"
          using 3 freed_keeps_later [of post zs k post2 n "advance ?t pre"] by blast
        then have "heap_ok m' ?r e ((pre @ zs') @ (k, True) # post2)" "q = advance ?t (pre @ zs') + 8"
          using m'(2) 3 by (simp_all add: q)
        ultimately show ?thesis using kept heap_liveI [of "s\<lparr>hmem := m'\<rparr>" e "pre @ zs'" k post2 q] by simp
      qed
    qed
    have "heap_valid (s\<lparr>hmem := m'\<rparr>)" using m'(2) by (auto simp: heap_valid_def)
    then show ?thesis using m'(1) others by auto
  qed
qed

text \<open>
  The clients' view: each object they hold is an array of bytes of its own. They write into an
  object at an index below its length, allocate, and free an object unless that overruns the heap.
  When no free block fits, the heap asks the virtual memory manager for two more pages: that manager
  is itself a client and may write into objects on its way. The steps leave out requests for more
  memory that are refused, and those that two pages do not hold.
\<close>

inductive store_step :: "kheap \<times> (u32 \<rightharpoonup> u8 list) \<Rightarrow> kheap \<times> (u32 \<rightharpoonup> u8 list) \<Rightarrow> bool" where
  store: "f p = Some xs \<Longrightarrow> i < length xs \<Longrightarrow>
    store_step (s, f) (s\<lparr>hmem := (hmem s)(p + of_nat i := v)\<rparr>, f(p \<mapsto> xs[i := v]))"

definition bytes_at :: "kheap \<Rightarrow> u32 \<Rightarrow> u32 \<Rightarrow> u8 list" where
  "bytes_at s p n = map (\<lambda>i. hmem s (p + of_nat i)) [0..<unat n]"

inductive heap_step :: "(u32 \<Rightarrow> u32 \<Rightarrow> kheap \<Rightarrow> (u32 \<times> kheap) option) \<Rightarrow> (u32 \<Rightarrow> kheap \<Rightarrow> (u32 \<times> kheap) option) \<Rightarrow>
    kheap \<times> (u32 \<rightharpoonup> u8 list) \<Rightarrow> kheap \<times> (u32 \<rightharpoonup> u8 list) \<Rightarrow> bool"
  for request_more vm where
  alloc: "heap_ok (hmem s) (heap_ranges s) e bs \<Longrightarrow> first_fit (heap_ranges s + 16) req bs \<noteq> None \<Longrightarrow>
    kmalloc request_more vm req s = Some (p, s') \<Longrightarrow>
    heap_step request_more vm (s, f) (s', f(p \<mapsto> bytes_at s' p req))"
| grow: "heap_ok (hmem s) (heap_ranges s) e bs \<Longrightarrow> first_fit (heap_ranges s + 16) req bs = None \<Longrightarrow>
    req \<le> 8184 \<Longrightarrow> unat e + 8192 \<le> 4294967295 \<Longrightarrow>
    request_more (heap_ranges s - 8) 8192 s = Some (res, s1) \<Longrightarrow> res \<noteq> NULL \<Longrightarrow>
    store_step\<^sup>*\<^sup>* (s, f) (s1, f1) \<Longrightarrow> kmalloc request_more vm req s = Some (p, s') \<Longrightarrow>
    heap_step request_more vm (s, f) (s', f1(p \<mapsto> bytes_at s' p req))"
| update: "store_step c c' \<Longrightarrow> heap_step request_more vm c c'"
| free: "f p = Some xs \<Longrightarrow> \<not> overruns s p \<Longrightarrow> kfree p s = Some s' \<Longrightarrow>
    heap_step request_more vm (s, f) (s', f(p := None))"

inductive_cases store_stepE: "store_step (s, f) c"

text \<open>Every object lies in a live block and the memory holds its bytes.\<close>

definition object_in :: "kheap \<Rightarrow> u32 \<Rightarrow> u8 list \<Rightarrow> bool" where
  "object_in s p xs \<longleftrightarrow> (\<exists>k. heap_live s p k \<and> length xs \<le> unat k \<and> (\<forall>i < length xs. hmem s (p + of_nat i) = xs ! i))"

definition objects_ok :: "kheap \<times> (u32 \<rightharpoonup> u8 list) \<Rightarrow> bool" where
  "objects_ok c \<longleftrightarrow> heap_valid (fst c) \<and> (\<forall>p xs. snd c p = Some xs \<longrightarrow> object_in (fst c) p xs)"

lemma index_in_block: "i < length xs \<Longrightarrow> length xs \<le> unat (k :: u32) \<Longrightarrow> (of_nat i :: u32) < k"
  using unat_lt_2p32 [of k] by (simp add: word_less_nat_alt unat_of_nat_small)

text \<open>An object survives whatever keeps its block and the block's contents.\<close>

lemma object_in_keep:
  assumes "object_in s q xs" and "\<And>k. heap_live s q k \<Longrightarrow> heap_live s' q k \<and> (\<forall>i < k. hmem s' (q + i) = hmem s (q + i))"
  shows "object_in s' q xs"
proof -
  obtain k where k: "heap_live s q k" "length xs \<le> unat k" "\<forall>i < length xs. hmem s (q + of_nat i) = xs ! i"
    using assms(1) by (auto simp: object_in_def)
  then have "hmem s' (q + of_nat i) = xs ! i" if "i < length xs" for i
    using assms(2) [OF k(1)] index_in_block [OF that k(2)] that by simp
  then show ?thesis using assms(2) [OF k(1)] k(2) unfolding object_in_def by blast
qed

lemma heap_live_write:
  assumes "heap_live s p k" and "i < k" and "heap_live s q l"
  shows "heap_live (s\<lparr>hmem := (hmem s)(p + i := v)\<rparr>) q l"
proof -
  obtain e pre post where ok: "heap_ok (hmem s) (heap_ranges s) e (pre @ (k, True) # post)" "p = advance (heap_ranges s + 16) pre + 8"
    using assms(1) unfolding heap_live_def by blast
  obtain e' pre' post' where ok': "heap_ok (hmem s) (heap_ranges s) e' (pre' @ (l, True) # post')" "q = advance (heap_ranges s + 16) pre' + 8"
    using assms(3) unfolding heap_live_def by blast
  have "heap_ok ((hmem s)(p + i := v)) (heap_ranges s) e (pre' @ (l, True) # post')"
    using heap_ok_write [OF ok(1) assms(2), of v] heap_ok_unique [OF ok'(1) ok(1)] by (simp add: ok(2))
  then show ?thesis by (intro heap_liveI [where pre = pre' and e = e and post = post']) (simp_all add: ok'(2))
qed

lemma store_step_objects:
  assumes "store_step c c'" and "objects_ok c"
  shows "objects_ok c' \<and> heap_ranges (fst c') = heap_ranges (fst c) \<and>
    (\<forall>e bs. heap_ok (hmem (fst c)) (heap_ranges (fst c)) e bs \<longrightarrow>
      heap_ok (hmem (fst c')) (heap_ranges (fst c)) e bs)"
  using assms
proof (induction rule: store_step.induct)
  case (store f p xs i s v)
  then have "object_in s p xs" by (simp add: objects_ok_def)
  then obtain k where k: "heap_live s p k" "length xs \<le> unat k" "\<forall>j < length xs. hmem s (p + of_nat j) = xs ! j"
    unfolding object_in_def by blast
  let ?s = "s\<lparr>hmem := (hmem s)(p + of_nat i := v)\<rparr>"
  have i: "(of_nat i :: u32) < k" using store(2) k(2) by (rule index_in_block)
  have live: "heap_live ?s q l" if "heap_live s q l" for q l using heap_live_write [OF k(1) i that] .
  have "p + of_nat j \<noteq> p + of_nat i" if "j < length xs" "j \<noteq> i" for j
  proof -
    have "unat (of_nat j :: u32) = j" "unat (of_nat i :: u32) = i"
      using that store(2) k(2) unat_lt_2p32 [of k] by (simp_all add: unat_of_nat_small)
    then show ?thesis using that(2) by (metis add_left_cancel)
  qed
  then have "hmem ?s (p + of_nat j) = xs[i := v] ! j" if "j < length xs" for j
    using that k(3) by (cases "j = i") simp_all
  then have "object_in ?s p (xs[i := v])"
    using live [OF k(1)] k(2) unfolding object_in_def by (intro exI [of _ k]) simp
  moreover have "object_in ?s q ys" if q: "f q = Some ys" "q \<noteq> p" for q ys
  proof (rule object_in_keep [of s])
    show "object_in s q ys" using store(3) q(1) by (auto simp: objects_ok_def)
    fix l assume l: "heap_live s q l"
    have "q + j \<noteq> p + of_nat i" if "j < l" for j by (rule heap_live_apart [OF l k(1) q(2) that i])
    then show "heap_live ?s q l \<and> (\<forall>j < l. hmem ?s (q + j) = hmem s (q + j))" using live [OF l] by auto
  qed
  moreover have "heap_valid ?s" using live [OF k(1)] by (auto simp: heap_live_def heap_valid_def)
  moreover have "heap_ok (hmem ?s) (heap_ranges s) e bs" if bs: "heap_ok (hmem s) (heap_ranges s) e bs" for e bs
  proof -
    obtain e' pre post where ok: "heap_ok (hmem s) (heap_ranges s) e' (pre @ (k, True) # post)"
      "p = advance (heap_ranges s + 16) pre + 8"
      using k(1) unfolding heap_live_def by blast
    then show ?thesis using heap_ok_write [OF ok(1) i, of v] heap_ok_unique [OF bs ok(1)] by simp
  qed
  ultimately have "objects_ok (?s, f(p \<mapsto> xs[i := v])) \<and> heap_ranges ?s = heap_ranges s \<and>
      (\<forall>e bs. heap_ok (hmem s) (heap_ranges s) e bs \<longrightarrow> heap_ok (hmem ?s) (heap_ranges s) e bs)"
    unfolding objects_ok_def by simp
  then show ?case unfolding fst_conv .
qed

lemma store_run_objects:
  assumes "store_step\<^sup>*\<^sup>* c c'" and "objects_ok c"
  shows "objects_ok c' \<and> heap_ranges (fst c') = heap_ranges (fst c) \<and>
    (\<forall>e bs. heap_ok (hmem (fst c)) (heap_ranges (fst c)) e bs \<longrightarrow>
      heap_ok (hmem (fst c')) (heap_ranges (fst c)) e bs)"
  using assms
proof (induction rule: rtranclp_induct)
  case (step d c')
  then show ?case using store_step_objects [OF step(2)] by simp
qed simp

lemma bytes_object:
  assumes "heap_live s p n" and "req \<le> n"
  shows "object_in s p (bytes_at s p req)"
  using assms by (auto simp: object_in_def bytes_at_def word_le_nat_alt)

text \<open>A grown heap keeps the old blocks.\<close>

lemma grown_keeps:
  assumes ok: "heap_ok (hmem s) (heap_ranges s) e bs" and fits: "unat e + 8192 \<le> 4294967295"
    and ok': "heap_ok m' (heap_ranges s) (e + 8192) (bs @ new)"
    and same: "\<And>x. \<not> x - e < 8192 \<Longrightarrow> \<not> x - (heap_ranges s + 4) < 8 \<Longrightarrow> m' x = hmem s x"
    and live: "heap_live s q k"
  shows "heap_live (s\<lparr>hmem := m'\<rparr>) q k \<and> (\<forall>i < k. m' (q + i) = hmem s (q + i))"
proof -
  let ?r = "heap_ranges s" and ?t = "heap_ranges s + 16"
  obtain e' pre post where okq: "heap_ok (hmem s) ?r e' (pre @ (k, True) # post)" and q: "q = advance ?t pre + 8"
    using live unfolding heap_live_def by blast
  have bs: "bs = pre @ (k, True) # post" using heap_ok_unique [OF ok okq] by simp
  have tiles: "tiles (hmem s) ?t e (pre @ (k, True) # post)" using ok by (simp add: heap_ok_def bs)
  have le: "unat ?t \<le> unat (advance ?t pre)" using tiles unfolding tiles_append by (auto dest: tiles_le)
  have r: "unat ?r + 16 \<le> unat e" using ok by (simp add: heap_ok_def)
  then have "unat (?r + 4) = unat ?r + 4" using fits by (subst unat_add_small) simp_all
  then have "m' (q + i) = hmem s (q + i)" if "i < k" for i
    using data_address [OF tiles that] block_fits(1) [OF tiles] le heap_base(1) [OF ok] r fits
      in_window [of e 8192 "q + i"] in_window [of "?r + 4" 8 "q + i"]
    by (intro same) (simp_all add: q)
  then show ?thesis using heap_liveI [of "s\<lparr>hmem := m'\<rparr>" "e + 8192" pre k "post @ new" q] ok' by (simp add: bs q)
qed

lemma heap_step_objects:
  assumes "heap_step request_more vm c c'" and "objects_ok c"
  shows "objects_ok c'"
  using assms
proof (induction rule: heap_step.induct)
  case (alloc s e bs req p s' f)
  then have v: "heap_valid s" by (simp add: objects_ok_def)
  have call: "kmalloc_within s req = Some (p, s')" using alloc(3) kmalloc_is_within [OF alloc(1,2)] by simp
  obtain n where n: "heap_live s' p n" "req \<le> n" using kh.alloc_live [OF v call] by blast
  have "object_in s' q xs" if "f q = Some xs" "q \<noteq> p" for q xs
    by (rule object_in_keep [of s])
      (use alloc that kh.alloc_keeps [OF v call] in \<open>auto simp: objects_ok_def\<close>)
  then show ?case using kh.alloc_ok [OF v call] bytes_object [OF n] by (auto simp: objects_ok_def)
next
  case (grow s e bs req res s1 f f1 p s')
  have s1: "objects_ok (s1, f1)" "heap_ranges s1 = heap_ranges s" "heap_ok (hmem s1) (heap_ranges s) e bs"
    using store_run_objects [OF grow(7,9)] grow(1) by simp_all
  obtain m' where m': "p = e + 8" "s' = s1\<lparr>hmem := m'\<rparr>"
    "heap_ok m' (heap_ranges s) (e + 8192) (bs @ split_block req 8184)"
    "\<And>x. \<not> x - e < 8192 \<Longrightarrow> \<not> x - (heap_ranges s + 4) < 8 \<Longrightarrow> m' x = hmem s1 x"
    using kmalloc_grows [where request_more = request_more and vm = vm, OF grow(1,2,5,6) s1(2,3) grow(4,3)] grow(8) by auto
  have "advance (heap_ranges s + 16) bs = e"
    by (rule tiles_advance [of "hmem s"]) (use grow(1) in \<open>simp add: heap_ok_def\<close>)
  moreover obtain n rest where n: "split_block req 8184 = (n, True) # rest" "req \<le> n"
    using grow(3) by (cases "req + 8 < 8184") (auto simp: split_block_def)
  ultimately have "heap_live s' p n"
    using m'(3) s1(2) by (intro heap_liveI [of _ "e + 8192" bs n rest]) (simp_all add: m'(1,2))
  moreover have "object_in s' q xs" if "f1 q = Some xs" for q xs
  proof (rule object_in_keep [of s1])
    show "object_in s1 q xs" using s1(1) that by (auto simp: objects_ok_def)
    show "heap_live s' q k \<and> (\<forall>i < k. hmem s' (q + i) = hmem s1 (q + i))" if "heap_live s1 q k" for k
      using grown_keeps [of s1 e bs m' "split_block req 8184" q k] s1 m'(3,4) grow(4) that by (simp add: m'(2))
  qed
  moreover have "heap_valid s'" using m'(3) s1(2) by (auto simp: heap_valid_def m'(2))
  ultimately show ?case using bytes_object [OF _ n(2)] by (auto simp: objects_ok_def)
next
  case (update c c')
  then show ?case using store_step_objects by blast
next
  case (free f p xs s s')
  have "object_in s p xs" using free(1,4) by (simp add: objects_ok_def)
  then obtain n where "heap_live s p n" unfolding object_in_def by blast
  from kfree_live [OF this free(2)] have keeps: "heap_valid s'"
    "heap_live s q k \<Longrightarrow> q \<noteq> p \<Longrightarrow> heap_live s' q k \<and> (\<forall>i < k. hmem s' (q + i) = hmem s (q + i))" for q k
    using free(3) by auto
  have "object_in s' q ys" if "f q = Some ys" "q \<noteq> p" for q ys
    by (rule object_in_keep [of s]) (use free(4) that keeps(2) in \<open>auto simp: objects_ok_def\<close>)
  then show ?case using keeps(1) by (auto simp: objects_ok_def)
qed

lemma heap_run_objects: "(heap_step request_more vm)\<^sup>*\<^sup>* c c' \<Longrightarrow> objects_ok c \<Longrightarrow> objects_ok c'"
  by (induction rule: rtranclp_induct) (auto intro: heap_step_objects)

subsection \<open>Properties\<close>

text \<open>
  C2. Whatever sequence of allocations and frees the clients of the frame allocator perform, the bitmap
  stays well formed and marks exactly the frames that were taken before and the ones the clients own;
  the next allocation hands out frames that are neither.
\<close>

theorem frames_never_shared:
  assumes "pmm_ok p0" and "frame_step\<^sup>*\<^sup>* (p0, {}) (p, own)"
  shows "pmm_ok p \<and> (\<forall>j. allocated p j \<longleftrightarrow> allocated p0 j \<or> j \<in> own) \<and>
    (\<forall>sz a p'. alloc_pageframe p sz = (a, p') \<and> a \<noteq> NULL \<longrightarrow>
       (\<forall>j \<in> frames_of a sz. j \<notin> own \<and> \<not> allocated p0 j))"
proof -
  have "frames_exact p0 (p0, {})" using assms(1) by (simp add: frames_exact_def)
  then have inv: "frames_exact p0 (p, own)" using frame_run_exact [OF assms(2) _ assms(1)] by blast
  moreover from inv have "j \<notin> own \<and> \<not> allocated p0 j"
    if "alloc_pageframe p sz = (a, p')" "a \<noteq> NULL" "j \<in> frames_of a sz" for sz a p' j
    using bitmap.alloc_fresh [OF _ that(1,2)] that(3) by (auto simp: frames_exact_def frames_of_def)
  ultimately show ?thesis by (auto simp: frames_exact_def)
qed


text \<open>Two frames are taken and the first is given back.\<close>

theorem frames_never_shared_witness:
  "\<exists>p. frame_step\<^sup>*\<^sup>* (ex_pmm, {}) (p, {4}) \<and> (\<forall>j. allocated p j \<longleftrightarrow> allocated ex_pmm j \<or> j = 4)"
proof -
  let ?p1 = "snd (alloc_pageframe ex_pmm 4096)"
  let ?p2 = "snd (alloc_pageframe ?p1 4096)"
  have a: "alloc_pageframe ex_pmm 4096 = (0x1000, ?p1)" and b: "alloc_pageframe ?p1 4096 = (0x4000, ?p2)"
    by (simp_all add: pmm_eval)
  have one: "num_pages_needed 4096 = 1" by (simp add: pmm_eval)
  have pfn: "phys_addy_to_pfn 0x1000 = 1" "phys_addy_to_pfn 0x4000 = 4" by (simp_all add: pmm_eval)
  have f: "frames_of 0x1000 4096 = {1}" "frames_of 0x4000 4096 = {4}"
    by (auto simp: frames_of_def one pfn word_less_1)
  have "frame_step (ex_pmm, {}) (?p1, {1})" using frame_step.take [OF a, of "{}"] f by simp
  moreover have "frame_step (?p1, {1}) (?p2, {1, 4})" using frame_step.take [OF b, of "{1}"] f by (simp add: insert_commute)
  ultimately have "frame_step\<^sup>*\<^sup>* (ex_pmm, {}) (?p2, {1, 4})" by (rule converse_rtranclp_into_rtranclp [OF _ r_into_rtranclp])
  moreover obtain ok p3 where "free_pageframe ?p2 0x1000 = (ok, p3)" by fastforce
  then have "frame_step (?p2, {1, 4}) (p3, {4})" using frame_step.give_back [of ?p2 "0x1000" ok p3 "{1, 4}"] pfn by simp
  ultimately have run: "frame_step\<^sup>*\<^sup>* (ex_pmm, {}) (p3, {4})" by (rule rtranclp.rtrancl_into_rtrancl)
  have "pmm_ok ex_pmm" by (simp add: pmm_eval)
  with frames_never_shared [OF this run] run show ?thesis by blast
qed

text \<open>
  C3. Start from a heap in order and let its clients allocate, write within their objects and free
  them in any sequence. The heap may grow on the way, when the virtual memory manager grants two more
  pages and writes only into objects of its own while it does so. Left out are requests that need more
  memory and are refused it or do not fit into two pages, and the free of the last block while the
  word behind the heap reads as a free tag. Then the heap stays in order and every object holds
  exactly the bytes its owner wrote last: the objects behave as separate arrays, and no two of them
  share a byte.
\<close>

theorem heap_objects_separate:
  assumes "heap_valid s0" and "(heap_step request_more vm)\<^sup>*\<^sup>* (s0, Map.empty) (s, f)"
  shows "heap_valid s \<and>
    (\<forall>p xs i. f p = Some xs \<and> i < length xs \<longrightarrow> hmem s (p + of_nat i) = xs ! i) \<and>
    (\<forall>p q xs ys i j. f p = Some xs \<and> f q = Some ys \<and> p \<noteq> q \<and> i < length xs \<and> j < length ys \<longrightarrow>
       p + of_nat i \<noteq> q + of_nat j)"
proof -
  have "objects_ok (s0, Map.empty)" using assms(1) by (simp add: objects_ok_def)
  then have inv: "objects_ok (s, f)" using heap_run_objects [OF assms(2)] by blast
  have "hmem s (p + of_nat i) = xs ! i" if "f p = Some xs" "i < length xs" for p xs i
    using inv that by (auto simp: objects_ok_def object_in_def)
  moreover have "p + of_nat i \<noteq> q + of_nat j"
    if "f p = Some xs" "f q = Some ys" "p \<noteq> q" "i < length xs" "j < length ys" for p q xs ys i j
  proof -
    have o: "object_in s p xs" "object_in s q ys" using inv that(1,2) by (simp_all add: objects_ok_def)
    obtain k l where "heap_live s p k" "length xs \<le> unat k" "heap_live s q l" "length ys \<le> unat l"
      using o unfolding object_in_def by blast
    then show ?thesis using heap_live_apart that(3) index_in_block [OF that(4)] index_in_block [OF that(5)] by blast
  qed
  ultimately show ?thesis using inv by (auto simp: objects_ok_def)
qed

text \<open>
  The heap's 64 bytes are allocated, the first of them is written, and one more object makes the heap
  grow behind its end at 0x1060.
\<close>

definition ex_more :: "u32 \<Rightarrow> u32 \<Rightarrow> kheap \<Rightarrow> (u32 \<times> kheap) option" where
  "ex_more = (\<lambda>start n s. Some (start, s))"

theorem heap_objects_separate_witness:
  "\<exists>s f. (heap_step ex_more (\<lambda>_ _. None))\<^sup>*\<^sup>* (ex_heap, Map.empty) (s, f) \<and>
     f 0x1020 \<noteq> None \<and> f 0x1068 \<noteq> None \<and> hmem s 0x1020 = 0x41"
proof -
  let ?step = "heap_step ex_more (\<lambda>_ _. None)"
  have r: "heap_ranges ex_heap = 0x1008" by (simp add: ex_heap_def)
  obtain m' where 1: "kmalloc ex_more (\<lambda>_ _. None) 64 ex_heap = Some (0x1020, ex_heap\<lparr>hmem := m'\<rparr>)"
    and ok: "heap_ok m' 0x1008 0x1060 [(64, True)]"
    using kmalloc_fits [OF ex_heap_ok, of 64 "0x1018" ex_more "\<lambda>_ _. None"] r
    by (auto simp: Cons_eq_append_conv split_block_def)
  let ?s1 = "ex_heap\<lparr>hmem := m'\<rparr>"
  define xs where "xs = bytes_at ?s1 0x1020 64"
  have len: "length xs = 64" by (simp add: xs_def bytes_at_def)
  let ?f1 = "[0x1020 \<mapsto> xs]" and ?s2 = "ex_heap\<lparr>hmem := m'(0x1020 := 0x41)\<rparr>"
  let ?f2 = "?f1(0x1020 \<mapsto> xs[0 := 0x41])"
  have "?step (ex_heap, Map.empty) (?s1, ?f1)"
    using heap_step.alloc [OF ex_heap_ok _ 1, of Map.empty] r by (simp add: xs_def)
  moreover have "?step (?s1, ?f1) (?s2, ?f2)"
    using heap_step.update [OF store_step.store [of ?f1 "0x1020" xs 0 ?s1 "0x41"]] len by simp
  ultimately have run: "?step\<^sup>*\<^sup>* (ex_heap, Map.empty) (?s2, ?f2)"
    by (rule converse_rtranclp_into_rtranclp [OF _ r_into_rtranclp])
  have ok2: "heap_ok (hmem ?s2) (heap_ranges ?s2) 0x1060 [(64, True)]"
    using heap_ok_write [of m' "0x1008" "0x1060" "[]" 64 "[]" 0 "0x41"] ok r by simp
  have more: "ex_more (heap_ranges ?s2 - 8) 8192 ?s2 = Some (0x1000, ?s2)" by (simp add: ex_more_def r)
  obtain m3 where 3: "kmalloc ex_more (\<lambda>_ _. None) 16 ?s2 = Some (0x1068, ex_heap\<lparr>hmem := m3\<rparr>)"
    using kmalloc_grows [OF ok2, where request_more = ex_more and vm = "\<lambda>_ _. None" and req = 16] ok2 more
    by fastforce
  let ?s3 = "ex_heap\<lparr>hmem := m3\<rparr>"
  have "?step (?s2, ?f2) (?s3, ?f2(0x1068 \<mapsto> bytes_at ?s3 0x1068 16))"
    by (rule heap_step.grow [OF ok2 _ _ _ more _ _ 3]) simp_all
  with run have run3: "?step\<^sup>*\<^sup>* (ex_heap, Map.empty) (?s3, ?f2(0x1068 \<mapsto> bytes_at ?s3 0x1068 16))"
    by (rule rtranclp.rtrancl_into_rtrancl)
  have "heap_valid ex_heap" using ex_heap_ok by (auto simp: heap_valid_def)
  from conjunct1 [OF conjunct2 [OF heap_objects_separate [OF this run3]], rule_format, of "0x1020" "xs[0 := 0x41]" 0] len
  have "hmem ?s3 0x1020 = 0x41" by simp
  with run3 show ?thesis
    by (intro exI [of _ ?s3] exI [of _ "?f2(0x1068 \<mapsto> bytes_at ?s3 0x1068 16)"]) simp
qed

end
