(* ===== verification/Boot_Mem.thy ===== *)
theory Boot_Mem
  imports Vmm Libc
begin

text \<open>
  The start of the memory managers: \<^verbatim>\<open>src/kernel/memory_management/mem_map.c\<close>,
  \<open>init_pmm\<close> of pmm.c and \<open>init_MMIO_device\<close> of \<^verbatim>\<open>src/drivers/driver.c\<close>. The array
  \<open>regions\<close> is a function of the index; the code does not check the index against the array's
  size, so indices from \<open>MAX_SUPPORTED_RESERVED_BOOT_REGIONS\<close> on stand for the memory behind it.
\<close>

subsection \<open>Usable memory\<close>

record usable_region =
  reg_start :: u32
  reg_length :: u32

record mmap_entry =
  addr :: u64
  len :: u64
  mtype :: u32

definition MAX_SUPPORTED_RESERVED_BOOT_REGIONS :: nat where
  "MAX_SUPPORTED_RESERVED_BOOT_REGIONS = 20"

definition MULTIBOOT_MEMORY_AVAILABLE :: u32 where "MULTIBOOT_MEMORY_AVAILABLE = 1"
definition MULTIBOOT_MEMORY_ACPI_RECLAIMABLE :: u32 where "MULTIBOOT_MEMORY_ACPI_RECLAIMABLE = 3"

partial_function (option) usable_from :: "(nat \<Rightarrow> usable_region) \<Rightarrow> u32 \<Rightarrow> nat \<Rightarrow> bool option" where
  "usable_from regions pageframe_address reg =
     (if reg_length (regions reg) \<noteq> 0 then
        (let reg_end = reg_start (regions reg) + reg_length (regions reg) in
         if pageframe_address \<ge> reg_start (regions reg) \<and> pageframe_address + PAGE_SIZE - 1 < reg_end
         then Some True
         else usable_from regions pageframe_address (reg + 1))
      else Some False)"

definition is_page_usable :: "(nat \<Rightarrow> usable_region) \<Rightarrow> u32 \<Rightarrow> bool option" where
  "is_page_usable regions pageframe_address = usable_from regions pageframe_address 0"

definition init_usable_region :: "mmap_entry \<Rightarrow> u8 \<Rightarrow> (nat \<Rightarrow> usable_region) \<Rightarrow> nat \<Rightarrow> usable_region" where
  "init_usable_region mem_entry idx regions =
     regions(unat idx := \<lparr>reg_start = ucast (addr mem_entry), reg_length = ucast (len mem_entry)\<rparr>)"

subsection \<open>The frame bitmap\<close>

text \<open>\<open>VIRT_KERNEL_END\<close> is the argument \<open>kernel_end\<close>.\<close>

definition map_bitmap :: "u32 \<Rightarrow> u32 \<Rightarrow> paging_state \<Rightarrow> paging_state option" where
  "map_bitmap start pages s =
     for_loop 0 pages (\<lambda>idx so. Option.bind so (\<lambda>s.
       let curr_page = start + idx * PAGE_SIZE in
       map_option snd (map_pageframe s (kernel_PGD s) (phys_addy curr_page) curr_page VM_AREA_WRITE)))
     (Some s)"

definition free_usable :: "(nat \<Rightarrow> usable_region) \<Rightarrow> pmm_state \<Rightarrow> pmm_state option" where
  "free_usable regions p =
     for_loop (0x100000 div PAGE_SIZE) (bitmap_num_bits p) (\<lambda>pfn po. Option.bind po (\<lambda>p.
       map_option (\<lambda>usable. if usable then p\<lparr>kmem := snd (free_pfn (kmem p) (alloc_bitmap p) pfn)\<rparr> else p)
         (is_page_usable regions (pfn_to_phys_addy pfn))))
     (Some p)"

definition init_pmm :: "u32 \<Rightarrow> u32 \<Rightarrow> (nat \<Rightarrow> usable_region) \<Rightarrow> paging_state \<Rightarrow> paging_state option" where
  "init_pmm kernel_end memory_size regions s =
     (let start = round_up_to_nearest_page kernel_end;
          num_bits = memory_size div PAGE_SIZE;
          byte_size = num_bits div 8;
          end_addr = round_up_to_nearest_page (start + byte_size);
          p = \<lparr>kmem = kmem (pmm s), alloc_bitmap = start, bitmap_num_bits = num_bits,
               pmm_bitmap_start_addy = start, pmm_bitmap_end_addy = end_addr\<rparr>;
          pages_req_for_bitmap = (end_addr - start) div PAGE_SIZE
      in Option.bind (map_bitmap start pages_req_for_bitmap (s\<lparr>pmm := p\<rparr>)) (\<lambda>s.
           let p = (pmm s)\<lparr>kmem := memset (kmem (pmm s)) (alloc_bitmap (pmm s)) 0xff byte_size\<rparr> in
           map_option (\<lambda>p. s\<lparr>pmm := snd (alloc_requested_pageframe p (phys_addy start) byte_size)\<rparr>)
             (free_usable regions p)))"

subsection \<open>The memory map\<close>

record boot_mem =
  regions_arr :: "nat \<Rightarrow> usable_region"
  next_region :: u8
  acpi_entry :: "mmap_entry option"
  mem_length :: u32

definition num_mmap_entries :: "u32 \<Rightarrow> u32 \<Rightarrow> u32" where
  "num_mmap_entries tag_size_field entry_size = (tag_size_field - 16) div entry_size"

definition process_mem_entry :: "mmap_entry \<Rightarrow> boot_mem \<Rightarrow> boot_mem" where
  "process_mem_entry mem_entry b =
     (let b = (if mtype mem_entry = MULTIBOOT_MEMORY_AVAILABLE then
                 b\<lparr>regions_arr := init_usable_region mem_entry (next_region b) (regions_arr b),
                   next_region := next_region b + 1\<rparr>
               else if mtype mem_entry = MULTIBOOT_MEMORY_ACPI_RECLAIMABLE then
                 b\<lparr>acpi_entry := Some mem_entry\<rparr>
               else b)
      in b\<lparr>mem_length := mem_length b + ucast (len mem_entry)\<rparr>)"

definition process_mem_entries :: "mmap_entry list \<Rightarrow> boot_mem \<Rightarrow> boot_mem" where
  "process_mem_entries entries b = fold process_mem_entry entries b"

definition init_MMIO_device ::
    "nat \<Rightarrow> ('a vmm_scheme \<Rightarrow> u32) \<Rightarrow> u32 \<Rightarrow> u32 \<Rightarrow> 'a vmm_scheme \<Rightarrow> (bool \<times> 'a vmm_scheme) option" where
  "init_MMIO_device fuel noflags starting_physical_address sz s =
     map_option (\<lambda>(virtual_mapping, s). (virtual_mapping \<noteq> NULL, s))
       (vmalloc_request_virtual_address fuel noflags starting_physical_address sz
          (VM_AREA_MMIO OR VM_AREA_WRITE) s)"

text \<open>
  \<open>entries\<close> are the first \<open>num_mmap_entries\<close> structures of the tag and \<open>null_entry\<close> what the
  structure at address 0 reads as, for a machine without an ACPI region.
\<close>

definition init_memory ::
    "nat \<Rightarrow> ('a vmm_scheme \<Rightarrow> u32) \<Rightarrow> u32 \<Rightarrow> mmap_entry \<Rightarrow> mmap_entry list \<Rightarrow> boot_mem \<Rightarrow>
     'a vmm_scheme \<Rightarrow> (boot_mem \<times> 'a vmm_scheme) option" where
  "init_memory fuel noflags kernel_end null_entry entries b s =
     (let b = process_mem_entries entries (b\<lparr>next_region := 0, acpi_entry := None\<rparr>) in
      Option.bind (init_pmm kernel_end (mem_length b) (regions_arr b) (paging s)) (\<lambda>ps.
        let s = init_vmm 0 (mem_length b) (s\<lparr>paging := ps\<rparr>) in
        Option.bind (vmm_init_kheap fuel noflags s) (\<lambda>s.
          let entry = (case acpi_entry b of Some e \<Rightarrow> e | None \<Rightarrow> null_entry) in
          map_option (\<lambda>(_, s). (b, s))
            (init_MMIO_device fuel noflags (ucast (addr entry)) (ucast (len entry)) s))))"

subsection \<open>Usable pages\<close>

text \<open>The first \<open>n\<close> entries of the array are regions and the next one is empty.\<close>

definition regions_end :: "(nat \<Rightarrow> usable_region) \<Rightarrow> nat \<Rightarrow> bool" where
  "regions_end regions n \<longleftrightarrow> (\<forall>i < n. reg_length (regions i) \<noteq> 0) \<and> reg_length (regions n) = 0"

definition in_region :: "usable_region \<Rightarrow> u32 \<Rightarrow> bool" where
  "in_region r a \<longleftrightarrow> a \<ge> reg_start r \<and> a + PAGE_SIZE - 1 < reg_start r + reg_length r"

lemma usable_from_regions:
  assumes "regions_end regions n" and "i \<le> n"
  shows "usable_from regions a i = Some (\<exists>j. i \<le> j \<and> j < n \<and> in_region (regions j) a)"
  using assms(2)
proof (induction "n - i" arbitrary: i)
  case 0
  then have "i = n" by simp
  then show ?case
    using assms(1) by (subst usable_from.simps) (simp add: regions_end_def)
next
  case (Suc k)
  then have i: "i < n" "k = n - (i + 1)" by auto
  have split: "i \<le> j \<longleftrightarrow> j = i \<or> i + 1 \<le> j" for j by auto
  show ?case
    using assms(1) i Suc.hyps(1) [OF i(2)] unfolding split
    by (subst usable_from.simps) (auto simp: regions_end_def in_region_def Let_def)
qed

lemma is_page_usable_regions:
  "regions_end regions n \<Longrightarrow> is_page_usable regions a = Some (\<exists>j < n. in_region (regions j) a)"
  by (simp add: is_page_usable_def usable_from_regions)

subsection \<open>Bits of the bitmap's bytes\<close>

lemma bit_byte: "bit (ucast (b :: u8) :: u32) k \<longleftrightarrow> k < 8 \<and> bit b k"
  using bit_imp_le_length [of b k] by (auto simp: bit_ucast_iff)

lemma bit_read32:
  assumes "q < 4" and "r < 8"
  shows "bit (read32 m a) (8 * q + r) = bit (m (a + of_nat q)) r"
proof -
  have lt: "8 * q + r < 32" using assms by simp
  have "q = 0 \<or> q = 1 \<or> q = 2 \<or> q = 3" using assms(1) by auto
  then show ?thesis
    using assms(2) lt
    by (elim disjE) (simp_all add: read32_def bit_or_iff bit_push_bit_iff bit_byte)
qed

lemma test_bit_byte:
  assumes "unat i = 8 * j + r" and "r < 8"
  shows "test_bit m bitmap i = bit (m (bitmap + of_nat j)) r"
proof -
  let ?q = "j mod 4"
  have ij: "unat (i mod 32) = 8 * ?q + r"
  proof -
    have "unat (i mod 32) = (8 * j + r) mod 32" using assms(1) by (simp add: unat_mod_distrib)
    also have "8 * j + r = 8 * ?q + r + 32 * (j div 4)"
      using div_mult_mod_eq [of j 4] by linarith
    also have "(8 * ?q + r + 32 * (j div 4)) mod 32 = (8 * ?q + r) mod 32" by simp
    also have "\<dots> = 8 * ?q + r" using assms(2) by (intro mod_less) (simp add: less_Suc_eq_le)
    finally show ?thesis .
  qed
  have "unat (i div 32) = j div 4"
  proof -
    have "unat (i div 32) = (8 * j + r) div 32" using assms(1) by (simp add: unat_div_distrib)
    also have "\<dots> = (8 * j + r) div 8 div 4" by (simp flip: div_mult2_eq)
    also have "(8 * j + r) div 8 = j" using assms(2) by simp
    finally show ?thesis .
  qed
  then have "of_nat (unat (i div 32)) = (of_nat (j div 4) :: u32)" by (rule arg_cong)
  then have "i div 32 = of_nat (j div 4)" by simp
  then have "bitmap + 4 * (i div 32) + of_nat ?q = bitmap + of_nat j"
    by (metis (no_types) add.assoc of_nat_add of_nat_mult of_nat_numeral mult_div_mod_eq)
  moreover have "bit (read32 m (bitmap + 4 * (i div 32))) (8 * ?q + r) =
      bit (m (bitmap + 4 * (i div 32) + of_nat ?q)) r"
    using assms(2) by (intro bit_read32) simp_all
  ultimately show ?thesis
    unfolding test_bit_bit get_pfn_parent_bitmap_def NUM_BITS_IN_ONE_BITMAP_def ij by (simp only:)
qed

text \<open>After \<open>memset(bitmap, 0xff, n)\<close> the first \<open>8 * n\<close> frames are allocated.\<close>

lemma memset_allocates:
  assumes "unat i div 8 < unat n"
  shows "test_bit (memset m bitmap 0xff n) bitmap i"
proof -
  let ?j = "unat i div 8" and ?r = "unat i mod 8"
  have "(of_nat ?j :: u32) < n"
    using assms unat_lt_2p32 [of n] by (simp add: word_less_nat_alt unat_of_nat_small)
  then have "memset m bitmap 0xff n (bitmap + of_nat ?j) = 0xff" by (simp add: memset_eq)
  moreover have "bit (0xff :: u8) ?r"
  proof -
    have "(0xff :: u8) = mask 8" by (simp add: mask_eq_exp_minus_1)
    moreover have "?r < 8" by simp
    ultimately show ?thesis by (simp only: bit_mask_iff) simp
  qed
  ultimately show ?thesis by (subst test_bit_byte [of i ?j ?r]) simp_all
qed

subsection \<open>The allocator after start-up\<close>

lemma free_usable_bits:
  assumes reg: "regions_end regions n" and "256 \<le> bitmap_num_bits p"
  shows "\<exists>m'. free_usable regions p = Some (p\<lparr>kmem := m'\<rparr>) \<and>
    (\<forall>j. test_bit m' (alloc_bitmap p) j \<longleftrightarrow> test_bit (kmem p) (alloc_bitmap p) j \<and>
      \<not> (256 \<le> j \<and> j < bitmap_num_bits p \<and> (\<exists>i < n. in_region (regions i) (pfn_to_phys_addy j))))"
proof -
  let ?usable = "\<lambda>j. \<exists>i < n. in_region (regions i) (pfn_to_phys_addy j)"
  let ?B = "alloc_bitmap p"
  let ?P = "\<lambda>k po. \<exists>m'. po = Some (p\<lparr>kmem := m'\<rparr>) \<and>
    (\<forall>j. test_bit m' ?B j \<longleftrightarrow> test_bit (kmem p) ?B j \<and> \<not> (256 \<le> j \<and> j < k \<and> ?usable j))"
  have M: "0x100000 div PAGE_SIZE = 256" by (simp add: PAGE_SIZE_def)
  have "?P (bitmap_num_bits p) (free_usable regions p)"
    unfolding free_usable_def M
  proof (rule for_loop_invariant [where P = ?P])
    show "?P 256 (Some p)" by (intro exI [of _ "kmem p"]) auto
    show "256 \<le> bitmap_num_bits p" by (rule assms(2))
    fix k po
    assume k: "256 \<le> k" "k < bitmap_num_bits p" and "?P k po"
    then obtain m' where po: "po = Some (p\<lparr>kmem := m'\<rparr>)" and
      bits: "\<And>j. test_bit m' ?B j \<longleftrightarrow> test_bit (kmem p) ?B j \<and> \<not> (256 \<le> j \<and> j < k \<and> ?usable j)"
      by blast
    define u where "u = ?usable k"
    let ?m = "if u then snd (free_pfn m' ?B k) else m'"
    have lt: "j < k + 1 \<longleftrightarrow> j < k \<or> j = k" for j
      unfolding word_lt_inc [OF k(2)] by (auto simp: le_less)
    have "test_bit ?m ?B j \<longleftrightarrow> test_bit (kmem p) ?B j \<and> \<not> (256 \<le> j \<and> j < k + 1 \<and> ?usable j)" for j
      unfolding lt using k(1) bits [of j] free_pfn_bits [of m' ?B k j] u_def by (cases "j = k") auto
    moreover have "is_page_usable regions (pfn_to_phys_addy k) = Some u"
      unfolding u_def by (rule is_page_usable_regions [OF reg])
    ultimately show "?P (k + 1) (Option.bind po (\<lambda>p. map_option (\<lambda>usable. if usable
        then p\<lparr>kmem := snd (free_pfn (kmem p) (alloc_bitmap p) k)\<rparr> else p)
        (is_page_usable regions (pfn_to_phys_addy k))))"
      by (intro exI [of _ ?m]) (simp add: po)
  qed
  then show ?thesis .
qed

lemma map_bitmap_ok:
  assumes ok: "paging_ok s" and range: "range_mappable s start num" and "page_aligned start"
  shows "\<exists>s'. map_bitmap start num s = Some s' \<and> paging_ok s' \<and> same_tables s s' \<and> pmm s' = pmm s"
  unfolding map_bitmap_def
proof (rule for_loop_invariant [where P = "\<lambda>k so. \<exists>s'. so = Some s' \<and> paging_ok s' \<and>
    same_tables s s' \<and> pmm s' = pmm s"])
  fix k so
  assume k: "k < num" and "\<exists>s'. so = Some s' \<and> paging_ok s' \<and> same_tables s s' \<and> pmm s' = pmm s"
  then obtain s' where s': "so = Some s'" "paging_ok s'" "same_tables s s'" "pmm s' = pmm s" by blast
  let ?va = "start + k * PAGE_SIZE"
  let ?pa = "phys_addy ?va"
  have r: "range_mappable s' start num" using range range_mappable_cong [OF s'(3)] by simp
  then have pg: "get_PDE_idx ?va \<noteq> RECURSIVE_PDE_IDX"
    "paging_entry_present (pde_at s' (get_PDE_idx ?va))" "pte_cell s' (kernel_PGD s') \<noteq> pte_cell s' ?va"
    using k by (simp_all add: range_mappable_def)
  have al: "page_aligned ?pa"
  proof -
    have "?pa = start + (k + 262144) * PAGE_SIZE"
      by (simp add: phys_addy_def kernel_vm_offset_def PAGE_SIZE_def distrib_right)
    then show ?thesis using page_aligned_add [OF assms(3)] by simp
  qed
  have "same_tables s (mapped s' ?pa ?va VM_AREA_WRITE)"
    using s'(3) mapped_pde [OF s'(2) pg(1,2)] by (simp add: same_tables_def)
  then show "\<exists>s''. Option.bind so (\<lambda>s. let curr_page = start + k * PAGE_SIZE in
      map_option snd (map_pageframe s (kernel_PGD s) (phys_addy curr_page) curr_page VM_AREA_WRITE)) =
      Some s'' \<and> paging_ok s'' \<and> same_tables s s'' \<and> pmm s'' = pmm s"
    using s' map_pageframe_present [OF s'(2) pg(1,2)] mapped_ok [OF s'(2) pg(1,2) al pg(3)]
    by (simp add: Let_def)
qed (use ok in \<open>auto simp: same_tables_def\<close>)

lemma round_up_aligned: "page_aligned (round_up_to_nearest_page a)"
  unfolding round_up_to_nearest_page_def page_aligned_def page_frame_bitmask mask_12
  by (simp add: bit_eq_iff bit_simps)

lemma init_pmm_frames:
  fixes kernel_end memory_size :: u32
  defines "start \<equiv> round_up_to_nearest_page kernel_end" and "num_bits \<equiv> memory_size div PAGE_SIZE"
  defines "pages \<equiv> (round_up_to_nearest_page (start + num_bits div 8) - start) div PAGE_SIZE"
  defines "first \<equiv> phys_addy_to_pfn (phys_addy start)" and "need \<equiv> num_pages_needed (num_bits div 8)"
  assumes ok: "paging_ok s" and range: "range_mappable s start pages" and reg: "regions_end regions n"
    and size: "256 \<le> num_bits" "unat num_bits mod 8 = 0"
  shows "\<exists>s' granted. init_pmm kernel_end memory_size regions s = Some s' \<and> paging_ok s' \<and> pmm_ok (pmm s') \<and>
    bitmap_num_bits (pmm s') = num_bits \<and> alloc_bitmap (pmm s') = start \<and>
    (granted \<longleftrightarrow> first + need < num_bits \<and>
      (\<forall>k < need. 256 \<le> first + k \<and> first + k < num_bits \<and>
        (\<exists>i < n. in_region (regions i) (pfn_to_phys_addy (first + k))))) \<and>
    (\<forall>j < num_bits. allocated (pmm s') j \<longleftrightarrow>
      \<not> (256 \<le> j \<and> (\<exists>i < n. in_region (regions i) (pfn_to_phys_addy j))) \<or>
      granted \<and> (\<exists>k < need. j = first + k))"
proof -
  let ?usable = "\<lambda>j. \<exists>i < n. in_region (regions i) (pfn_to_phys_addy j)"
  define p where "p = \<lparr>kmem = kmem (pmm s), alloc_bitmap = start, bitmap_num_bits = num_bits,
    pmm_bitmap_start_addy = start, pmm_bitmap_end_addy = round_up_to_nearest_page (start + num_bits div 8)\<rparr>"
  have al: "page_aligned start" unfolding start_def by (rule round_up_aligned)
  have "paging_ok (s\<lparr>pmm := p\<rparr>)" "range_mappable (s\<lparr>pmm := p\<rparr>) start pages"
    using ok range by (simp_all only: paging_ok_pmm range_mappable_pmm)
  from map_bitmap_ok [OF this al] obtain s1 where
    s1: "map_bitmap start pages (s\<lparr>pmm := p\<rparr>) = Some s1" "paging_ok s1" "pmm s1 = p" by auto
  define q where "q = p\<lparr>kmem := memset (kmem p) start 0xff (num_bits div 8)\<rparr>"
  have q: "alloc_bitmap q = start" "bitmap_num_bits q = num_bits" by (simp_all add: q_def p_def)
  have "256 \<le> bitmap_num_bits q" using size(1) by (simp add: q)
  from free_usable_bits [OF reg this] obtain m' where m': "free_usable regions q = Some (q\<lparr>kmem := m'\<rparr>)"
    and bits: "\<And>j. test_bit m' start j \<longleftrightarrow> test_bit (kmem q) start j \<and>
      \<not> (256 \<le> j \<and> j < num_bits \<and> ?usable j)"
    unfolding q by blast
  let ?q = "q\<lparr>kmem := m'\<rparr>"
  have full: "test_bit (kmem q) start j" if "j < num_bits" for j
  proof -
    have "unat j div 8 < unat (num_bits div 8)"
      using that size(2) by (auto simp: unat_div_distrib word_less_nat_alt)
    then show ?thesis unfolding q_def using memset_allocates [of j "num_bits div 8"] by simp
  qed
  have before: "allocated ?q j \<longleftrightarrow> \<not> (256 \<le> j \<and> ?usable j)" if "j < num_bits" for j
    using bits [of j] full [OF that] that by (simp add: allocated_def q)
  obtain r p' where req: "alloc_requested_pageframe ?q (phys_addy start) (num_bits div 8) = (r, p')" by fastforce
  define granted where "granted \<longleftrightarrow> first + need < num_bits \<and> (\<forall>k < need. \<not> allocated ?q (first + k))"
  have qq: "p\<lparr>kmem := memset (kmem p) (alloc_bitmap p) 0xff (num_bits div 8)\<rparr> = q"
    by (simp add: q_def p_def)
  have run: "init_pmm kernel_end memory_size regions s = Some (s1\<lparr>pmm := p'\<rparr>)"
    using s1 m' req unfolding init_pmm_def Let_def
    by (simp add: start_def [symmetric] num_bits_def [symmetric] p_def [symmetric] pages_def [symmetric]
        qq)
  have small: "first \<le> 0xFFFFF" "need \<le> 0xFFFFF" "num_bits \<le> 0xFFFFF"
    unfolding first_def need_def num_bits_def
    using phys_addy_to_pfn_bound [of memory_size] phys_addy_to_pfn_bound [of "phys_addy start"]
    by (simp_all add: num_pages_needed_bound phys_addy_to_pfn_def)
  have inside: "first + k < num_bits" if "k < need" "first + need < num_bits" for k
    using requested_window [OF small(1,2), of "first + k"] that by force
  have granted: "granted \<longleftrightarrow> first + need < num_bits \<and>
      (\<forall>k < need. 256 \<le> first + k \<and> first + k < num_bits \<and> ?usable (first + k))"
    unfolding granted_def using before inside by blast
  have cases: "if granted then (\<forall>j. allocated p' j \<longleftrightarrow> allocated ?q j \<or> (\<exists>k < need. j = first + k)) \<and>
      p' = ?q\<lparr>kmem := kmem p'\<rparr> else p' = ?q"
    using alloc_requested_pageframe_cases [OF req] q(2) unfolding granted_def first_def need_def by auto
  then have p': "bitmap_num_bits p' = num_bits \<and> alloc_bitmap p' = start"
    using q by (cases granted) (simp, metis pmm_state.select_convs(2,3) pmm_state.simps(6) pmm_state.surjective
      pmm_state.update_convs(1), simp)
  have after: "allocated p' j \<longleftrightarrow> \<not> (256 \<le> j \<and> ?usable j) \<or> granted \<and> (\<exists>k < need. j = first + k)"
    if "j < num_bits" for j
    using cases before [OF that] by (cases granted) simp_all
  have "0 < num_bits" using size(1) by (simp add: word_le_nat_alt word_less_nat_alt)
  then have "pmm_ok p'" using after [of 0] p' small(3) by (simp add: pmm_ok_def)
  moreover have "paging_ok (s1\<lparr>pmm := p'\<rparr>)" using s1(2) by (simp only: paging_ok_pmm)
  ultimately show ?thesis
    using run p' granted after by (intro exI [of _ "s1\<lparr>pmm := p'\<rparr>"] exI [of _ granted]) simp
qed

subsection \<open>Properties\<close>

definition ex_regions :: "nat \<Rightarrow> usable_region" where
  "ex_regions i = (if i = 0 then \<lparr>reg_start = 0x100000, reg_length = 0x300000\<rparr>
     else \<lparr>reg_start = 0, reg_length = 0\<rparr>)"

lemma ex_regions_end: "regions_end ex_regions 1"
  by (simp add: regions_end_def ex_regions_def)

text \<open>
  \<open>is_page_usable\<close> on a table that is closed by an empty region returns, and says whether
  the page lies inside one of the regions before it.
\<close>

theorem is_page_usable_exact:
  assumes "regions_end regions n"
  shows "is_page_usable regions a = Some (\<exists>j < n. reg_start (regions j) \<le> a \<and>
    a + PAGE_SIZE - 1 < reg_start (regions j) + reg_length (regions j))"
  using is_page_usable_regions [OF assms] by (simp add: in_region_def)

theorem is_page_usable_exact_witness:
  "is_page_usable ex_regions 0x3FF000 = Some True \<and> is_page_usable ex_regions 0x3FF001 = Some False"
  by (simp add: is_page_usable_exact [OF ex_regions_end] ex_regions_def PAGE_SIZE_def)

text \<open>
  C19. Assume that the number of frames is a multiple of eight and at least 256, that the page tables
  behind the bitmap exist and that the table of usable regions is terminated. Then \<open>init_pmm\<close> returns,
  keeps the paging invariant and establishes the allocator's. If every frame of the bitmap is usable,
  not below 1 MiB and below the last frame, a frame ends up free exactly when it is not below 1 MiB,
  is usable and is not one of the bitmap's own. Otherwise (not \<open>granted\<close>) the request for the
  bitmap's frames fails, which the code ignores, and those of them that are usable stay free like any
  other. No other frame of the kernel image is kept back.
\<close>

theorem init_pmm_bitmap:
  fixes kernel_end memory_size :: u32
  defines "start \<equiv> round_up_to_nearest_page kernel_end" and "num_bits \<equiv> memory_size div PAGE_SIZE"
  defines "pages \<equiv> (round_up_to_nearest_page (start + num_bits div 8) - start) div PAGE_SIZE"
  defines "first \<equiv> phys_addy_to_pfn (phys_addy start)" and "need \<equiv> num_pages_needed (num_bits div 8)"
  assumes "paging_ok s" and "range_mappable s start pages" and "regions_end regions n"
    and "256 \<le> num_bits" and "unat num_bits mod 8 = 0"
  shows "\<exists>s' granted. init_pmm kernel_end memory_size regions s = Some s' \<and> paging_ok s' \<and> pmm_ok (pmm s') \<and>
    bitmap_num_bits (pmm s') = num_bits \<and> alloc_bitmap (pmm s') = start \<and>
    (granted \<longleftrightarrow> first + need < num_bits \<and>
      (\<forall>k < need. 256 \<le> first + k \<and> first + k < num_bits \<and>
        (\<exists>i < n. in_region (regions i) (pfn_to_phys_addy (first + k))))) \<and>
    (\<forall>j < num_bits. allocated (pmm s') j \<longleftrightarrow>
      \<not> (256 \<le> j \<and> (\<exists>i < n. in_region (regions i) (pfn_to_phys_addy j))) \<or>
      granted \<and> (\<exists>k < need. j = first + k))"
  unfolding start_def num_bits_def first_def need_def pages_def
  by (rule init_pmm_frames) (use assms(6-10) in \<open>simp_all only: start_def num_bits_def pages_def\<close>)

lemma ex_bitmap_range: "range_mappable ex_paging 0xC0203000 1"
proof -
  have one: "k < 1 \<longleftrightarrow> k = 0" for k :: u32 by (simp add: word_less_1)
  have "pte_cell ex_paging 0xC0203000 = 0x20180C" "pte_cell ex_paging 0xC0200000 = 0x201800"
    by (simp_all add: pte_cell_def get_PDE_idx_def get_pte_idx_def addr_defs ex_paging_pde flag_defs)
  then show ?thesis
    unfolding range_mappable_def one
    by (auto simp: PAGE_SIZE_def get_PDE_idx_def PAGE_DIR_INDEX_BIT_INDEX_def ex_paging_pde
        kernel_pde_flags_present RECURSIVE_PDE_IDX_def ex_paging_facts(4))
qed

theorem init_pmm_bitmap_witness:
  "\<exists>s'. init_pmm 0xC0202FF0 0x400000 ex_regions ex_paging = Some s' \<and> pmm_ok (pmm s') \<and>
     allocated (pmm s') 0xFF \<and> allocated (pmm s') 0x203 \<and> \<not> allocated (pmm s') 0x200"
proof -
  have up: "round_up_to_nearest_page 0xC0202FF0 = 0xC0203000" "round_up_to_nearest_page 0xC0203080 = 0xC0204000"
    "(0x400000 :: u32) div PAGE_SIZE = 1024" "(1024 :: u32) div 8 = 128" "num_pages_needed 128 = 1"
    "phys_addy 0xC0203000 = 0x203000" "phys_addy_to_pfn 0x203000 = 0x203" "(0x1000 :: u32) div PAGE_SIZE = 1"
    by (simp_all add: round_up_to_nearest_page_def PAGE_FRAME_BITMASK_def PAGE_SIZE_def
        num_pages_needed_def phys_addy_def kernel_vm_offset_def phys_addy_to_pfn_def)
  have one: "k < 1 \<longleftrightarrow> k = 0" for k :: u32 by (simp add: word_less_1)
  obtain s' granted where "init_pmm 0xC0202FF0 0x400000 ex_regions ex_paging = Some s'" "pmm_ok (pmm s')"
    and granted: "granted \<longleftrightarrow> (\<exists>i < 1. in_region (ex_regions i) (pfn_to_phys_addy 0x203))"
    and j: "\<forall>j < 1024. allocated (pmm s') j \<longleftrightarrow>
      \<not> (256 \<le> j \<and> (\<exists>i < 1. in_region (ex_regions i) (pfn_to_phys_addy j))) \<or> granted \<and> j = 0x203"
    using init_pmm_bitmap [of ex_paging "0xC0202FF0" "0x400000" ex_regions 1]
      ex_paging_facts(2) ex_bitmap_range ex_regions_end by (auto simp: up one)
  moreover have "in_region (ex_regions 0) (pfn_to_phys_addy 0x203)"
    "in_region (ex_regions 0) (pfn_to_phys_addy 0x200)"
    by (simp_all add: in_region_def ex_regions_def pfn_to_phys_addy_def PAGE_SIZE_def)
  ultimately show ?thesis by (intro exI [of _ s']) simp
qed

end
