(* ===== verification/Utils.thy ===== *)
theory Utils
  imports Libc
begin

text \<open>
  \<^verbatim>\<open>src/include/utils.c\<close> and \<^verbatim>\<open>src/include/data_structures.c\<close>: printing a number in
  hexadecimal, membership in a constant array, and the array header. \<open>num_to_ascii\<close> returns
  nothing for 16 and above; its value there is the parameter \<open>noret\<close>.
\<close>

subsection \<open>Operations\<close>

function hex_digit_loop :: "u32 \<Rightarrow> u32 \<Rightarrow> u32" where
  "hex_digit_loop res cnt =
     (let res = res div 16; cnt = cnt + 1 in if res \<noteq> 0 then hex_digit_loop res cnt else cnt)"
  by pat_completeness auto
termination
proof (relation "measure (\<lambda>(res, _). unat res)")
  fix res cnt x xa :: u32
  assume "x = res div 16" "x \<noteq> 0"
  then have "unat (res div 16) \<noteq> 0" by (simp add: unat_eq_0)
  then have "unat res div 16 \<noteq> 0" by (simp add: unat_div_distrib)
  then show "((x, xa), res, cnt) \<in> measure (\<lambda>(res, _). unat res)"
    using \<open>x = res div 16\<close> by (simp add: unat_div_distrib)
qed simp

declare hex_digit_loop.simps [simp del]

definition hex_num_digit_count :: "u32 \<Rightarrow> u32" where
  "hex_num_digit_count num = hex_digit_loop num 0"

definition num_to_ascii :: "(u8 \<Rightarrow> u8) \<Rightarrow> u8 \<Rightarrow> u8" where
  "num_to_ascii noret num =
     (if num < 10 then 0x30 + num
      else if num \<ge> 10 \<and> num < 16 then 0x41 + (num - 10)
      else noret num)"

text \<open>The digit loop; \<open>digit_idx\<close> is an \<open>unsigned char\<close>, compared with a \<open>size_t\<close>.\<close>

partial_function (option) hex_digits_loop ::
    "(u8 \<Rightarrow> u8) \<Rightarrow> u32 \<Rightarrow> u32 \<Rightarrow> u32 \<Rightarrow> u8 \<Rightarrow> u8 \<Rightarrow> u32 \<Rightarrow> mem \<Rightarrow> mem option" where
  "hex_digits_loop noret buff last_digit num_digits digit_idx remainder res m =
     (if ucast digit_idx < num_digits then
        hex_digits_loop noret buff last_digit num_digits (digit_idx + 1) (ucast (res mod 16)) (res div 16)
          (m(buff + (last_digit - ucast digit_idx) := num_to_ascii noret remainder))
      else Some m)"

definition num_to_hex_string :: "(u8 \<Rightarrow> u8) \<Rightarrow> u32 \<Rightarrow> u32 \<Rightarrow> mem \<Rightarrow> mem option" where
  "num_to_hex_string noret num buff m =
     (let num_digits = hex_num_digit_count num;
          str_num_size = num_digits + 3;
          m = m(buff := 0x30);
          m = m(buff + 1 := 0x78);
          m = m(buff + (str_num_size - 1) := 0)
      in hex_digits_loop noret buff (str_num_size - 2) num_digits 0 (ucast (num mod 16)) (num div 16) m)"

definition isInArray :: "mem \<Rightarrow> u32 \<Rightarrow> u32 \<Rightarrow> u32 \<Rightarrow> bool" where
  "isInArray m array c array_len = (memchr m array (ucast c) array_len \<noteq> NULL)"

record array_hdr =
  array_data :: u32
  curr_size :: u32
  max_capacity :: u32

definition init_array :: "array_hdr \<Rightarrow> array_hdr" where
  "init_array a = a\<lparr>curr_size := 0, max_capacity := 0x7FFFFFFF\<rparr>"

subsection \<open>Membership\<close>

text \<open>The bytes \<open>xs\<close> stand at \<open>p\<close>.\<close>

definition holds_bytes :: "mem \<Rightarrow> u32 \<Rightarrow> u8 list \<Rightarrow> bool" where
  "holds_bytes m p xs \<longleftrightarrow> (\<forall>i < length xs. m (p + of_nat i) = xs ! i)"

lemma isInArray_list:
  assumes "holds_bytes m p xs" and "p \<noteq> NULL" and "length xs < 4294967296"
  shows "isInArray m p c (of_nat (length xs)) \<longleftrightarrow> ucast c \<in> set xs"
proof -
  have "(\<exists>i < of_nat (length xs). m (p + i) = ucast c) \<longleftrightarrow> ucast c \<in> set xs"
  proof
    assume "\<exists>i < of_nat (length xs). m (p + i) = ucast c"
    then obtain i where i: "i < of_nat (length xs)" "m (p + i) = ucast c" by blast
    then have "unat i < length xs"
      using assms(3) by (simp add: word_less_nat_alt unat_of_nat_small)
    then have "m (p + of_nat (unat i)) = xs ! unat i" "xs ! unat i \<in> set xs"
      using assms(1) by (auto simp: holds_bytes_def)
    then show "ucast c \<in> set xs" using i(2) by simp
  next
    assume "ucast c \<in> set xs"
    then obtain k where k: "k < length xs" "xs ! k = ucast c" by (auto simp: in_set_conv_nth)
    then have "(of_nat k :: u32) < of_nat (length xs)"
      using assms(3) by (simp add: word_less_nat_alt unat_of_nat_small)
    then show "\<exists>i < of_nat (length xs). m (p + i) = ucast c"
      using k assms(1) by (intro exI [of _ "of_nat k"]) (simp add: holds_bytes_def)
  qed
  then show ?thesis using assms(2) by (simp add: isInArray_def memchr_eq)
qed

subsection \<open>Hexadecimal text\<close>

definition hex_char :: "nat \<Rightarrow> u8" where
  "hex_char n = of_nat (if n < 10 then 48 + n else 55 + n)"

definition hex_char_value :: "u8 \<Rightarrow> nat" where
  "hex_char_value c = (if unat c < 58 then unat c - 48 else unat c - 55)"

text \<open>The number a string of hexadecimal digits stands for, most significant digit first.\<close>

definition hex_value :: "u8 list \<Rightarrow> nat" where
  "hex_value xs = fold (\<lambda>c v. 16 * v + hex_char_value c) xs 0"

text \<open>The \<open>d\<close> last hexadecimal digits of \<open>n\<close>.\<close>

definition hex_text :: "nat \<Rightarrow> nat \<Rightarrow> u8 list" where
  "hex_text n d = map (\<lambda>k. hex_char (n div 16 ^ k mod 16)) (rev [0..<d])"

lemma hex_char_range: "n < 16 \<Longrightarrow> unat (hex_char n) = (if n < 10 then 48 + n else 55 + n)"
  by (simp add: hex_char_def unat_of_nat)

lemma hex_char_value [simp]: "n < 16 \<Longrightarrow> hex_char_value (hex_char n) = n"
  by (simp add: hex_char_value_def hex_char_range)

lemma hex_char_nonzero: "n < 16 \<Longrightarrow> hex_char n \<noteq> 0"
  using hex_char_range [of n] by (auto split: if_splits)

lemma hex_text_length [simp]: "length (hex_text n d) = d"
  by (simp add: hex_text_def)

lemma hex_text_nonzero: "0 \<notin> set (hex_text n d)"
  using hex_char_nonzero [of "n div 16 ^ k mod 16" for k] by (auto simp: hex_text_def)

lemma hex_text_Suc: "hex_text n (Suc d) = hex_text (n div 16) d @ [hex_char (n mod 16)]"
proof -
  have "[0..<Suc d] = 0 # map Suc [0..<d]"
    by (simp add: upt_conv_Cons map_Suc_upt del: upt_Suc)
  then have "rev [0..<Suc d] = map Suc (rev [0..<d]) @ [0]"
    by (simp add: rev_map del: upt_Suc)
  then show ?thesis by (simp add: hex_text_def div_mult2_eq [symmetric])
qed

lemma hex_value_snoc: "hex_value (xs @ [c]) = 16 * hex_value xs + hex_char_value c"
  by (simp add: hex_value_def)

lemma hex_value_text: "n < 16 ^ d \<Longrightarrow> hex_value (hex_text n d) = n"
proof (induction d arbitrary: n)
  case 0
  then show ?case by (simp add: hex_value_def hex_text_def)
next
  case (Suc d)
  then have "n div 16 < 16 ^ d" by (simp add: less_mult_imp_div_less mult.commute)
  then show ?case using Suc.IH by (simp add: hex_text_Suc hex_value_snoc)
qed

text \<open>The digit count is the number of hexadecimal digits of the number.\<close>

lemma hex_digit_loop_count:
  "\<exists>d > 0. hex_digit_loop res cnt = cnt + of_nat d \<and> unat res < 16 ^ d \<and>
     (d = 1 \<or> 16 ^ (d - 1) \<le> unat res)"
proof (induction res cnt rule: hex_digit_loop.induct)
  case (1 res cnt)
  have q: "unat (res div 16) = unat res div 16" by (simp add: unat_div_distrib)
  show ?case
  proof (cases "res div 16 = 0")
    case True
    then have "unat res div 16 = 0" using q by simp
    then have "unat res < 16 ^ 1" by auto
    then show ?thesis using True by (intro exI [of _ 1]) (simp add: hex_digit_loop.simps [of res])
  next
    case False
    obtain d where d: "d > 0" "hex_digit_loop (res div 16) (cnt + 1) = cnt + 1 + of_nat d"
        "unat res div 16 < 16 ^ d" "d = 1 \<or> 16 ^ (d - 1) \<le> unat res div 16"
      using "1.IH" [OF refl refl False] q by auto
    have "16 ^ d \<le> unat res"
    proof (cases "d = 1")
      case True
      have "unat res div 16 \<noteq> 0" using False q by (metis unat_eq_0)
      then show ?thesis using True by auto
    next
      case False
      then have "16 ^ (d - 1) * 16 \<le> unat res"
        using d(4) by (metis less_eq_div_iff_mult_less_eq zero_less_numeral)
      moreover have "(16::nat) ^ d = 16 ^ (d - 1) * 16"
        using d(1) by (metis power_minus_mult)
      ultimately show ?thesis by simp
    qed
    moreover have "unat res < 16 ^ Suc d" using d(3) by (simp add: div_less_iff_less_mult mult.commute)
    ultimately show ?thesis
      using False d(2) by (intro exI [of _ "Suc d"]) (simp add: hex_digit_loop.simps [of res] algebra_simps)
  qed
qed

lemma num_to_ascii_hex: "n < 16 \<Longrightarrow> num_to_ascii noret (of_nat n) = hex_char n"
  by (auto simp: num_to_ascii_def hex_char_def word_less_nat_alt word_le_nat_alt unat_of_nat)

definition put_digits :: "nat \<Rightarrow> u32 \<Rightarrow> u32 \<Rightarrow> nat list \<Rightarrow> mem \<Rightarrow> mem" where
  "put_digits n buff last_digit ks =
     fold (\<lambda>k m. m(buff + (last_digit - of_nat k) := hex_char (n div 16 ^ k mod 16))) ks"

lemma ucast_of_nat8: "d < 256 \<Longrightarrow> (ucast (of_nat d :: u8) :: u32) = of_nat d"
  by (simp add: word_unat_eq_iff unsigned_ucast_eq unat_of_nat take_bit_nat_eq_self)

lemma nibble_byte: "take_bit 8 (n mod 16 :: nat) = n mod 16"
proof -
  have "n mod 16 < 2 ^ 8" by (rule less_trans [of _ 16]) simp_all
  then show ?thesis by (rule take_bit_nat_eq_self)
qed

lemma of_nat_eq_small:
  "i < 4294967296 \<Longrightarrow> j < 4294967296 \<Longrightarrow> (of_nat i :: u32) = of_nat j \<longleftrightarrow> i = j"
  by (simp add: word_unat_eq_iff unat_of_nat take_bit_nat_eq_self)

lemma put_digits_Cons:
  "put_digits n buff last_digit (k # ks) m =
     put_digits n buff last_digit ks (m(buff + (last_digit - of_nat k) := hex_char (n div 16 ^ k mod 16)))"
  by (simp add: put_digits_def)

lemma hex_digits_loop_eq:
  assumes "d \<le> 8" and "n < 2 ^ 32" and "k \<le> d"
  shows "hex_digits_loop noret buff last_digit (of_nat d) (of_nat k)
      (of_nat (n div 16 ^ k mod 16)) (of_nat (n div 16 ^ Suc k)) m =
    Some (put_digits n buff last_digit [k..<d] m)"
  using assms(3)
proof (induction k arbitrary: m rule: inc_induct)
  case base
  have "(ucast (of_nat d :: u8) :: u32) = of_nat d"
    using assms(1) by (simp add: ucast_of_nat8)
  then have "\<not> (ucast (of_nat d :: u8) :: u32) < of_nat d" by simp
  then show ?case
    by (subst hex_digits_loop.simps) (simp add: put_digits_def)
next
  case (step k)
  let ?q = "n div 16 ^ Suc k"
  have small: "k < 256" "d < 4294967296" "?q < 4294967296"
    using step.hyps assms(1,2) by (auto intro: le_less_trans [OF div_le_dividend])
  have k: "unat (of_nat k :: u8) = k" "(ucast (of_nat k :: u8) :: u32) = of_nat k"
    using small by (simp_all add: unat_of_nat take_bit_nat_eq_self ucast_of_nat8)
  have lt: "(ucast (of_nat k :: u8) :: u32) < (of_nat d)"
    using k small step.hyps by (simp add: word_less_nat_alt unat_of_nat)
  have r: "(ucast ((of_nat ?q :: u32) mod 16) :: u8) = of_nat (?q mod 16)"
    using small by (simp add: word_unat_eq_iff unsigned_ucast_eq unat_of_nat unat_mod_distrib nibble_byte)
  have "n div 16 ^ Suc (Suc k) = ?q div 16" by (simp add: div_mult2_eq [symmetric] mult.commute)
  then have q: "(of_nat ?q :: u32) div 16 = of_nat (n div 16 ^ Suc (Suc k))"
    using small unat_of_nat_small [of ?q] unat_of_nat_small [of "?q div 16"]
    by (simp add: word_unat_eq_iff unat_div_distrib del: power_Suc)
  have "[k..<d] = k # [Suc k..<d]" using step.hyps by (simp add: upt_conv_Cons)
  then show ?case
    using lt k(2) r q step.IH num_to_ascii_hex [of "n div 16 ^ k mod 16" noret]
    by (subst hex_digits_loop.simps) (simp add: put_digits_Cons fun_upd_def add.commute)
qed

lemma put_digits_at:
  assumes "distinct ks" and "\<forall>k \<in> set ks. k \<le> 8"
  shows "k \<in> set ks \<Longrightarrow>
      put_digits n buff last_digit ks m (buff + (last_digit - of_nat k)) = hex_char (n div 16 ^ k mod 16)"
    and "(\<forall>k \<in> set ks. a \<noteq> buff + (last_digit - of_nat k)) \<Longrightarrow>
      put_digits n buff last_digit ks m a = m a"
proof -
  have inj: "j = k" if "(of_nat j :: u32) = of_nat k" "j \<le> 8" "k \<le> 8" for j k
  proof -
    have "unat (of_nat j :: u32) = j" "unat (of_nat k :: u32) = k"
      using that(2,3) by (simp_all add: unat_of_nat_small)
    then show ?thesis using that(1) by metis
  qed
  show "k \<in> set ks \<Longrightarrow>
      put_digits n buff last_digit ks m (buff + (last_digit - of_nat k)) = hex_char (n div 16 ^ k mod 16)"
    using assms
  proof (induction ks rule: rev_induct)
    case (snoc j ks)
    then show ?case using inj [of j k] by (auto simp: put_digits_def)
  qed simp
  show "(\<forall>k \<in> set ks. a \<noteq> buff + (last_digit - of_nat k)) \<Longrightarrow>
      put_digits n buff last_digit ks m a = m a"
    by (induction ks arbitrary: m) (auto simp: put_digits_def)
qed

lemma is_cstr_nthI:
  "(\<And>i. i < length xs \<Longrightarrow> m (p + of_nat i) = xs ! i) \<Longrightarrow> m (p + of_nat (length xs)) = 0 \<Longrightarrow>
    0 \<notin> set xs \<Longrightarrow> is_cstr m p xs"
proof (induction xs arbitrary: p)
  case (Cons x xs)
  have "m (p + 1 + of_nat i) = xs ! i" if "i < length xs" for i
    using Cons.prems(1) [of "Suc i"] that by (simp add: algebra_simps)
  then have "is_cstr m (p + 1) xs"
    using Cons by (simp add: algebra_simps)
  then show ?case using Cons.prems(1) [of 0] Cons.prems(3) by auto
qed simp

text \<open>The number of digits \<open>hex_num_digit_count\<close> gives, and the text of a number.\<close>

definition hex_digits :: "u32 \<Rightarrow> nat" where "hex_digits num = unat (hex_num_digit_count num)"

definition hex_string :: "u32 \<Rightarrow> u8 list" where
  "hex_string num = 0x30 # 0x78 # hex_text (unat num) (hex_digits num)"

lemma hex_digits:
  "0 < hex_digits num" "hex_digits num \<le> 8" "hex_num_digit_count num = of_nat (hex_digits num)"
  "unat num < 16 ^ hex_digits num" "hex_digits num = 1 \<or> 16 ^ (hex_digits num - 1) \<le> unat num"
proof -
  obtain d where d: "0 < d" "hex_num_digit_count num = of_nat d" "unat num < 16 ^ d" "d = 1 \<or> 16 ^ (d - 1) \<le> unat num"
    using hex_digit_loop_count [of num 0] by (auto simp: hex_num_digit_count_def)
  have n: "unat num < 16 ^ 8" using unat_lt_2p32 [of num] by simp
  have d8: "d \<le> 8"
  proof (rule ccontr)
    assume "\<not> d \<le> 8"
    then have "(16::nat) ^ 8 \<le> 16 ^ (d - 1)" by (intro power_increasing) auto
    then show False using d(4) n \<open>\<not> d \<le> 8\<close> by auto
  qed
  have "hex_digits num = d" using d8 unat_of_nat_small [of d] by (simp add: hex_digits_def d(2))
  with d d8 show "0 < hex_digits num" "hex_digits num \<le> 8" "hex_num_digit_count num = of_nat (hex_digits num)"
    "unat num < 16 ^ hex_digits num" "hex_digits num = 1 \<or> 16 ^ (hex_digits num - 1) \<le> unat num"
    by simp_all
qed

lemma hex_string_nonzero: "0 \<notin> set (hex_string num)"
  using hex_text_nonzero by (simp add: hex_string_def)

lemma hex_string_length: "length (hex_string num) \<le> 10"
  using hex_digits(2) [of num] by (simp add: hex_string_def)

text \<open>The memory after the prefix, the terminator and the digits are written.\<close>

definition hex_written :: "u32 \<Rightarrow> u32 \<Rightarrow> mem \<Rightarrow> mem" where
  "hex_written num buff m =
     put_digits (unat num) buff (of_nat (hex_digits num) + 3 - 2) [0..<hex_digits num]
       (m(buff := 0x30, buff + 1 := 0x78, buff + (of_nat (hex_digits num) + 3 - 1) := 0))"

lemma num_to_hex_string_returns: "num_to_hex_string noret num buff m = Some (hex_written num buff m)"
proof -
  let ?n = "unat num"
  have "num div 16 = of_nat (?n div 16)"
    using unat_lt_2p32 [of num] by (simp add: word_unat_eq_iff unat_div_distrib unat_of_nat)
  moreover have "ucast (num mod 16) = (of_nat (?n mod 16) :: u8)"
    by (simp add: word_unat_eq_iff unsigned_ucast_eq unat_mod_distrib unat_of_nat nibble_byte)
  ultimately show ?thesis
    using hex_digits_loop_eq [of "hex_digits num" ?n 0] hex_digits(2) [of num] unat_lt_2p32 [of num]
    by (simp add: num_to_hex_string_def hex_written_def hex_digits(3) Let_def)
qed

lemma digit_position: "k < d \<Longrightarrow> of_nat d + 3 - 2 - of_nat k = (of_nat (d + 1 - k) :: u32)"
  by (simp add: of_nat_diff)

lemma hex_written_digit:
  assumes "i < hex_digits num"
  shows "hex_written num buff m (buff + of_nat (2 + i)) = hex_text (unat num) (hex_digits num) ! i"
proof -
  let ?d = "hex_digits num" and ?k = "hex_digits num - 1 - i"
  have "hex_written num buff m (buff + of_nat (?d + 1 - ?k)) = hex_char (unat num div 16 ^ ?k mod 16)"
    using put_digits_at(1) [of "[0..<?d]" ?k "unat num" buff "of_nat ?d + 3 - 2"] digit_position [of ?k ?d]
      hex_digits(2) [of num] assms
    by (simp add: hex_written_def)
  then show ?thesis using assms by (simp add: hex_text_def rev_nth)
qed

lemma hex_written_else:
  assumes "\<And>k. k < hex_digits num \<Longrightarrow> x \<noteq> of_nat (hex_digits num + 1 - k)"
  shows "hex_written num buff m (buff + x) =
    (m(buff := 0x30, buff + 1 := 0x78, buff + (of_nat (hex_digits num) + 3 - 1) := 0)) (buff + x)"
  unfolding hex_written_def
  by (rule put_digits_at(2)) (use assms digit_position hex_digits(2) [of num] in auto)

lemma hex_written_fixed:
  "hex_written num buff m (buff + of_nat 0) = 0x30" "hex_written num buff m (buff + of_nat 1) = 0x78"
  "hex_written num buff m (buff + of_nat (hex_digits num + 2)) = 0"
proof -
  let ?d = "hex_digits num"
  have else_: "hex_written num buff m (buff + of_nat i) =
      (m(buff := 0x30, buff + 1 := 0x78, buff + (of_nat ?d + 3 - 1) := 0)) (buff + of_nat i)" if "i < 2 \<or> i = ?d + 2" for i
    using that hex_digits(2) [of num] by (intro hex_written_else) (subst of_nat_eq_small; auto)
  show "hex_written num buff m (buff + of_nat 0) = 0x30" "hex_written num buff m (buff + of_nat 1) = 0x78"
    "hex_written num buff m (buff + of_nat (?d + 2)) = 0"
    using else_ [of 0] else_ [of 1] else_ [of "?d + 2"] of_nat_eq_small [of 0 "?d + 2"] of_nat_eq_small [of 1 "?d + 2"]
      hex_digits(2) [of num]
    by (auto simp: algebra_simps)
qed

lemma hex_written_cstr: "is_cstr (hex_written num buff m) buff (hex_string num)"
proof (rule is_cstr_nthI)
  fix i assume i: "i < length (hex_string num)"
  consider "i = 0" | "i = 1" | j where "i = 2 + j" "j < hex_digits num"
    using i by (cases i; cases "i - 1") (auto simp: hex_string_def)
  then show "hex_written num buff m (buff + of_nat i) = hex_string num ! i"
    using hex_written_fixed(1,2) hex_written_digit by cases (simp_all add: hex_string_def)
next
  show "hex_written num buff m (buff + of_nat (length (hex_string num))) = 0"
    using hex_written_fixed(3) [of num buff m] by (simp add: hex_string_def algebra_simps)
qed (rule hex_string_nonzero)

lemma hex_written_frame:
  assumes "of_nat (hex_digits num) + 3 \<le> a - buff"
  shows "hex_written num buff m a = m a"
proof -
  let ?d = "hex_digits num"
  have "unat (of_nat ?d + 3 :: u32) = ?d + 3"
    using hex_digits(2) [of num] unat_of_nat_small [of "?d + 3"] by simp
  then have far: "?d + 3 \<le> unat (a - buff)" using assms by (simp add: word_le_nat_alt)
  have ne: "a - buff \<noteq> of_nat i" if "i < ?d + 3" for i
    using far that hex_digits(2) [of num] unat_of_nat_small [of i] by auto
  have "hex_written num buff m (buff + (a - buff)) =
      (m(buff := 0x30, buff + 1 := 0x78, buff + (of_nat ?d + 3 - 1) := 0)) (buff + (a - buff))"
    by (rule hex_written_else, rule ne) auto
  then show ?thesis using ne [of 0] ne [of 1] ne [of "?d + 2"] by (auto simp: algebra_simps)
qed

lemma hex_leading_digit: "hex_digits num = 1 \<or> hd (hex_text (unat num) (hex_digits num)) \<noteq> 0x30"
proof (rule disjCI)
  let ?t = "unat num div 16 ^ (hex_digits num - 1)"
  assume "\<not> hd (hex_text (unat num) (hex_digits num)) \<noteq> 0x30"
  moreover have "hd (hex_text (unat num) (hex_digits num)) = hex_char (?t mod 16)"
    using hex_digits(1) [of num] by (cases "hex_digits num") (simp_all add: hex_text_def)
  ultimately have "hex_char (?t mod 16) = hex_char 0" by (simp add: hex_char_def)
  then have "?t mod 16 = 0" by (metis hex_char_value mod_less_divisor zero_less_numeral)
  moreover have "?t < 16"
    using hex_digits(1,4) [of num]
    by (cases "hex_digits num") (simp_all add: div_less_iff_less_mult mult.commute)
  ultimately have "\<not> 16 ^ (hex_digits num - 1) \<le> unat num"
    by (metis div_greater_zero_iff mod_less neq0_conv zero_less_numeral zero_less_power)
  then show "hex_digits num = 1" using hex_digits(5) [of num] by simp
qed

subsection \<open>Properties\<close>

text \<open>
  C20. \<open>num_to_hex_string\<close> always returns, and what it leaves at the buffer is the string
  \<open>0x\<close> followed by the upper-case hexadecimal digits of the number, without leading zeros;
  reading them back gives the number. At most 11 bytes are written, all inside the string.
\<close>

theorem num_to_hex_string_digits:
  "\<exists>m' d. num_to_hex_string noret num buff m = Some m' \<and>
     is_cstr m' buff (0x30 # 0x78 # hex_text (unat num) d) \<and>
     hex_value (hex_text (unat num) d) = unat num \<and>
     0 < d \<and> d \<le> 8 \<and> (d = 1 \<or> hd (hex_text (unat num) d) \<noteq> 0x30) \<and>
     (\<forall>a. of_nat d + 3 \<le> a - buff \<longrightarrow> m' a = m a)"
  using num_to_hex_string_returns hex_written_cstr [unfolded hex_string_def] hex_value_text [OF hex_digits(4)]
    hex_digits(1,2) hex_leading_digit hex_written_frame
  by blast

theorem num_to_hex_string_digits_witness:
  "\<exists>m' d. num_to_hex_string (\<lambda>_. 0) 0xBEEF 0x1000 (\<lambda>_. 0xFF) = Some m' \<and>
     is_cstr m' 0x1000 (0x30 # 0x78 # hex_text (unat (0xBEEF :: u32)) d) \<and>
     hex_value (hex_text (unat (0xBEEF :: u32)) d) = 0xBEEF \<and> m' 0x2000 = 0xFF"
proof -
  obtain m' d where f: "num_to_hex_string (\<lambda>_. 0) 0xBEEF 0x1000 (\<lambda>_. 0xFF) = Some m'"
      "is_cstr m' 0x1000 (0x30 # 0x78 # hex_text (unat (0xBEEF :: u32)) d)"
      "hex_value (hex_text (unat (0xBEEF :: u32)) d) = unat (0xBEEF :: u32)" "d \<le> 8"
      "\<forall>a. of_nat d + 3 \<le> a - 0x1000 \<longrightarrow> m' a = 0xFF"
    using num_to_hex_string_digits [of "\<lambda>_. 0" "0xBEEF" "0x1000" "\<lambda>_. 0xFF"] by blast
  have "of_nat d + 3 \<le> (0x2000 :: u32) - 0x1000"
    using f(4) unat_of_nat_small [of "d + 3"] by (simp add: word_le_nat_alt)
  with f show ?thesis by (intro exI [of _ m'] exI [of _ d]) simp
qed

end
