(* ===== verification/Keycodes.thy ===== *)
theory Keycodes
  imports Prelude
begin

text \<open>
  \<^verbatim>\<open>src/include/drivers/keyboard/keycodes.h\<close> and
  \<^verbatim>\<open>src/drivers/keyboard/keycodes.c\<close>: the keycodes (USB usage numbers) and the tables from
  keycodes to the string a key prints, plain and with shift. A table entry the initialiser
  does not name is a null pointer; an index past the end of a table reads what the linker put
  there, the parameter of \<open>table_entry\<close>.
\<close>

subsection \<open>Keycodes\<close>

named_theorems keycode_defs \<open>the numbers of the keys\<close>

definition KEY_RESERVED :: u16 where [keycode_defs]: "KEY_RESERVED = 0x00"
definition KEY_ERR_ROLLOVER :: u16 where [keycode_defs]: "KEY_ERR_ROLLOVER = 0x01"
definition KEY_POST_FAIL :: u16 where [keycode_defs]: "KEY_POST_FAIL = 0x02"
definition KEY_ERR_UNDEFINED :: u16 where [keycode_defs]: "KEY_ERR_UNDEFINED = 0x03"
definition KEY_A :: u16 where [keycode_defs]: "KEY_A = 0x04"
definition KEY_B :: u16 where [keycode_defs]: "KEY_B = 0x05"
definition KEY_C :: u16 where [keycode_defs]: "KEY_C = 0x06"
definition KEY_D :: u16 where [keycode_defs]: "KEY_D = 0x07"
definition KEY_E :: u16 where [keycode_defs]: "KEY_E = 0x08"
definition KEY_F :: u16 where [keycode_defs]: "KEY_F = 0x09"
definition KEY_G :: u16 where [keycode_defs]: "KEY_G = 0x0A"
definition KEY_H :: u16 where [keycode_defs]: "KEY_H = 0x0B"
definition KEY_I :: u16 where [keycode_defs]: "KEY_I = 0x0C"
definition KEY_J :: u16 where [keycode_defs]: "KEY_J = 0x0D"
definition KEY_K :: u16 where [keycode_defs]: "KEY_K = 0x0E"
definition KEY_L :: u16 where [keycode_defs]: "KEY_L = 0x0F"
definition KEY_M :: u16 where [keycode_defs]: "KEY_M = 0x10"
definition KEY_N :: u16 where [keycode_defs]: "KEY_N = 0x11"
definition KEY_O :: u16 where [keycode_defs]: "KEY_O = 0x12"
definition KEY_P :: u16 where [keycode_defs]: "KEY_P = 0x13"
definition KEY_Q :: u16 where [keycode_defs]: "KEY_Q = 0x14"
definition KEY_R :: u16 where [keycode_defs]: "KEY_R = 0x15"
definition KEY_S :: u16 where [keycode_defs]: "KEY_S = 0x16"
definition KEY_T :: u16 where [keycode_defs]: "KEY_T = 0x17"
definition KEY_U :: u16 where [keycode_defs]: "KEY_U = 0x18"
definition KEY_V :: u16 where [keycode_defs]: "KEY_V = 0x19"
definition KEY_W :: u16 where [keycode_defs]: "KEY_W = 0x1A"
definition KEY_X :: u16 where [keycode_defs]: "KEY_X = 0x1B"
definition KEY_Y :: u16 where [keycode_defs]: "KEY_Y = 0x1C"
definition KEY_Z :: u16 where [keycode_defs]: "KEY_Z = 0x1D"
definition KEY_1_AND_EXCLAMATION :: u16 where [keycode_defs]: "KEY_1_AND_EXCLAMATION = 0x1E"
definition KEY_2_AND_AT :: u16 where [keycode_defs]: "KEY_2_AND_AT = 0x1F"
definition KEY_3_AND_HASH :: u16 where [keycode_defs]: "KEY_3_AND_HASH = 0x20"
definition KEY_4_AND_DOLLAR :: u16 where [keycode_defs]: "KEY_4_AND_DOLLAR = 0x21"
definition KEY_5_AND_PERCENT :: u16 where [keycode_defs]: "KEY_5_AND_PERCENT = 0x22"
definition KEY_6_AND_CARET :: u16 where [keycode_defs]: "KEY_6_AND_CARET = 0x23"
definition KEY_7_AND_AMPERSAND :: u16 where [keycode_defs]: "KEY_7_AND_AMPERSAND = 0x24"
definition KEY_8_AND_ASTERISK :: u16 where [keycode_defs]: "KEY_8_AND_ASTERISK = 0x25"
definition KEY_9_AND_LEFT_PAREN :: u16 where [keycode_defs]: "KEY_9_AND_LEFT_PAREN = 0x26"
definition KEY_0_AND_RIGHT_PAREN :: u16 where [keycode_defs]: "KEY_0_AND_RIGHT_PAREN = 0x27"
definition KEY_RETURN_ENTER :: u16 where [keycode_defs]: "KEY_RETURN_ENTER = 0x28"
definition KEY_ESCAPE :: u16 where [keycode_defs]: "KEY_ESCAPE = 0x29"
definition KEY_DELETE_BACKSPACE :: u16 where [keycode_defs]: "KEY_DELETE_BACKSPACE = 0x2A"
definition KEY_TAB :: u16 where [keycode_defs]: "KEY_TAB = 0x2B"
definition KEY_SPACEBAR :: u16 where [keycode_defs]: "KEY_SPACEBAR = 0x2C"
definition KEY_MINUS_UNDERSCORE :: u16 where [keycode_defs]: "KEY_MINUS_UNDERSCORE = 0x2D"
definition KEY_EQUAL_PLUS :: u16 where [keycode_defs]: "KEY_EQUAL_PLUS = 0x2E"
definition KEY_LEFT_BRACKET :: u16 where [keycode_defs]: "KEY_LEFT_BRACKET = 0x2F"
definition KEY_RIGHT_BRACKET :: u16 where [keycode_defs]: "KEY_RIGHT_BRACKET = 0x30"
definition KEY_BACKSLASH_AND_PIPE :: u16 where [keycode_defs]: "KEY_BACKSLASH_AND_PIPE = 0x31"
definition KEY_NON_US_HASH_TILDE :: u16 where [keycode_defs]: "KEY_NON_US_HASH_TILDE = 0x32"
definition KEY_SEMICOLON_COLON :: u16 where [keycode_defs]: "KEY_SEMICOLON_COLON = 0x33"
definition KEY_APOSTROPHE_QUOTE :: u16 where [keycode_defs]: "KEY_APOSTROPHE_QUOTE = 0x34"
definition KEY_GRAVE_ACCENT_TILDE :: u16 where [keycode_defs]: "KEY_GRAVE_ACCENT_TILDE = 0x35"
definition KEY_COMMA_LESS_THAN :: u16 where [keycode_defs]: "KEY_COMMA_LESS_THAN = 0x36"
definition KEY_PERIOD_GREATER_THAN :: u16 where [keycode_defs]: "KEY_PERIOD_GREATER_THAN = 0x37"
definition KEY_SLASH_QUESTION :: u16 where [keycode_defs]: "KEY_SLASH_QUESTION = 0x38"
definition KEY_CAPS_LOCK :: u16 where [keycode_defs]: "KEY_CAPS_LOCK = 0x39"
definition KEY_F1 :: u16 where [keycode_defs]: "KEY_F1 = 0x3A"
definition KEY_F2 :: u16 where [keycode_defs]: "KEY_F2 = 0x3B"
definition KEY_F3 :: u16 where [keycode_defs]: "KEY_F3 = 0x3C"
definition KEY_F4 :: u16 where [keycode_defs]: "KEY_F4 = 0x3D"
definition KEY_F5 :: u16 where [keycode_defs]: "KEY_F5 = 0x3E"
definition KEY_F6 :: u16 where [keycode_defs]: "KEY_F6 = 0x3F"
definition KEY_F7 :: u16 where [keycode_defs]: "KEY_F7 = 0x40"
definition KEY_F8 :: u16 where [keycode_defs]: "KEY_F8 = 0x41"
definition KEY_F9 :: u16 where [keycode_defs]: "KEY_F9 = 0x42"
definition KEY_F10 :: u16 where [keycode_defs]: "KEY_F10 = 0x43"
definition KEY_F11 :: u16 where [keycode_defs]: "KEY_F11 = 0x44"
definition KEY_F12 :: u16 where [keycode_defs]: "KEY_F12 = 0x45"
definition KEY_PRINT_SCREEN :: u16 where [keycode_defs]: "KEY_PRINT_SCREEN = 0x46"
definition KEY_SCROLL_LOCK :: u16 where [keycode_defs]: "KEY_SCROLL_LOCK = 0x47"
definition KEY_PAUSE :: u16 where [keycode_defs]: "KEY_PAUSE = 0x48"
definition KEY_INSERT :: u16 where [keycode_defs]: "KEY_INSERT = 0x49"
definition KEY_HOME :: u16 where [keycode_defs]: "KEY_HOME = 0x4A"
definition KEY_PAGE_UP :: u16 where [keycode_defs]: "KEY_PAGE_UP = 0x4B"
definition KEY_DELETE_FORWARD :: u16 where [keycode_defs]: "KEY_DELETE_FORWARD = 0x4C"
definition KEY_END :: u16 where [keycode_defs]: "KEY_END = 0x4D"
definition KEY_PAGE_DOWN :: u16 where [keycode_defs]: "KEY_PAGE_DOWN = 0x4E"
definition KEY_RIGHT_ARROW :: u16 where [keycode_defs]: "KEY_RIGHT_ARROW = 0x4F"
definition KEY_LEFT_ARROW :: u16 where [keycode_defs]: "KEY_LEFT_ARROW = 0x50"
definition KEY_DOWN_ARROW :: u16 where [keycode_defs]: "KEY_DOWN_ARROW = 0x51"
definition KEY_UP_ARROW :: u16 where [keycode_defs]: "KEY_UP_ARROW = 0x52"
definition KEY_NUM_LOCK_AND_CLEAR :: u16 where [keycode_defs]: "KEY_NUM_LOCK_AND_CLEAR = 0x53"
definition KEY_KEYPAD_SLASH :: u16 where [keycode_defs]: "KEY_KEYPAD_SLASH = 0x54"
definition KEY_KEYPAD_ASTERISK :: u16 where [keycode_defs]: "KEY_KEYPAD_ASTERISK = 0x55"
definition KEY_KEYPAD_MINUS :: u16 where [keycode_defs]: "KEY_KEYPAD_MINUS = 0x56"
definition KEY_KEYPAD_PLUS :: u16 where [keycode_defs]: "KEY_KEYPAD_PLUS = 0x57"
definition KEY_KEYPAD_ENTER :: u16 where [keycode_defs]: "KEY_KEYPAD_ENTER = 0x58"
definition KEY_KEYPAD_1_AND_END :: u16 where [keycode_defs]: "KEY_KEYPAD_1_AND_END = 0x59"
definition KEY_KEYPAD_2_AND_DOWN_ARROW :: u16 where [keycode_defs]: "KEY_KEYPAD_2_AND_DOWN_ARROW = 0x5A"
definition KEY_KEYPAD_3_AND_PAGE_DOWN :: u16 where [keycode_defs]: "KEY_KEYPAD_3_AND_PAGE_DOWN = 0x5B"
definition KEY_KEYPAD_4_AND_LEFT_ARROW :: u16 where [keycode_defs]: "KEY_KEYPAD_4_AND_LEFT_ARROW = 0x5C"
definition KEY_KEYPAD_5 :: u16 where [keycode_defs]: "KEY_KEYPAD_5 = 0x5D"
definition KEY_KEYPAD_6_AND_RIGHT_ARROW :: u16 where [keycode_defs]: "KEY_KEYPAD_6_AND_RIGHT_ARROW = 0x5E"
definition KEY_KEYPAD_7_AND_HOME :: u16 where [keycode_defs]: "KEY_KEYPAD_7_AND_HOME = 0x5F"
definition KEY_KEYPAD_8_AND_UP_ARROW :: u16 where [keycode_defs]: "KEY_KEYPAD_8_AND_UP_ARROW = 0x60"
definition KEY_KEYPAD_9_AND_PAGE_UP :: u16 where [keycode_defs]: "KEY_KEYPAD_9_AND_PAGE_UP = 0x61"
definition KEY_KEYPAD_0_AND_INSERT :: u16 where [keycode_defs]: "KEY_KEYPAD_0_AND_INSERT = 0x62"
definition KEY_KEYPAD_DECIMAL :: u16 where [keycode_defs]: "KEY_KEYPAD_DECIMAL = 0x63"
definition KEY_KEYPAD_EQUAL_SIGN :: u16 where [keycode_defs]: "KEY_KEYPAD_EQUAL_SIGN = 0x67"
definition KEY_L_CTRL :: u16 where [keycode_defs]: "KEY_L_CTRL = 0xE0"
definition KEY_L_SHIFT :: u16 where [keycode_defs]: "KEY_L_SHIFT = 0xE1"
definition KEY_L_ALT :: u16 where [keycode_defs]: "KEY_L_ALT = 0xE2"
definition KEY_L_GUI :: u16 where [keycode_defs]: "KEY_L_GUI = 0xE3"
definition KEY_R_CTRL :: u16 where [keycode_defs]: "KEY_R_CTRL = 0xE4"
definition KEY_R_SHIFT :: u16 where [keycode_defs]: "KEY_R_SHIFT = 0xE5"
definition KEY_R_ALT :: u16 where [keycode_defs]: "KEY_R_ALT = 0xE6"
definition KEY_R_GUI :: u16 where [keycode_defs]: "KEY_R_GUI = 0xE7"
definition KEY_RESERVED_DV :: u16 where [keycode_defs]: "KEY_RESERVED_DV = 0xE8"

subsection \<open>The strings the keys print\<close>

definition modified_printable_keycode_mappings :: "(u16 \<times> u8 list) list" where
  "modified_printable_keycode_mappings =
    [
     (0x04, [0x41]), (0x05, [0x42]), (0x06, [0x43]), (0x07, [0x44]), (0x08, [0x45]),
     (0x09, [0x46]), (0x0A, [0x47]), (0x0B, [0x48]), (0x0C, [0x49]), (0x0D, [0x4A]),
     (0x0E, [0x4B]), (0x0F, [0x4C]), (0x10, [0x4D]), (0x11, [0x4E]), (0x12, [0x4F]),
     (0x13, [0x50]), (0x14, [0x51]), (0x15, [0x52]), (0x16, [0x53]), (0x17, [0x54]),
     (0x18, [0x55]), (0x19, [0x56]), (0x1A, [0x57]), (0x1B, [0x58]), (0x1C, [0x59]),
     (0x1D, [0x5A]), (0x1E, [0x21]), (0x1F, [0x40]), (0x20, [0x23]), (0x21, [0x24]),
     (0x22, [0x25, 0x25]), (0x23, [0x5E]), (0x24, [0x26]), (0x25, [0x2A]), (0x26, [0x28]),
     (0x27, [0x29]), (0x2D, [0x5F]), (0x2E, [0x2B]), (0x2F, [0x7B]), (0x30, [0x7D]),
     (0x31, [0x7C]), (0x33, [0x3A]), (0x34, [0x22]), (0x35, [0x7E]), (0x36, [0x3C]),
     (0x37, [0x3E]), (0x38, [0x3F])]"

definition base_printable_keycode_mappings :: "(u16 \<times> u8 list) list" where
  "base_printable_keycode_mappings =
    [
     (0x04, [0x61]), (0x05, [0x62]), (0x06, [0x63]), (0x07, [0x64]), (0x08, [0x65]),
     (0x09, [0x66]), (0x0A, [0x67]), (0x0B, [0x68]), (0x0C, [0x69]), (0x0D, [0x6A]),
     (0x0E, [0x6B]), (0x0F, [0x6C]), (0x10, [0x6D]), (0x11, [0x6E]), (0x12, [0x6F]),
     (0x13, [0x70]), (0x14, [0x71]), (0x15, [0x72]), (0x16, [0x73]), (0x17, [0x74]),
     (0x18, [0x75]), (0x19, [0x76]), (0x1A, [0x77]), (0x1B, [0x78]), (0x1C, [0x79]),
     (0x1D, [0x7A]), (0x1E, [0x31]), (0x1F, [0x32]), (0x20, [0x33]), (0x21, [0x34]),
     (0x22, [0x35]), (0x23, [0x36]), (0x24, [0x37]), (0x25, [0x38]), (0x26, [0x39]),
     (0x27, [0x30]), (0x28, [0x0A]), (0x29, [0x4E, 0x2F, 0x41]), (0x2A, [0x08]),
     (0x2B, [0x09]), (0x2C, [0x20]), (0x2D, [0x2D]), (0x2E, [0x3D]), (0x2F, [0x5B]),
     (0x30, [0x5D]), (0x31, [0x5C]), (0x32, [0x23]), (0x33, [0x3B]), (0x34, [0x27]),
     (0x35, [0x60]), (0x36, [0x2C]), (0x37, [0x2E]), (0x38, [0x2F]), (0x54, [0x2F]),
     (0x55, [0x2A]), (0x56, [0x2D]), (0x57, [0x2B]), (0x58, [0x0A]), (0x59, [0x31]),
     (0x5A, [0x32]), (0x5B, [0x33]), (0x5C, [0x34]), (0x5D, [0x35]), (0x5E, [0x36]),
     (0x5F, [0x37]), (0x60, [0x38]), (0x61, [0x39]), (0x62, [0x30]), (0x63, [0x2E]),
     (0x67, [0x3D])]"


text \<open>
  The first character of the string the table holds for a key (\<open>*table[keycode]\<close>): the table has
  \<open>n\<close> entries, \<open>at_null\<close> is the byte at address 0, which a null entry reads, and \<open>past\<close> what an
  index behind the table reads.
\<close>

definition table_char :: "(u16 \<times> u8 list) list \<Rightarrow> u16 \<Rightarrow> (u16 \<Rightarrow> u8) \<Rightarrow> u8 \<Rightarrow> u16 \<Rightarrow> u8" where
  "table_char table n past at_null keycode =
     (if keycode < n then
        (case map_of table keycode of Some s \<Rightarrow> hd (s @ [0]) | None \<Rightarrow> at_null)
      else past keycode)"

definition base_printable_char :: "(u16 \<Rightarrow> u8) \<Rightarrow> u8 \<Rightarrow> u16 \<Rightarrow> u8" where
  "base_printable_char = table_char base_printable_keycode_mappings 0x68"

definition modified_printable_char :: "(u16 \<Rightarrow> u8) \<Rightarrow> u8 \<Rightarrow> u16 \<Rightarrow> u8" where
  "modified_printable_char = table_char modified_printable_keycode_mappings 0x39"

end
