(* ===== verification/Ps2.thy ===== *)
theory Ps2
  imports Keycodes Utils
begin

text \<open>
  \<^verbatim>\<open>src/drivers/keyboard/ps2.c\<close>: the PS/2 controller and the decoding of scancode set 2.

  A device is a function from the history of port operations to the byte the next read gives
  (\<open>device\<close>); every operation appends its events, so a history is what the controller saw.
  The decoder keeps two flags between interrupts (\<open>ps2\<close>); a completed key is handed to the
  terminal, here the parameter \<open>handle_keycode\<close> of \<open>handle_kbd_irq\<close>, on a state of its own.
\<close>

subsection \<open>Scancode tables\<close>

definition utility_scancodes :: "u8 list" where
  "utility_scancodes = [0xFA, 0xEE, 0x00, 0xFF, 0xAA, 0xAB, 0xA9]"

definition ps2_set2_keycode_table :: "(u8 \<times> u16) list" where
  "ps2_set2_keycode_table =
    [
     (0x1C, KEY_A), (0x32, KEY_B), (0x21, KEY_C), (0x23, KEY_D), (0x24, KEY_E), (0x2B, KEY_F),
     (0x34, KEY_G), (0x33, KEY_H), (0x43, KEY_I), (0x3B, KEY_J), (0x42, KEY_K), (0x4B, KEY_L),
     (0x3A, KEY_M), (0x31, KEY_N), (0x44, KEY_O), (0x4D, KEY_P), (0x15, KEY_Q), (0x2D, KEY_R),
     (0x1B, KEY_S), (0x2C, KEY_T), (0x3C, KEY_U), (0x2A, KEY_V), (0x1D, KEY_W), (0x22, KEY_X),
     (0x35, KEY_Y), (0x1A, KEY_Z), (0x45, KEY_0_AND_RIGHT_PAREN),
     (0x16, KEY_1_AND_EXCLAMATION), (0x1E, KEY_2_AND_AT), (0x26, KEY_3_AND_HASH),
     (0x25, KEY_4_AND_DOLLAR), (0x2E, KEY_5_AND_PERCENT), (0x36, KEY_6_AND_CARET),
     (0x3D, KEY_7_AND_AMPERSAND), (0x3E, KEY_8_AND_ASTERISK), (0x46, KEY_9_AND_LEFT_PAREN),
     (0x29, KEY_SPACEBAR), (0x0D, KEY_TAB), (0x58, KEY_CAPS_LOCK), (0x12, KEY_L_SHIFT),
     (0x14, KEY_L_CTRL), (0x1F, KEY_L_GUI), (0x11, KEY_L_ALT), (0x76, KEY_ESCAPE),
     (0x0E, KEY_GRAVE_ACCENT_TILDE), (0x59, KEY_R_SHIFT), (0x27, KEY_R_GUI),
     (0x41, KEY_COMMA_LESS_THAN), (0x49, KEY_PERIOD_GREATER_THAN), (0x4A, KEY_SLASH_QUESTION),
     (0x4C, KEY_SEMICOLON_COLON), (0x52, KEY_APOSTROPHE_QUOTE), (0x54, KEY_LEFT_BRACKET),
     (0x5B, KEY_RIGHT_BRACKET), (0x5D, KEY_BACKSLASH_AND_PIPE), (0x4E, KEY_MINUS_UNDERSCORE),
     (0x55, KEY_EQUAL_PLUS), (0x66, KEY_DELETE_BACKSPACE), (0x5A, KEY_RETURN_ENTER),
     (0x05, KEY_F1), (0x06, KEY_F2), (0x04, KEY_F3), (0x0C, KEY_F4), (0x03, KEY_F5),
     (0x0B, KEY_F6), (0x83, KEY_F7), (0x0A, KEY_F8), (0x01, KEY_F9), (0x09, KEY_F10),
     (0x78, KEY_F11), (0x07, KEY_F12), (0x7E, KEY_SCROLL_LOCK), (0xE1, KEY_PAUSE),
     (0x77, KEY_NUM_LOCK_AND_CLEAR), (0x7C, KEY_KEYPAD_ASTERISK), (0x7B, KEY_KEYPAD_MINUS),
     (0x79, KEY_KEYPAD_PLUS), (0x69, KEY_KEYPAD_1_AND_END),
     (0x72, KEY_KEYPAD_2_AND_DOWN_ARROW), (0x7A, KEY_KEYPAD_3_AND_PAGE_DOWN),
     (0x6B, KEY_KEYPAD_4_AND_LEFT_ARROW), (0x73, KEY_KEYPAD_5),
     (0x74, KEY_KEYPAD_6_AND_RIGHT_ARROW), (0x6C, KEY_KEYPAD_7_AND_HOME),
     (0x75, KEY_KEYPAD_8_AND_UP_ARROW), (0x7D, KEY_KEYPAD_9_AND_PAGE_UP),
     (0x70, KEY_KEYPAD_0_AND_INSERT), (0x71, KEY_KEYPAD_DECIMAL), (0x67, KEY_KEYPAD_EQUAL_SIGN)]"

definition ps2_set2_keycode :: "u8 \<Rightarrow> u16" where
  "ps2_set2_keycode scancode =
     (case map_of ps2_set2_keycode_table scancode of Some k \<Rightarrow> k | None \<Rightarrow> 0)"

definition ps2_set2_prefixed_table :: "(u8 \<times> u16) list" where
  "ps2_set2_prefixed_table =
    [
     (0x14, KEY_R_CTRL), (0x11, KEY_R_ALT), (0x70, KEY_INSERT), (0x6C, KEY_HOME),
     (0x7D, KEY_PAGE_UP), (0x71, KEY_DELETE_FORWARD), (0x69, KEY_END), (0x7A, KEY_PAGE_DOWN),
     (0x74, KEY_RIGHT_ARROW), (0x6B, KEY_LEFT_ARROW), (0x72, KEY_DOWN_ARROW),
     (0x75, KEY_UP_ARROW)]"

text \<open>The table has \<open>0x80\<close> entries; a larger scancode reads past it (\<open>oob\<close>).\<close>

definition ps2_set2_prefixed_keycodes :: "(u8 \<Rightarrow> u16) \<Rightarrow> u8 \<Rightarrow> u16" where
  "ps2_set2_prefixed_keycodes oob scancode =
     (if scancode < 0x80 then
        (case map_of ps2_set2_prefixed_table scancode of Some k \<Rightarrow> k | None \<Rightarrow> 0)
      else oob scancode)"

subsection \<open>Ports\<close>

datatype io_event = Out u16 u8 | In u16 u8

type_synonym device = "io_event list \<Rightarrow> u16 \<Rightarrow> u8"

definition sendb_toport :: "u16 \<Rightarrow> u8 \<Rightarrow> io_event list \<Rightarrow> io_event list" where
  "sendb_toport port data h = h @ [Out port data]"

definition recvb_fromport :: "device \<Rightarrow> u16 \<Rightarrow> io_event list \<Rightarrow> u8 \<times> io_event list" where
  "recvb_fromport dev port h = (dev h port, h @ [In port (dev h port)])"

definition KEYBOARD_IOPORT :: u16 where "KEYBOARD_IOPORT = 0x60"
definition KEYBOARD_CONTROLLER_IOPORT :: u16 where "KEYBOARD_CONTROLLER_IOPORT = 0x64"
definition KBD_CONT_READ_CNTL_REG_CMD :: u8 where "KBD_CONT_READ_CNTL_REG_CMD = 0x20"
definition KBD_CONT_WRITE_CNTL_REG_CMD :: u8 where "KBD_CONT_WRITE_CNTL_REG_CMD = 0x60"
definition KBD_CONT_DISABLE_MOUSE_INTERFACE_CMD :: u8 where "KBD_CONT_DISABLE_MOUSE_INTERFACE_CMD = 0xA7"
definition KBD_CONT_ENABLE_MOUSE_INTERFACE_CMD :: u8 where "KBD_CONT_ENABLE_MOUSE_INTERFACE_CMD = 0xA8"
definition KBD_CONT_DISABLE_KEYBOARD_INTERFACE_CMD :: u8 where "KBD_CONT_DISABLE_KEYBOARD_INTERFACE_CMD = 0xAD"
definition KBD_CONT_ENABLE_KEYBOARD_INTERFACE_CMD :: u8 where "KBD_CONT_ENABLE_KEYBOARD_INTERFACE_CMD = 0xAE"
definition RESET_KEYBOARD_CMD :: u8 where "RESET_KEYBOARD_CMD = 0xFF"
definition ECHO_KEYBOARD_CMD :: u8 where "ECHO_KEYBOARD_CMD = 0xEE"
definition ENABLE_KEYBORD_SCANNING_CMD :: u8 where "ENABLE_KEYBORD_SCANNING_CMD = 0xF4"
definition KBD_SELF_TEST_PASS_RESP :: u8 where "KBD_SELF_TEST_PASS_RESP = 0xAA"
definition KBD_INTERFACE_TEST_RESP :: u8 where "KBD_INTERFACE_TEST_RESP = 0xAB"
definition KBD_MOUSE_INTERFACE_TEST_RESP :: u8 where "KBD_MOUSE_INTERFACE_TEST_RESP = 0xA9"

lemmas port_consts = KEYBOARD_IOPORT_def KEYBOARD_CONTROLLER_IOPORT_def KBD_CONT_READ_CNTL_REG_CMD_def
  KBD_CONT_WRITE_CNTL_REG_CMD_def KBD_CONT_DISABLE_MOUSE_INTERFACE_CMD_def
  KBD_CONT_ENABLE_MOUSE_INTERFACE_CMD_def KBD_CONT_DISABLE_KEYBOARD_INTERFACE_CMD_def
  KBD_CONT_ENABLE_KEYBOARD_INTERFACE_CMD_def RESET_KEYBOARD_CMD_def ECHO_KEYBOARD_CMD_def
  ENABLE_KEYBORD_SCANNING_CMD_def KBD_SELF_TEST_PASS_RESP_def KBD_INTERFACE_TEST_RESP_def
  KBD_MOUSE_INTERFACE_TEST_RESP_def

subsection \<open>The controller\<close>

definition get_scancode_set_version :: u8 where "get_scancode_set_version = 2"

definition sendb_to_keyboard :: "u8 \<Rightarrow> io_event list \<Rightarrow> io_event list" where
  "sendb_to_keyboard byte h = sendb_toport KEYBOARD_IOPORT byte h"

definition readb_from_keyboard :: "device \<Rightarrow> io_event list \<Rightarrow> u8 \<times> io_event list" where
  "readb_from_keyboard dev h = recvb_fromport dev KEYBOARD_IOPORT h"

definition get_keyboardcontroller_status_reg :: "device \<Rightarrow> io_event list \<Rightarrow> u8 \<times> io_event list" where
  "get_keyboardcontroller_status_reg dev h = recvb_fromport dev KEYBOARD_CONTROLLER_IOPORT h"

definition reset_keyboard :: "io_event list \<Rightarrow> io_event list" where
  "reset_keyboard h = sendb_to_keyboard RESET_KEYBOARD_CMD h"

text \<open>The status byte is used as the address of the status register (\<open>*(struct ps2_status_reg*)\<close>).\<close>

definition out_buff_full :: "device \<Rightarrow> mem \<Rightarrow> io_event list \<Rightarrow> bool \<times> io_event list" where
  "out_buff_full dev m h =
     (let (status, h) = get_keyboardcontroller_status_reg dev h in (bit (m (ucast status)) 0, h))"

definition in_buff_full :: "device \<Rightarrow> mem \<Rightarrow> io_event list \<Rightarrow> bool \<times> io_event list" where
  "in_buff_full dev m h =
     (let (status, h) = get_keyboardcontroller_status_reg dev h in (bit (m (ucast status)) 1, h))"

partial_function (option) read_while_full ::
    "device \<Rightarrow> bool \<Rightarrow> u8 \<Rightarrow> (u8 \<Rightarrow> u8) \<Rightarrow> io_event list \<Rightarrow> (u8 \<times> (u8 \<Rightarrow> u8) \<times> io_event list) option" where
  "read_while_full dev isfull buff_index buff h =
     (if isfull then
        (let (b, h) = readb_from_keyboard dev h
         in read_while_full dev isfull (buff_index + 1) (buff(buff_index := b)) h)
      else Some (buff_index, buff, h))"

text \<open>The result is the contents of the local buffer the returned pointer points to.\<close>

definition clear_input_buffer ::
    "device \<Rightarrow> mem \<Rightarrow> (u8 \<Rightarrow> u8) \<Rightarrow> io_event list \<Rightarrow> ((u8 \<Rightarrow> u8) \<times> io_event list) option" where
  "clear_input_buffer dev m buff h =
     (let (isfull, h) = in_buff_full dev m h in
      Option.bind (read_while_full dev isfull 0 buff h) (\<lambda>(buff_index, buff, h).
        Some (buff(buff_index := 0), h)))"

definition ping_keyboard :: "device \<Rightarrow> io_event list \<Rightarrow> u8 \<times> io_event list" where
  "ping_keyboard dev h =
     (let h = sendb_to_keyboard ECHO_KEYBOARD_CMD h;
          (status, h) = get_keyboardcontroller_status_reg dev h
      in readb_from_keyboard dev h)"

definition send_kbd_controller_cmd :: "u8 \<Rightarrow> io_event list \<Rightarrow> io_event list" where
  "send_kbd_controller_cmd cmd h = sendb_toport KEYBOARD_CONTROLLER_IOPORT cmd h"

definition send_kbd_controller_cmd_with_param :: "u8 \<Rightarrow> u8 \<Rightarrow> io_event list \<Rightarrow> io_event list" where
  "send_kbd_controller_cmd_with_param cmd parameter h =
     (let h = sendb_toport KEYBOARD_CONTROLLER_IOPORT cmd h
      in sendb_toport KEYBOARD_IOPORT parameter h)"

definition disable_ps2devices :: "io_event list \<Rightarrow> io_event list" where
  "disable_ps2devices h =
     (let h = send_kbd_controller_cmd KBD_CONT_DISABLE_MOUSE_INTERFACE_CMD h
      in send_kbd_controller_cmd KBD_CONT_DISABLE_KEYBOARD_INTERFACE_CMD h)"

definition read_kbd_cntl_control_reg :: "device \<Rightarrow> io_event list \<Rightarrow> u8 \<times> io_event list" where
  "read_kbd_cntl_control_reg dev h =
     (let h = send_kbd_controller_cmd KBD_CONT_READ_CNTL_REG_CMD h in readb_from_keyboard dev h)"

definition write_kbd_ctl_control_reg :: "u8 \<Rightarrow> io_event list \<Rightarrow> io_event list" where
  "write_kbd_ctl_control_reg new_control_reg_val h =
     send_kbd_controller_cmd_with_param KBD_CONT_WRITE_CNTL_REG_CMD new_control_reg_val h"

definition controller_self_test :: "device \<Rightarrow> io_event list \<Rightarrow> bool \<times> io_event list" where
  "controller_self_test dev h =
     (let (curr_control_reg, h) = read_kbd_cntl_control_reg dev h;
          h = send_kbd_controller_cmd KBD_SELF_TEST_PASS_RESP h;
          h = write_kbd_ctl_control_reg curr_control_reg h;
          (kbd_cont_response, h) = readb_from_keyboard dev h
      in (kbd_cont_response = 0x55, h))"

definition initialize_kbd_control_reg :: "device \<Rightarrow> io_event list \<Rightarrow> io_event list" where
  "initialize_kbd_control_reg dev h =
     (let (reg, h) = read_kbd_cntl_control_reg dev h;
          reg = reg AND NOT (push_bit 0 1);
          reg = reg AND NOT (push_bit 1 1);
          reg = reg AND NOT (push_bit 6 1)
      in write_kbd_ctl_control_reg reg h)"

definition ps2_contoller_has_multiple_ports :: "device \<Rightarrow> io_event list \<Rightarrow> bool \<times> io_event list" where
  "ps2_contoller_has_multiple_ports dev h =
     (let (ctl_reg, h) = read_kbd_cntl_control_reg dev h in (ctl_reg AND push_bit 5 1 \<noteq> 0, h))"

text \<open>The result is an \<open>unsigned char\<close>: the error code \<open>-1\<close> is 255.\<close>

definition test_kbd_cont_interfaces :: "device \<Rightarrow> bool \<Rightarrow> io_event list \<Rightarrow> u8 \<times> io_event list" where
  "test_kbd_cont_interfaces dev multiple_interfaces h =
     (let mouse_res = - 1;
          h = send_kbd_controller_cmd KBD_INTERFACE_TEST_RESP h;
          (kbd_res, h) = readb_from_keyboard dev h;
          (mouse_res, h) =
            (if multiple_interfaces then
               (let h = send_kbd_controller_cmd KBD_MOUSE_INTERFACE_TEST_RESP h
                in readb_from_keyboard dev h)
             else (mouse_res, h))
      in (if kbd_res = 0 \<and> mouse_res = 0 then 2
          else if kbd_res = 0 then 0
          else if mouse_res = 0 then 1
          else - 1, h))"

definition enable_keyboard_interfaces :: "u8 \<Rightarrow> io_event list \<Rightarrow> io_event list" where
  "enable_keyboard_interfaces code h =
     (if code = 0 then send_kbd_controller_cmd KBD_CONT_ENABLE_KEYBOARD_INTERFACE_CMD h
      else if code = 1 then send_kbd_controller_cmd KBD_CONT_ENABLE_MOUSE_INTERFACE_CMD h
      else if code = 2 then
        (let h = send_kbd_controller_cmd KBD_CONT_ENABLE_KEYBOARD_INTERFACE_CMD h
         in send_kbd_controller_cmd KBD_CONT_ENABLE_MOUSE_INTERFACE_CMD h)
      else h)"

definition enable_interrupt_ports :: "device \<Rightarrow> u8 \<Rightarrow> io_event list \<Rightarrow> io_event list" where
  "enable_interrupt_ports dev code h =
     (let (reg, h) = read_kbd_cntl_control_reg dev h;
          reg = (if code = 0 then reg OR push_bit 0 1
                 else if code = 1 then reg OR push_bit 1 1
                 else if code = 2 then reg OR push_bit 0 1 OR push_bit 1 1
                 else reg)
      in write_kbd_ctl_control_reg reg h)"

text \<open>\<open>while(!test_pass) controller_self_test();\<close> the flag is not assigned in the loop.\<close>

partial_function (option) repeat_self_test :: "device \<Rightarrow> bool \<Rightarrow> io_event list \<Rightarrow> io_event list option" where
  "repeat_self_test dev test_pass h =
     (if \<not> test_pass then
        (let (r, h) = controller_self_test dev h in repeat_self_test dev test_pass h)
      else Some h)"

text \<open>The comparison with \<open>-1\<close> is one of \<open>int\<close>s, and an \<open>unsigned char\<close> is never negative.\<close>

definition initialize_ps2keyboard :: "device \<Rightarrow> io_event list \<Rightarrow> io_event list option" where
  "initialize_ps2keyboard dev h =
     (let h = disable_ps2devices h;
          (b, h) = readb_from_keyboard dev h;
          h = initialize_kbd_control_reg dev h;
          (test_pass, h) = controller_self_test dev h
      in Option.bind (repeat_self_test dev test_pass h) (\<lambda>h.
        let (multiple_interfaces, h) = ps2_contoller_has_multiple_ports dev h;
            (interface_avail, h) = test_kbd_cont_interfaces dev multiple_interfaces h;
            h = (if uint interface_avail = - 1 then h
                 else
                   (let h = enable_keyboard_interfaces interface_avail h
                    in enable_interrupt_ports dev interface_avail h));
            h = reset_keyboard h
        in Some (sendb_to_keyboard ENABLE_KEYBORD_SCANNING_CMD h)))"

subsection \<open>Decoding scancodes\<close>

record ps2 =
  bufferedPrefix :: bool
  bufferedBreakCodePrefix :: bool

definition set2_scancode_to_keycode :: "(u8 \<Rightarrow> u16) \<Rightarrow> u8 \<Rightarrow> ps2 \<Rightarrow> u16" where
  "set2_scancode_to_keycode oob scancode p =
     (if bufferedPrefix p then ps2_set2_prefixed_keycodes oob scancode
      else ps2_set2_keycode scancode)"

definition isBreakCode :: "u8 \<Rightarrow> bool" where
  "isBreakCode scancode \<longleftrightarrow> scancode = 0xF0"

definition isCompleteKeycode :: "u8 \<Rightarrow> bool" where
  "isCompleteKeycode scancode \<longleftrightarrow> \<not> (scancode = 0xE0 \<or> scancode = 0xF0)"

text \<open>A constant byte array the linker placed at \<open>p\<close>.\<close>

definition const_array :: "u32 \<Rightarrow> u8 list \<Rightarrow> mem" where
  "const_array p xs = (\<lambda>a. if unat (a - p) < length xs then xs ! unat (a - p) else 0)"

definition isUtilityKeycode :: "u32 \<Rightarrow> u8 \<Rightarrow> bool" where
  "isUtilityKeycode utility_at scancode =
     isInArray (const_array utility_at utility_scancodes) utility_at (ucast scancode)
       (of_nat (length utility_scancodes))"

definition handle_utility_keycode :: "u8 \<Rightarrow> 's \<Rightarrow> 's" where
  "handle_utility_keycode scancode s = s"

definition handle_kbd_irq ::
    "u32 \<Rightarrow> (u8 \<Rightarrow> u16) \<Rightarrow> (u16 \<Rightarrow> bool \<Rightarrow> 's \<Rightarrow> 's option) \<Rightarrow> u8 \<Rightarrow> ps2 \<times> 's \<Rightarrow> (ps2 \<times> 's) option" where
  "handle_kbd_irq utility_at oob handle_keycode scancode ps =
     (let (p, s) = ps;
          keycode = set2_scancode_to_keycode oob scancode p
      in if isUtilityKeycode utility_at scancode then Some (p, handle_utility_keycode scancode s)
         else if \<not> isCompleteKeycode scancode then
           (if isBreakCode scancode then
              Some (p\<lparr>bufferedBreakCodePrefix := True, bufferedPrefix := False\<rparr>, s)
            else Some (p\<lparr>bufferedPrefix := True\<rparr>, s))
         else
           Option.bind (handle_keycode keycode (bufferedBreakCodePrefix p) s) (\<lambda>s.
             Some (p\<lparr>bufferedBreakCodePrefix := False, bufferedPrefix := False\<rparr>, s)))"

subsection \<open>The decoder on streams of scancodes\<close>

fun kbd_run ::
    "u32 \<Rightarrow> (u8 \<Rightarrow> u16) \<Rightarrow> (u16 \<Rightarrow> bool \<Rightarrow> 's \<Rightarrow> 's option) \<Rightarrow> u8 list \<Rightarrow> ps2 \<times> 's \<Rightarrow> (ps2 \<times> 's) option" where
  "kbd_run ua oob hk [] ps = Some ps"
| "kbd_run ua oob hk (b # bs) ps = Option.bind (handle_kbd_irq ua oob hk b ps) (kbd_run ua oob hk bs)"

lemma kbd_run_append:
  "kbd_run ua oob hk (xs @ ys) ps = Option.bind (kbd_run ua oob hk xs ps) (kbd_run ua oob hk ys)"
  by (induction xs arbitrary: ps) (auto simp: Option.bind_assoc split: bind_splits)

lemma const_array_holds: "length xs < 2 ^ 32 \<Longrightarrow> holds_bytes (const_array p xs) p xs"
  by (auto simp: holds_bytes_def const_array_def unat_of_nat_small)

lemma isUtilityKeycode_iff:
  assumes "ua \<noteq> NULL"
  shows "isUtilityKeycode ua scancode \<longleftrightarrow> scancode \<in> set utility_scancodes"
proof -
  have "(ucast (ucast scancode :: u32) :: u8) = scancode"
    by (rule bit_word_eqI) (auto simp: bit_simps)
  then show ?thesis
    unfolding isUtilityKeycode_def
    using isInArray_list [OF const_array_holds assms, of utility_scancodes "ucast scancode"]
    by (simp add: utility_scancodes_def)
qed

text \<open>The byte sequences a key sends: pressed or released, plain or extended.\<close>

datatype key_seq = Make u8 | Break u8 | ExtMake u8 | ExtBreak u8

fun key_bytes :: "key_seq \<Rightarrow> u8 list" where
  "key_bytes (Make c) = [c]"
| "key_bytes (Break c) = [0xF0, c]"
| "key_bytes (ExtMake c) = [0xE0, c]"
| "key_bytes (ExtBreak c) = [0xE0, 0xF0, c]"

fun key_code :: "key_seq \<Rightarrow> u8" where
  "key_code (Make c) = c" | "key_code (Break c) = c"
| "key_code (ExtMake c) = c" | "key_code (ExtBreak c) = c"

text \<open>What the decoder reports: a released extended key is reported as the plain key.\<close>

fun key_event :: "(u8 \<Rightarrow> u16) \<Rightarrow> key_seq \<Rightarrow> u16 \<times> bool" where
  "key_event oob (Make c) = (ps2_set2_keycode c, False)"
| "key_event oob (Break c) = (ps2_set2_keycode c, True)"
| "key_event oob (ExtMake c) = (ps2_set2_prefixed_keycodes oob c, False)"
| "key_event oob (ExtBreak c) = (ps2_set2_keycode c, True)"

definition is_key_byte :: "u8 \<Rightarrow> bool" where
  "is_key_byte c \<longleftrightarrow> c \<notin> set utility_scancodes \<and> c \<noteq> 0xE0 \<and> c \<noteq> 0xF0"

definition kbd_idle :: ps2 where
  "kbd_idle = \<lparr>bufferedPrefix = False, bufferedBreakCodePrefix = False\<rparr>"

text \<open>A handler that takes a list of events one by one.\<close>

fun handle_all :: "(u16 \<Rightarrow> bool \<Rightarrow> 's \<Rightarrow> 's option) \<Rightarrow> (u16 \<times> bool) list \<Rightarrow> 's \<Rightarrow> 's option" where
  "handle_all hk [] s = Some s"
| "handle_all hk (e # es) s = Option.bind (hk (fst e) (snd e) s) (handle_all hk es)"

lemma kbd_run_key:
  assumes "ua \<noteq> NULL" and "is_key_byte (key_code k)"
  shows "kbd_run ua oob hk (key_bytes k) (kbd_idle, s) =
    map_option (\<lambda>s. (kbd_idle, s)) (hk (fst (key_event oob k)) (snd (key_event oob k)) s)"
  using assms
  by (cases k)
    (auto simp: handle_kbd_irq_def isUtilityKeycode_iff is_key_byte_def isCompleteKeycode_def
      isBreakCode_def set2_scancode_to_keycode_def kbd_idle_def utility_scancodes_def
      map_option_case split: option.splits bind_splits)

lemma kbd_stream:
  assumes "ua \<noteq> NULL" and "\<forall>k \<in> set ks. is_key_byte (key_code k)"
  shows "kbd_run ua oob hk (concat (map key_bytes ks)) (kbd_idle, s) =
    map_option (\<lambda>s. (kbd_idle, s)) (handle_all hk (map (key_event oob) ks) s)"
  using assms
  by (induction ks arbitrary: s)
    (auto simp: kbd_run_append kbd_run_key map_option_case split: option.splits bind_splits)

subsection \<open>Properties\<close>

text \<open>
  C21. A stream of key presses and releases, one after the other, is decoded to exactly one event
  per key, in order, and leaves the decoder idle; each event carries the keycode of the table the
  prefix selects and whether the key was released. The one deviation is in \<open>key_event\<close>: the
  release of an extended key (\<open>E0 F0 xx\<close>) is reported as the release of the plain key \<open>xx\<close>,
  because the break prefix resets the extension flag.
\<close>

theorem kbd_stream_decoded:
  assumes "ua \<noteq> NULL" and "\<forall>k \<in> set ks. is_key_byte (key_code k)"
  shows "kbd_run ua oob hk (concat (map key_bytes ks)) (kbd_idle, s) =
    map_option (\<lambda>s. (kbd_idle, s)) (handle_all hk (map (key_event oob) ks) s)"
  by (rule kbd_stream [OF assms])

text \<open>Right arrow pressed and released, then shift held for an \<open>a\<close>.\<close>

theorem kbd_stream_decoded_witness:
  "kbd_run 0x1000 (\<lambda>_. 0) (\<lambda>k b es. Some (es @ [(k, b)]))
      [0xE0, 0x74, 0xE0, 0xF0, 0x74, 0x12, 0x1C, 0xF0, 0x1C, 0xF0, 0x12] (kbd_idle, []) =
    Some (kbd_idle, [(KEY_RIGHT_ARROW, False), (KEY_KEYPAD_6_AND_RIGHT_ARROW, True),
      (KEY_L_SHIFT, False), (KEY_A, False), (KEY_A, True), (KEY_L_SHIFT, True)])"
  using kbd_stream_decoded [where ua = "0x1000" and oob = "\<lambda>_. 0" and s = "[]"
      and ks = "[ExtMake 0x74, ExtBreak 0x74, Make 0x12, Make 0x1C, Break 0x1C, Break 0x12]"
      and hk = "\<lambda>k b es. Some (es @ [(k, b)])"]
  by (simp add: is_key_byte_def utility_scancodes_def ps2_set2_prefixed_keycodes_def
      ps2_set2_prefixed_table_def ps2_set2_keycode_def ps2_set2_keycode_table_def)

text \<open>
  Acknowledgements, echoes and error codes of the keyboard are invisible to the decoder, wherever
  they stand in the stream, even between a prefix and its scancode: any stream is handled as the
  stream without them, whatever the handler does.
\<close>

theorem kbd_ignores_utility:
  assumes "ua \<noteq> NULL"
  shows "kbd_run ua oob hk bs ps =
    kbd_run ua oob hk (filter (\<lambda>b. b \<notin> set utility_scancodes) bs) ps"
proof (induction bs arbitrary: ps)
  case (Cons b bs)
  have "handle_kbd_irq ua oob hk b ps = Some ps" if "b \<in> set utility_scancodes"
    using that isUtilityKeycode_iff [OF assms]
    by (simp add: handle_kbd_irq_def handle_utility_keycode_def split: prod.split)
  then show ?case using Cons.IH by (auto split: bind_splits)
qed simp

theorem kbd_ignores_utility_witness:
  "kbd_run 0x1000 (\<lambda>_. 0) (\<lambda>k b es. Some (es @ [(k, b)])) [0xF0, 0xFA, 0x1C] (kbd_idle, []) =
    Some (kbd_idle, [(KEY_A, True)])"
proof -
  have "kbd_run 0x1000 (\<lambda>_. 0) (\<lambda>k b es. Some (es @ [(k, b)])) [0xF0, 0xFA, 0x1C] (kbd_idle, []) =
    kbd_run 0x1000 (\<lambda>_. 0) (\<lambda>k b es. Some (es @ [(k, b)])) [0xF0, 0x1C] (kbd_idle, [])"
    by (subst kbd_ignores_utility) (simp_all add: utility_scancodes_def)
  also have "\<dots> = Some (kbd_idle, [(KEY_A, True)])"
    by (simp add: handle_kbd_irq_def isUtilityKeycode_iff utility_scancodes_def isCompleteKeycode_def
        isBreakCode_def set2_scancode_to_keycode_def kbd_idle_def ps2_set2_keycode_def ps2_set2_keycode_table_def)
  finally show ?thesis .
qed

subsection \<open>Distinct keys\<close>

definition known_keys :: "key_seq list" where
  "known_keys = map (\<lambda>e. Make (fst e)) ps2_set2_keycode_table @ map (\<lambda>e. ExtMake (fst e)) ps2_set2_prefixed_table"

text \<open>
  No two keys of the keyboard are confused when pressed: over both tables together, different
  plain or extended scancodes have different keycodes, and none has the keycode 0 that stands for an
  unknown key.
\<close>

theorem keys_have_distinct_codes:
  "distinct (0 # map (\<lambda>k. fst (key_event oob k)) known_keys)"
proof -
  have "map (\<lambda>k. fst (key_event oob k)) known_keys =
      map snd ps2_set2_keycode_table @ map snd ps2_set2_prefixed_table"
    by (simp add: known_keys_def ps2_set2_keycode_def ps2_set2_prefixed_keycodes_def
        ps2_set2_keycode_table_def ps2_set2_prefixed_table_def)
  then show ?thesis
    by (simp add: ps2_set2_keycode_table_def ps2_set2_prefixed_table_def keycode_defs)
qed

subsection \<open>Initialising the controller\<close>

lemma repeat_self_test_flag:
  assumes "repeat_self_test dev test_pass h = Some r"
  shows "test_pass"
  by (rule repeat_self_test.raw_induct [where P = "\<lambda>d test_pass h r. test_pass", OF _ assms])
    (auto split: if_splits prod.splits)

lemma repeat_self_test_True [simp]: "repeat_self_test dev True h = Some h"
  by (subst repeat_self_test.simps) simp

lemma repeat_self_test_False [simp]: "repeat_self_test dev False h = None"
proof (cases "repeat_self_test dev False h")
  case (Some r)
  then show ?thesis using repeat_self_test_flag [OF Some] by simp
qed

lemma read_while_full_flag:
  assumes "read_while_full dev isfull i buff h = Some r"
  shows "\<not> isfull"
  by (rule read_while_full.raw_induct [where P = "\<lambda>d isfull i buff h r. \<not> isfull", OF _ assms])
    (fastforce split: if_splits prod.splits)

text \<open>
  C23. The keyboard set-up returns exactly when the controller answers \<open>0x55\<close> to the first self
  test; after any other answer it repeats the test for ever, because the loop does not look at the
  new answers.
\<close>

theorem initialize_ps2keyboard_returns_iff:
  "(\<exists>h'. initialize_ps2keyboard dev h = Some h') \<longleftrightarrow>
     fst (controller_self_test dev (initialize_kbd_control_reg dev
       (snd (readb_from_keyboard dev (disable_ps2devices h)))))"
proof -
  obtain b h1 where 1: "readb_from_keyboard dev (disable_ps2devices h) = (b, h1)" by fastforce
  obtain t h2 where 2: "controller_self_test dev (initialize_kbd_control_reg dev h1) = (t, h2)" by fastforce
  show ?thesis
    by (cases t) (simp_all add: initialize_ps2keyboard_def 1 2 Let_def split: prod.split)
qed

text \<open>
  The documented behaviour of an 8042 controller with one or \<open>two\<close> ports. Command \<open>0x60\<close> writes the
  byte that follows into the control register and \<open>0x20\<close> reads it. \<open>0xAD\<close> and \<open>0xAE\<close> disable and
  enable the clock of the keyboard port, which is bit 4 of the register, set when disabled; \<open>0xA7\<close>
  and \<open>0xA8\<close> do so for bit 5 and the second port, when there is one. The self test \<open>0xAA\<close> may leave
  the register changed (\<open>reset\<close>); its answer \<open>0x55\<close> is still there behind the parameter of a write.
  The test \<open>0xAB\<close> of the keyboard port answers 0.
\<close>

fun control_step :: "bool \<Rightarrow> (u8 \<Rightarrow> u8) \<Rightarrow> bool \<times> u8 \<Rightarrow> io_event \<Rightarrow> bool \<times> u8" where
  "control_step two reset (expects, r) (Out p v) =
     (if p = 0x64 then
        (v = 0x60,
         if v = 0xAD then r OR 0x10
         else if v = 0xAE then r AND 0xEF
         else if v = 0xA7 \<and> two then r OR 0x20
         else if v = 0xA8 \<and> two then r AND 0xDF
         else if v = 0xAA then reset r
         else r)
      else if p = 0x60 then (False, if expects then v else r)
      else (expects, r))"
| "control_step two reset (expects, r) (In p v) = (expects, r)"

definition control_reg :: "bool \<Rightarrow> (u8 \<Rightarrow> u8) \<Rightarrow> u8 \<Rightarrow> io_event list \<Rightarrow> u8" where
  "control_reg two reset r0 h = snd (fold (\<lambda>e s. control_step two reset s e) h (False, r0))"

definition kbd_controller :: "bool \<Rightarrow> (u8 \<Rightarrow> u8) \<Rightarrow> u8 \<Rightarrow> device \<Rightarrow> bool" where
  "kbd_controller two reset r0 dev \<longleftrightarrow>
     (\<forall>h. dev (h @ [Out 0x64 0x20]) 0x60 = control_reg two reset r0 h) \<and>
     (\<forall>h v. dev (h @ [Out 0x64 0xAA, Out 0x64 0x60, Out 0x60 v]) 0x60 = 0x55) \<and>
     (\<forall>h. dev (h @ [Out 0x64 0xAB]) 0x60 = 0)"

lemma control_reg_write:
  "control_reg two rs r0 (h @ [Out 0x64 0x60, Out 0x60 v]) = v"
  "control_reg two rs r0 (h @ [Out 0x64 0x60, Out 0x60 v, Out 0x60 a, Out 0x60 b]) = v"
  by (cases "fold (\<lambda>e s. control_step two rs s e) h (False, r0)", simp add: control_reg_def)+

lemma control_reg_frames:
  "control_reg two rs r0 (h @ [In p v]) = control_reg two rs r0 h"
  "control_reg two rs r0 (h @ [Out 0x64 0x20, In p v]) = control_reg two rs r0 h"
  by (cases "fold (\<lambda>e s. control_step two rs s e) h (False, r0)", simp add: control_reg_def)+

lemma control_reg_cmd:
  "control_reg two rs r0 (h @ [Out 0x64 v]) =
    (let r = control_reg two rs r0 h in
     if v = 0xAD then r OR 0x10 else if v = 0xAE then r AND 0xEF
     else if v = 0xA7 \<and> two then r OR 0x20 else if v = 0xA8 \<and> two then r AND 0xDF
     else if v = 0xAA then rs r else r)"
  by (cases "fold (\<lambda>e s. control_step two rs s e) h (False, r0)") (simp add: control_reg_def)

lemmas controller_ops = sendb_to_keyboard_def readb_from_keyboard_def sendb_toport_def recvb_fromport_def
  send_kbd_controller_cmd_def send_kbd_controller_cmd_with_param_def disable_ps2devices_def
  read_kbd_cntl_control_reg_def write_kbd_ctl_control_reg_def controller_self_test_def
  initialize_kbd_control_reg_def ps2_contoller_has_multiple_ports_def test_kbd_cont_interfaces_def
  enable_keyboard_interfaces_def enable_interrupt_ports_def reset_keyboard_def

lemma read_control:
  assumes "kbd_controller two rs r0 dev"
  shows "read_kbd_cntl_control_reg dev h =
    (control_reg two rs r0 h, h @ [Out 0x64 0x20, In 0x60 (control_reg two rs r0 h)])"
  using assms by (simp add: kbd_controller_def controller_ops port_consts)

lemma write_control: "control_reg two rs r0 (write_kbd_ctl_control_reg v h) = v"
  by (simp add: controller_ops port_consts control_reg_write)

lemma init_control:
  assumes "kbd_controller two rs r0 dev"
  shows "control_reg two rs r0 (initialize_kbd_control_reg dev h) = control_reg two rs r0 h AND 0xBC"
proof -
  have "control_reg two rs r0 h AND - 68 = control_reg two rs r0 h AND 0xBC"
    by (rule arg_cong [of _ _ "(AND) (control_reg two rs r0 h)"]) simp
  then show ?thesis
    using assms by (simp add: initialize_kbd_control_reg_def read_control write_control and.assoc)
qed

lemma self_test_passes:
  assumes "kbd_controller two rs r0 dev"
  shows "fst (controller_self_test dev h)"
    and "control_reg two rs r0 (snd (controller_self_test dev h)) = control_reg two rs r0 h"
proof -
  let ?c = "control_reg two rs r0 h"
  have r: "dev (h @ [Out 0x64 0x20]) 0x60 = ?c"
    using assms unfolding kbd_controller_def by blast
  have "dev ((h @ [Out 0x64 0x20, In 0x60 ?c]) @ [Out 0x64 0xAA, Out 0x64 0x60, Out 0x60 ?c]) 0x60 = 0x55"
    using assms unfolding kbd_controller_def by blast
  then have "controller_self_test dev h =
      (True, ((h @ [Out 0x64 0x20, In 0x60 ?c, Out 0x64 0xAA]) @ [Out 0x64 0x60, Out 0x60 ?c]) @ [In 0x60 0x55])"
    using r by (simp add: controller_ops port_consts)
  then show "fst (controller_self_test dev h)"
    and "control_reg two rs r0 (snd (controller_self_test dev h)) = control_reg two rs r0 h"
    by (simp_all only: fst_conv snd_conv control_reg_frames control_reg_write)
qed

lemma multiple_ports_control:
  assumes "kbd_controller two rs r0 dev"
  shows "\<exists>h'. ps2_contoller_has_multiple_ports dev h = (bit (control_reg two rs r0 h) 5, h') \<and>
    control_reg two rs r0 h' = control_reg two rs r0 h"
  using assms
  by (simp add: ps2_contoller_has_multiple_ports_def read_control control_reg_frames)
    (simp add: and_exp_eq_0_iff_not_bit [where n = 5, simplified])

lemma test_interfaces_control:
  assumes "kbd_controller two rs r0 dev" and "\<And>h. dev (h @ [Out 0x64 0xA9]) 0x60 = aux_res"
  shows "\<exists>h'. test_kbd_cont_interfaces dev multiple h = (if multiple \<and> aux_res = 0 then 2 else 0, h') \<and>
    control_reg two rs r0 h' = control_reg two rs r0 h"
proof -
  have k: "dev (h @ [Out 0x64 0xAB]) 0x60 = 0" for h
    using assms(1) unfolding kbd_controller_def by blast
  have a: "dev (h @ [Out 0x64 0xAB, In 0x60 0, Out 0x64 0xA9]) 0x60 = aux_res"
    using assms(2) [of "h @ [Out 0x64 0xAB, In 0x60 0]"] by simp
  show ?thesis
    by (cases "fold (\<lambda>e s. control_step two rs s e) h (False, r0)")
      (auto simp: controller_ops port_consts k a control_reg_def Let_def)
qed

lemma disable_control:
  "control_reg two rs r0 (disable_ps2devices h) =
     (if two then control_reg two rs r0 h OR 0x20 else control_reg two rs r0 h) OR 0x10"
  using control_reg_cmd [of two rs r0 "h @ [Out 0x64 0xA7]" "0xAD"] control_reg_cmd [of two rs r0 h "0xA7"]
  by (simp add: controller_ops port_consts)

lemma enable_control:
  assumes "code \<in> {0, 2}"
  shows "control_reg two rs r0 (enable_keyboard_interfaces code h) =
    (if code = 2 \<and> two then control_reg two rs r0 h AND 0xCF else control_reg two rs r0 h AND 0xEF)"
  using assms control_reg_cmd [of two rs r0 "h @ [Out 0x64 0xAE]" "0xA8"] control_reg_cmd [of two rs r0 h "0xAE"]
  by (auto simp add: controller_ops port_consts and.assoc)

text \<open>The control register at the end, from its value \<open>c\<close> at the start.\<close>

definition final_control :: "bool \<Rightarrow> bool \<Rightarrow> u8 \<Rightarrow> u8" where
  "final_control two passes c = (c AND 0x8C) OR
     (if two then (if passes then 0x03 else 0x21)
      else if bit c 5 then (if passes then 0x23 else 0x21) else 0x01)"

lemma final_control_steps:
  fixes c :: u8 and two passes :: bool
  defines "c1 \<equiv> ((if two then c OR 0x20 else c) OR 0x10) AND 0xBC"
  defines "second \<equiv> bit c1 5 \<and> passes"
  shows "(if second \<and> two then c1 AND 0xCF else c1 AND 0xEF) OR (if second then 3 else 1) =
    final_control two passes c"
proof -
  have b5: "c AND 0x20 = (if bit c 5 then 0x20 else 0)"
  proof (rule bit_word_eqI)
    fix n
    have "(0x20 :: u8) = 2 ^ 5" by simp
    then have "bit (0x20 :: u8) n \<longleftrightarrow> n = 5" by (simp only: bit_exp_iff) auto
    then show "bit (c AND 0x20) n = bit (if bit c 5 then 0x20 else 0 :: u8) n" by (auto simp: bit_and_iff)
  qed
  have "c AND 0xAC = c AND (0x8C OR 0x20)" by simp
  then have ac: "c AND 0xAC = (c AND 0x8C) OR (c AND 0x20)" by (simp only: bit.conj_disj_distrib)
  have "bit c1 5 \<longleftrightarrow> two \<or> bit c 5" by (simp add: c1_def bit_simps)
  moreover have "c1 = (if two then (c AND 0xBC) OR 0x30 else (c AND 0xBC) OR 0x10)"
    by (simp add: c1_def or.assoc bit.conj_disj_distrib2)
  ultimately show ?thesis
    unfolding second_def final_control_def
    by (auto simp: bit.conj_disj_distrib2 and.assoc or.assoc ac b5)
qed


text \<open>
  A controller with two ports whose control register was \<open>0x45\<close>, is reset by the self test, and whose
  second port passes its test.
\<close>

definition ex_controller :: device where
  "ex_controller h p =
     (if h = [] then 0
      else if last h = Out 0x64 0x20 then control_reg True (\<lambda>_. 0x30) 0x45 (butlast h)
      else if last h = Out 0x64 0xAB \<or> last h = Out 0x64 0xA9 then 0
      else 0x55)"


end
