(* ===== verification/Font.thy ===== *)
theory Font
  imports Memory
begin

text \<open>
  \<^verbatim>\<open>src/kernel/console/font.c\<close>: the console font and the bits of its glyphs. The font file is
  part of the kernel image; its address is a parameter.
\<close>

record font =
  numglyph :: u32
  bytesperglyph :: u32
  font_height :: u32
  font_width :: u32
  glyph :: u32
  hasUnicodeTable :: bool

datatype font_name = gr928b_8x16

definition PSF1_FONT_MAGIC :: u16 where "PSF1_FONT_MAGIC = 0x0436"
definition PSF2_FONT_MAGIC :: u32 where "PSF2_FONT_MAGIC = 0x864ab572"

definition read16 :: "mem \<Rightarrow> u32 \<Rightarrow> u16" where
  "read16 m a = ucast (m a) OR push_bit 8 (ucast (m (a + 1)))"

text \<open>\<open>PSF1_FontHeader\<close>: \<open>magic\<close> at 0, \<open>fontMode\<close> at 2, \<open>bytesperglyph\<close> at 3.\<close>

definition sizeof_PSF1_FontHeader :: u32 where "sizeof_PSF1_FontHeader = 4"

text \<open>
  \<open>PSF2_FontHeader\<close>: \<open>headersize\<close> at 8, \<open>flags\<close> at 12, then \<open>numglyph\<close>, \<open>bytesperglyph\<close>,
  \<open>height\<close> and \<open>width\<close>, which are copied together.
\<close>

definition is_psf1_font :: "mem \<Rightarrow> u32 \<Rightarrow> bool" where
  "is_psf1_font m psf_font_file =
     (if read16 m psf_font_file = PSF1_FONT_MAGIC then True
      else if read32 m psf_font_file = PSF2_FONT_MAGIC then False
      else False)"

definition initialize_font :: "mem \<Rightarrow> u32 \<Rightarrow> font_name \<Rightarrow> font \<Rightarrow> font" where
  "initialize_font m file name f =
     (case name of gr928b_8x16 \<Rightarrow>
        (if is_psf1_font m file then
           (let mode = m (file + 2); bytes = ucast (m (file + 3)) in
            f\<lparr>font_width := 8, bytesperglyph := bytes, font_height := bytes,
              glyph := file + sizeof_PSF1_FontHeader,
              numglyph := ((1 AND ucast mode) + 1) * 256,
              hasUnicodeTable := ((2 AND mode) OR (4 AND mode) \<noteq> 0)\<rparr>)
         else
           (let f = f\<lparr>numglyph := read32 m (file + 16), bytesperglyph := read32 m (file + 20),
                      font_height := read32 m (file + 24), font_width := read32 m (file + 28)\<rparr>
            in f\<lparr>glyph := file + read32 m (file + 8),
                 hasUnicodeTable := (1 AND read32 m (file + 12) \<noteq> 0)\<rparr>)))"

definition set_font :: "mem \<Rightarrow> u32 \<Rightarrow> font_name \<Rightarrow> font \<Rightarrow> font" where
  "set_font m file name f = (case name of gr928b_8x16 \<Rightarrow> initialize_font m file name f)"

text \<open>
  Bit \<open>bits_shifted\<close> of a bitmap, counted from the most significant bit of its first byte;
  the tested bit of the shifted byte is bit \<open>width - 1\<close>.
\<close>

definition isCharBit :: "mem \<Rightarrow> u32 \<Rightarrow> u8 \<Rightarrow> font \<Rightarrow> bool" where
  "isCharBit m char_bitmap bits_shifted f =
     (let bytes_shifted = bits_shifted div 8;
          char_bitmap = char_bitmap + ucast bytes_shifted;
          bits_shifted = bits_shifted mod 8;
          adjusted_bitmap = (push_bit (unat bits_shifted) (m char_bitmap) :: u8)
      in ((ucast adjusted_bitmap :: u32) AND push_bit (unat (font_width f - 1)) 1) \<noteq> 0)"

lemma isCharBit_8:
  assumes "font_width f = 8"
  shows "isCharBit m p i f \<longleftrightarrow> bit (m (p + ucast (i div 8))) (7 - unat (i mod 8))"
proof -
  have "unat (i mod 8) < 8"
    by (simp add: unat_mod_distrib)
  then show ?thesis
    using assms
    by (simp add: isCharBit_def Let_def and_exp_eq_0_iff_not_bit [where n = 7, simplified] bit_simps)
qed

end
