(* ===== verification/Vga.thy ===== *)
theory Vga
  imports Font Boot_Mem "HOL-Library.Signed_Division"
begin

text \<open>
  \<^verbatim>\<open>src/drivers/video/VGA_driver.c\<close>: pixels, glyphs and the text cursor on the linear
  framebuffer. The framebuffer's bytes are the field \<open>fb\<close>, apart from the memory \<open>hmem\<close>
  of the kernel's objects; both are indexed by virtual addresses. The one terminal of the system
  is part of the state. A \<open>Pixel_t\<close> has three bytes, so pointer arithmetic on pixels is in
  steps of 3.
\<close>

subsection \<open>State\<close>

type_synonym color = u32

definition BLACK :: color where "BLACK = 0x000000"
definition GRAY :: color where "GRAY = 0x808080"
definition SILVER :: color where "SILVER = 0xC0C0C0"
definition DONT_SET :: color where "DONT_SET = - 1"

record framebuffer =
  starting_address :: u32
  fb_width :: u32
  fb_height :: u32
  pitch :: u32
  total_bits :: u8
  num_red_bits :: u8
  red_bits_index :: u8
  num_green_bits :: u8
  green_bits_index :: u8
  num_blue_bits :: u8
  blue_bits_index :: u8
  pixel_size :: u8

text \<open>The globals of the driver and the fields of \<open>terminal_t\<close>; \<open>command_buff\<close> is an address.\<close>

record console = vmm +
  fb :: mem
  framebuffer :: framebuffer
  fb_pixel_map :: u32
  left_boundary_x :: u32
  right_boundary_x :: u32
  top_boundary_y :: u32
  bottom_boundary_y :: u32
  num_rows :: u32
  num_cols :: u32
  term_font :: font
  background_color :: color
  cursor_color :: color
  font_color :: color
  term_start :: u32
  text_cursor :: u32
  input_start :: u32
  command_buff :: u32
  end_idx :: u16
  cursor_pos_idx :: u16
  curr_command_idx :: u16

subsection \<open>Pixels\<close>

definition set_pixel_RGB :: "framebuffer \<Rightarrow> u32 \<Rightarrow> color \<Rightarrow> mem \<Rightarrow> mem" where
  "set_pixel_RGB f a pixel_color m =
     (let red_val = ucast (drop_bit 16 pixel_color AND 0xFF);
          blue_val = ucast (drop_bit 0 pixel_color AND 0xFF);
          green_val = ucast (drop_bit 8 pixel_color AND 0xFF);
          m = m(a + ucast (red_bits_index f div 8) := red_val);
          m = m(a + ucast (blue_bits_index f div 8) := blue_val)
      in m(a + ucast (green_bits_index f div 8) := green_val))"

definition get_char_font_bitmap_start :: "'a console_scheme \<Rightarrow> u32 \<Rightarrow> u32" where
  "get_char_font_bitmap_start s unicode_character_index =
     glyph (term_font s) + unicode_character_index * bytesperglyph (term_font s)"

definition calc_fb_addy_from_pix_vals :: "'a console_scheme \<Rightarrow> u32 \<Rightarrow> u32 \<Rightarrow> u32" where
  "calc_fb_addy_from_pix_vals s x y = fb_pixel_map s + 3 * (fb_width (framebuffer s) * y + x)"

definition advance_fb_row :: "'a console_scheme \<Rightarrow> u32 \<Rightarrow> u32" where
  "advance_fb_row s a = a + fb_width (framebuffer s) * ucast (pixel_size (framebuffer s))"

definition text_row_bytes :: "'a console_scheme \<Rightarrow> u32" where
  "text_row_bytes s =
     (let num_bytes_in_fb_row = ucast (pixel_size (framebuffer s)) * fb_width (framebuffer s)
      in num_bytes_in_fb_row * font_height (term_font s))"

definition decrement_text_row :: "'a console_scheme \<Rightarrow> u32 \<Rightarrow> u32" where
  "decrement_text_row s a = a - text_row_bytes s"

definition advance_text_row :: "'a console_scheme \<Rightarrow> u32 \<Rightarrow> u32" where
  "advance_text_row s a = a + text_row_bytes s"

definition advance_x_text_rows :: "'a console_scheme \<Rightarrow> u32 \<Rightarrow> u32 \<Rightarrow> u32" where
  "advance_x_text_rows s a row = a + text_row_bytes s * row"

text \<open>The difference of two \<open>Pixel_t\<close> pointers, a signed number.\<close>

definition pix_diff :: "u32 \<Rightarrow> u32 \<Rightarrow> u32" where
  "pix_diff a b = word_of_int (sint (a - b) sdiv 3)"

definition get_pixel_term_text_row :: "'a console_scheme \<Rightarrow> u32 \<Rightarrow> u32" where
  "get_pixel_term_text_row s pix =
     (let total_pixels_in_text_buff_row = fb_width (framebuffer s) * font_height (term_font s)
      in pix_diff pix (term_start s) div total_pixels_in_text_buff_row)"

definition get_pixel_term_text_col :: "'a console_scheme \<Rightarrow> u32 \<Rightarrow> u32 \<Rightarrow> u32" where
  "get_pixel_term_text_col s row_start pix = pix_diff pix row_start div font_width (term_font s)"

definition get_pix_row_start :: "'a console_scheme \<Rightarrow> u32 \<Rightarrow> u32" where
  "get_pix_row_start s pix = advance_x_text_rows s (term_start s) (get_pixel_term_text_row s pix)"

subsection \<open>Glyphs\<close>

text \<open>The inner body of \<open>print_char\<close>: the memory, the bit index and the pixel pointer.\<close>

definition print_char_pixel ::
    "'a console_scheme \<Rightarrow> u32 \<Rightarrow> color \<Rightarrow> color \<Rightarrow> mem \<times> u8 \<times> u32 \<Rightarrow> mem \<times> u8 \<times> u32" where
  "print_char_pixel s char_glyph char_color background = (\<lambda>(m, bitmap_idx, curr_pixel_address).
     let isChar = isCharBit (hmem s) char_glyph bitmap_idx (term_font s);
         m = (if \<not> isChar then
                (if background = DONT_SET then m
                 else set_pixel_RGB (framebuffer s) curr_pixel_address background m)
              else
                (if char_color = DONT_SET then m
                 else set_pixel_RGB (framebuffer s) curr_pixel_address char_color m))
     in (m, bitmap_idx + 1, curr_pixel_address + 3))"

definition print_char_row ::
    "'a console_scheme \<Rightarrow> u32 \<Rightarrow> color \<Rightarrow> color \<Rightarrow> mem \<times> u8 \<times> u32 \<Rightarrow> mem \<times> u8 \<times> u32" where
  "print_char_row s char_glyph char_color background = (\<lambda>(m, bitmap_idx, curr_row).
     let (m, bitmap_idx, curr_pixel_address) =
           for_loop 0 (font_width (term_font s))
             (\<lambda>_. print_char_pixel s char_glyph char_color background) (m, bitmap_idx, curr_row)
     in (m, bitmap_idx, advance_fb_row s curr_row))"

definition print_char :: "u32 \<Rightarrow> color \<Rightarrow> color \<Rightarrow> 'a console_scheme \<Rightarrow> 'a console_scheme" where
  "print_char unicode_character_index char_color background s =
     (let char_glyph = get_char_font_bitmap_start s unicode_character_index;
          (m, bitmap_idx, curr_row) =
            for_loop 0 (font_height (term_font s))
              (\<lambda>_. print_char_row s char_glyph char_color background) (fb s, 0, text_cursor s)
      in s\<lparr>fb := m\<rparr>)"

definition set_background_color :: "color \<Rightarrow> 'a console_scheme \<Rightarrow> 'a console_scheme" where
  "set_background_color new_background s =
     (let (m, curr_pix) =
        for_loop 0 (fb_height (framebuffer s)) (\<lambda>_.
          for_loop 0 (fb_width (framebuffer s)) (\<lambda>_ (m, curr_pix).
            (set_pixel_RGB (framebuffer s) curr_pix new_background m, curr_pix + 3)))
          (fb s, fb_pixel_map s)
      in s\<lparr>fb := m\<rparr>)"

text \<open>A \<open>char\<close> is signed and is extended to the \<open>uint32_t\<close> character index.\<close>

definition unplot_text_cursor :: "u8 \<Rightarrow> 'a console_scheme \<Rightarrow> 'a console_scheme" where
  "unplot_text_cursor c s = print_char (scast c) DONT_SET (background_color s) s"

definition plot_text_cursor :: "u8 \<Rightarrow> 'a console_scheme \<Rightarrow> 'a console_scheme" where
  "plot_text_cursor c s = print_char (scast c) DONT_SET (cursor_color s) s"

subsection \<open>Cells and the text cursor\<close>

text \<open>
  \<open>clear_x_cells\<close> and \<open>inc_textCursor\<close> call
  each other; \<open>clear_cells\<close> is the body both clearing functions share, with the cursor move as
  its parameter.
\<close>

definition clear_cells ::
    "('a console_scheme \<Rightarrow> 'a console_scheme option) \<Rightarrow> u32 \<Rightarrow> 'a console_scheme \<Rightarrow> 'a console_scheme option" where
  "clear_cells inc x s =
     for_loop_opt 0 x (\<lambda>col_idx s.
       let s = print_char 0 (background_color s) (background_color s) s
       in if col_idx \<noteq> x - 1 then inc s else Some s) s"

definition shift_text_screen_up_one_row :: "'a console_scheme \<Rightarrow> 'a console_scheme" where
  "shift_text_screen_up_one_row s =
     (let (m, curr_text_row) =
        for_loop 0 (num_rows s - 1) (\<lambda>_ (m, curr_text_row).
          let next_text_row = advance_text_row s curr_text_row
          in (memcpy m curr_text_row next_text_row (text_row_bytes s), next_text_row))
          (fb s, term_start s)
      in s\<lparr>fb := m\<rparr>)"

definition clear_x_cells_with ::
    "('a console_scheme \<Rightarrow> 'a console_scheme option) \<Rightarrow> u32 \<Rightarrow> 'a console_scheme \<Rightarrow> 'a console_scheme option" where
  "clear_x_cells_with inc x s =
     (let temp = text_cursor s in Option.bind (clear_cells inc x s) (\<lambda>s. Some (s\<lparr>text_cursor := temp\<rparr>)))"

lemma clear_x_cells_with_mono [partial_function_mono]:
  assumes "\<And>t. mono_option (\<lambda>f. B f t)"
  shows "mono_option (\<lambda>f. clear_x_cells_with (B f) x s)"
  unfolding clear_x_cells_with_def clear_cells_def Let_def
  by (intro partial_function_mono if_mono assms)

partial_function (option) inc_textCursor :: "'a console_scheme \<Rightarrow> 'a console_scheme option" where
  "inc_textCursor s =
     (let row_idx = get_pixel_term_text_row s (text_cursor s);
          row_start = advance_x_text_rows s (term_start s) row_idx;
          curr_pix_col_idx = get_pixel_term_text_col s row_start (text_cursor s);
          last_pix_col_idx_in_one_row = num_cols s - 1
      in if curr_pix_col_idx = last_pix_col_idx_in_one_row then
           (let last_term_text_row = advance_x_text_rows s (term_start s) (num_rows s - 1)
            in if row_start = last_term_text_row then
                 (let s = shift_text_screen_up_one_row s;
                      s = s\<lparr>text_cursor := last_term_text_row\<rparr>;
                      s = s\<lparr>input_start := decrement_text_row s (input_start s)\<rparr>
                  in clear_x_cells_with inc_textCursor (num_cols s) s)
               else Some (s\<lparr>text_cursor := advance_text_row s row_start\<rparr>))
         else Some (s\<lparr>text_cursor := text_cursor s + 3 * font_width (term_font s)\<rparr>))"

definition clear_x_cells :: "u32 \<Rightarrow> 'a console_scheme \<Rightarrow> 'a console_scheme option" where
  "clear_x_cells = clear_x_cells_with inc_textCursor"

definition clear_x_cells_at :: "u32 \<Rightarrow> u32 \<Rightarrow> 'a console_scheme \<Rightarrow> 'a console_scheme option" where
  "clear_x_cells_at location x s =
     (let temp = text_cursor s;
          s = s\<lparr>text_cursor := location\<rparr>
      in Option.bind (clear_cells inc_textCursor x s) (\<lambda>s. Some (s\<lparr>text_cursor := temp\<rparr>)))"

text \<open>Moving to a row, or scrolling when it lies below the last one.\<close>

definition go_to_text_row :: "u32 \<Rightarrow> 'a console_scheme \<Rightarrow> 'a console_scheme option" where
  "go_to_text_row next_input_row_idx s =
     (if next_input_row_idx > num_rows s - 1 then
        (let s = shift_text_screen_up_one_row s;
             s = s\<lparr>text_cursor := advance_x_text_rows s (term_start s) (num_rows s - 1)\<rparr>
         in clear_x_cells (num_cols s) s)
      else Some (s\<lparr>text_cursor := advance_x_text_rows s (term_start s) next_input_row_idx\<rparr>))"

text \<open>
  \<open>prompt\<close> is the address of the prompt string; the cell count is an \<open>unsigned short\<close> and
  the row count an \<open>unsigned char\<close>.
\<close>

definition move_textCursor_to_new_line_start :: "u32 \<Rightarrow> 'a console_scheme \<Rightarrow> 'a console_scheme option" where
  "move_textCursor_to_new_line_start prompt s =
     Option.bind (strlen (hmem s) prompt) (\<lambda>n.
       let total_cells_used = (ucast (ucast (end_idx s) + n :: u32) :: u16);
           rows_needed = (ucast ((ucast total_cells_used + (num_cols s - 1)) div num_cols s) :: u8);
           row_idx = get_pixel_term_text_row s (input_start s);
           next_input_row_idx = row_idx + ucast rows_needed
       in go_to_text_row next_input_row_idx s)"

definition move_textCursor_to_new_line_start_from_textCursor ::
    "'a console_scheme \<Rightarrow> 'a console_scheme option" where
  "move_textCursor_to_new_line_start_from_textCursor s =
     (let row_idx = get_pixel_term_text_row s (text_cursor s);
          next_input_row_idx = row_idx + 1
      in go_to_text_row next_input_row_idx s)"

definition dec_textCursor :: "'a console_scheme \<Rightarrow> bool \<times> 'a console_scheme" where
  "dec_textCursor s =
     (if text_cursor s = term_start s then (False, s)
      else
        (let row_start = get_pix_row_start s (text_cursor s) in
         if text_cursor s = row_start then
           (let one_row_back = decrement_text_row s row_start
            in (True, s\<lparr>text_cursor := one_row_back + 3 * (font_width (term_font s) * (num_cols s - 1))\<rparr>))
         else (True, s\<lparr>text_cursor := text_cursor s - 3 * font_width (term_font s)\<rparr>)))"

text \<open>\<open>inc_textCursor\<close> always returns \<open>true\<close>, so the loop runs to its end and the result is \<open>false\<close>.\<close>

definition inc_textCursor_x_times :: "u32 \<Rightarrow> 'a console_scheme \<Rightarrow> (bool \<times> 'a console_scheme) option" where
  "inc_textCursor_x_times x s =
     map_option (\<lambda>s. (False, s)) (for_loop_opt 0 x (\<lambda>_. inc_textCursor) s)"

definition print_str :: "u32 \<Rightarrow> u32 \<Rightarrow> 'a console_scheme \<Rightarrow> 'a console_scheme option" where
  "print_str string num_chars s =
     for_loop_opt 0 num_chars (\<lambda>idx s.
       inc_textCursor (print_char (scast (hmem s (string + idx))) (font_color s) (background_color s) s)) s"

text \<open>The colour fields of \<open>multiboot_tag_framebuffer\<close>.\<close>

record framebuffer_tag =
  framebuffer_addr :: u64
  framebuffer_pitch :: u32
  framebuffer_width :: u32
  framebuffer_height :: u32
  framebuffer_bpp :: u8
  framebuffer_red_field_position :: u8
  framebuffer_red_mask_size :: u8
  framebuffer_green_field_position :: u8
  framebuffer_green_mask_size :: u8
  framebuffer_blue_field_position :: u8
  framebuffer_blue_mask_size :: u8

definition initialize_framebuffer_attributes ::
    "nat \<Rightarrow> ('a console_scheme \<Rightarrow> u32) \<Rightarrow> framebuffer_tag \<Rightarrow> 'a console_scheme \<Rightarrow> 'a console_scheme option" where
  "initialize_framebuffer_attributes fuel noflags info s =
     (let f = \<lparr>starting_address = ucast (framebuffer_addr info), fb_width = framebuffer_width info,
               fb_height = framebuffer_height info, pitch = framebuffer_pitch info,
               total_bits = framebuffer_bpp info,
               num_red_bits = framebuffer_red_mask_size info,
               red_bits_index = framebuffer_red_field_position info,
               num_green_bits = framebuffer_green_mask_size info,
               green_bits_index = framebuffer_green_field_position info,
               num_blue_bits = framebuffer_blue_mask_size info,
               blue_bits_index = framebuffer_blue_field_position info,
               pixel_size = framebuffer_bpp info div 8\<rparr>;
          s = s\<lparr>framebuffer := f\<rparr>;
          framebuffer_mmio_length =
            (fb_width f * fb_height f) * ucast (framebuffer_bpp info div 8)
      in Option.bind (init_MMIO_device fuel noflags (starting_address f) framebuffer_mmio_length s) (\<lambda>(_, s).
           Some (s\<lparr>fb_pixel_map := starting_address f\<rparr>)))"

end
