(* ===== verification/Screen.thy ===== *)
theory Screen
  imports Vga
begin

text \<open>
  What the console shows: the grid of text cells, what \<open>print_char\<close> leaves in a cell, and the
  cursor as a position in the grid.
\<close>

subsection \<open>Geometry\<close>

abbreviation pixels_per_row :: "'a console_scheme \<Rightarrow> nat" where
  "pixels_per_row s \<equiv> unat (fb_width (framebuffer s))"
abbreviation cell_height :: "'a console_scheme \<Rightarrow> nat" where
  "cell_height s \<equiv> unat (font_height (term_font s))"
abbreviation cell_width :: "'a console_scheme \<Rightarrow> nat" where
  "cell_width s \<equiv> unat (font_width (term_font s))"
abbreviation rows :: "'a console_scheme \<Rightarrow> nat" where "rows s \<equiv> unat (num_rows s)"
abbreviation cols :: "'a console_scheme \<Rightarrow> nat" where "cols s \<equiv> unat (num_cols s)"

text \<open>The offsets of the three colours in a pixel.\<close>

definition colour_offsets :: "framebuffer \<Rightarrow> u8 list" where
  "colour_offsets f = [red_bits_index f div 8, blue_bits_index f div 8, green_bits_index f div 8]"

text \<open>
  A well-formed screen: 3-byte pixels with one byte per colour, a non-empty grid of non-empty cells
  that fits into the pixel rows, and an extent below \<open>2 ^ 31\<close> bytes, so that pointer differences
  are exact.
\<close>

definition screen_ok :: "'a console_scheme \<Rightarrow> bool" where
  "screen_ok s \<longleftrightarrow>
     pixel_size (framebuffer s) = 3 \<and>
     distinct (colour_offsets (framebuffer s)) \<and> (\<forall>i \<in> set (colour_offsets (framebuffer s)). i < 3) \<and>
     0 < cell_width s \<and> 0 < cell_height s \<and> 0 < rows s \<and> 0 < cols s \<and>
     cols s * cell_width s \<le> pixels_per_row s \<and>
     3 * (rows s * (cell_height s * pixels_per_row s)) < 2 ^ 31"

text \<open>Pixel \<open>(x, y)\<close> of cell \<open>(r, c)\<close>, counted from the start of the terminal.\<close>

definition cell_pixel :: "'a console_scheme \<Rightarrow> nat \<Rightarrow> nat \<Rightarrow> nat \<Rightarrow> nat \<Rightarrow> nat" where
  "cell_pixel s r c x y = (r * cell_height s + y) * pixels_per_row s + c * cell_width s + x"

definition cell_byte :: "'a console_scheme \<Rightarrow> nat \<Rightarrow> nat \<Rightarrow> nat \<Rightarrow> nat \<Rightarrow> nat \<Rightarrow> u32" where
  "cell_byte s r c x y k = term_start s + of_nat (3 * cell_pixel s r c x y + k)"

definition cell_addr :: "'a console_scheme \<Rightarrow> nat \<Rightarrow> nat \<Rightarrow> u32" where
  "cell_addr s r c = cell_byte s r c 0 0 0"

text \<open>The update of fields that do not belong to the geometry.\<close>

lemma cell_frames [simp]:
  "cell_byte (s\<lparr>fb := m\<rparr>) = cell_byte s"
  "cell_byte (s\<lparr>text_cursor := p\<rparr>) = cell_byte s"
  "cell_byte (s\<lparr>input_start := p\<rparr>) = cell_byte s"
  "cell_addr (s\<lparr>fb := m\<rparr>) = cell_addr s"
  "cell_addr (s\<lparr>text_cursor := p\<rparr>) = cell_addr s"
  "cell_addr (s\<lparr>input_start := p\<rparr>) = cell_addr s"
  "screen_ok (s\<lparr>fb := m\<rparr>) = screen_ok s"
  "screen_ok (s\<lparr>text_cursor := p\<rparr>) = screen_ok s"
  "screen_ok (s\<lparr>input_start := p\<rparr>) = screen_ok s"
  by (simp_all add: fun_eq_iff cell_byte_def cell_pixel_def cell_addr_def screen_ok_def)

lemma screen_okD:
  assumes "screen_ok s"
  shows "pixel_size (framebuffer s) = 3" and "0 < cell_width s" and "0 < cell_height s"
    and "0 < rows s" and "0 < cols s" and "cols s * cell_width s \<le> pixels_per_row s"
    and "3 * (rows s * (cell_height s * pixels_per_row s)) < 2147483648" and "0 < pixels_per_row s"
proof -
  have "0 < cols s * cell_width s" using assms by (simp add: screen_ok_def)
  also have "\<dots> \<le> pixels_per_row s" using assms by (simp add: screen_ok_def)
  finally show "0 < pixels_per_row s" .
qed (use assms in \<open>simp_all add: screen_ok_def\<close>)

lemma screen_bounds:
  assumes "screen_ok s"
  shows "cell_width s \<le> pixels_per_row s" and "3 * (cell_height s * pixels_per_row s) < 2147483648"
    and "3 * pixels_per_row s \<le> 3 * (cell_height s * pixels_per_row s)"
proof -
  have le: "0 < k \<Longrightarrow> j \<le> k * j" for k j :: nat by (cases k) simp_all
  have "cell_width s \<le> cols s * cell_width s"
    using screen_okD(5) [OF assms] by (rule le)
  also note screen_okD(6) [OF assms]
  finally show "cell_width s \<le> pixels_per_row s" .
  have "cell_height s * pixels_per_row s \<le> rows s * (cell_height s * pixels_per_row s)"
    using screen_okD(4) [OF assms] by (rule le)
  then have "3 * (cell_height s * pixels_per_row s) \<le> 3 * (rows s * (cell_height s * pixels_per_row s))"
    by (rule mult_le_mono2)
  also note screen_okD(7) [OF assms]
  finally show "3 * (cell_height s * pixels_per_row s) < 2147483648" .
  have "pixels_per_row s \<le> cell_height s * pixels_per_row s"
    using screen_okD(3) [OF assms] by (rule le)
  then show "3 * pixels_per_row s \<le> 3 * (cell_height s * pixels_per_row s)" by (rule mult_le_mono2)
qed

lemma line_fits:
  assumes "screen_ok s" and "c < cols s" and "x < cell_width s"
  shows "c * cell_width s + x < pixels_per_row s"
proof -
  have "c * cell_width s + x < Suc c * cell_width s" using assms(3) by simp
  also have "\<dots> \<le> cols s * cell_width s" using assms(2) by (intro mult_le_mono1) simp
  finally show ?thesis using screen_okD(6) [OF assms(1)] by simp
qed

lemma cell_pixel_row_bound:
  assumes "screen_ok s" and "c < cols s" and "x < cell_width s" and "y < cell_height s"
  shows "cell_pixel s r c x y < Suc r * (cell_height s * pixels_per_row s)"
proof -
  have "Suc (r * cell_height s + y) * pixels_per_row s \<le> Suc r * cell_height s * pixels_per_row s"
    using assms(4) by (intro mult_le_mono1) simp
  then show ?thesis
    using line_fits [OF assms(1-3)] by (simp add: cell_pixel_def algebra_simps)
qed

text \<open>Every pixel of the grid lies inside the extent of the screen.\<close>

lemma cell_pixel_bound:
  assumes "screen_ok s" and "r < rows s" and "c < cols s" and "x < cell_width s" and "y < cell_height s"
  shows "cell_pixel s r c x y < rows s * (cell_height s * pixels_per_row s)"
proof -
  let ?H = "cell_height s" and ?W = "pixels_per_row s"
  have "r * ?H + y < Suc r * ?H" using assms(5) by simp
  also have "\<dots> \<le> rows s * ?H" using assms(2) by (intro mult_le_mono1) simp
  finally have "Suc (r * ?H + y) \<le> rows s * ?H" by simp
  then have "Suc (r * ?H + y) * ?W \<le> rows s * ?H * ?W" by (rule mult_le_mono1)
  then show ?thesis
    using line_fits [OF assms(1,3,4)] by (simp add: cell_pixel_def algebra_simps)
qed

text \<open>A pixel of the grid belongs to one cell and has one place in it.\<close>

lemma cell_pixel_inj:
  assumes "screen_ok s" and "c < cols s" and "x < cell_width s" and "y < cell_height s"
    and "c' < cols s" and "x' < cell_width s" and "y' < cell_height s"
    and "cell_pixel s r c x y = cell_pixel s r' c' x' y'"
  shows "r = r' \<and> c = c' \<and> x = x' \<and> y = y'"
proof -
  have l: "c * cell_width s + x < pixels_per_row s" "c' * cell_width s + x' < pixels_per_row s"
    using line_fits [OF assms(1)] assms by auto
  have "cell_pixel s r c x y div pixels_per_row s = r * cell_height s + y"
    "cell_pixel s r' c' x' y' div pixels_per_row s = r' * cell_height s + y'"
    "cell_pixel s r c x y mod pixels_per_row s = c * cell_width s + x"
    "cell_pixel s r' c' x' y' mod pixels_per_row s = c' * cell_width s + x'"
    using l by (simp_all add: cell_pixel_def add.assoc)
  then have e: "r * cell_height s + y = r' * cell_height s + y'"
      "c * cell_width s + x = c' * cell_width s + x'"
    using assms(8) by simp_all
  have "(r * cell_height s + y) div cell_height s = r" "(r' * cell_height s + y') div cell_height s = r'"
    "(c * cell_width s + x) div cell_width s = c" "(c' * cell_width s + x') div cell_width s = c'"
    using assms by simp_all
  then show ?thesis using e by auto
qed

subsection \<open>One pixel\<close>

definition color_byte :: "framebuffer \<Rightarrow> color \<Rightarrow> nat \<Rightarrow> u8" where
  "color_byte f col k =
     (if k = unat (red_bits_index f div 8) then ucast (drop_bit 16 col)
      else if k = unat (blue_bits_index f div 8) then ucast col
      else ucast (drop_bit 8 col))"

text \<open>The byte \<open>k\<close> of a pixel that shows a bit of a glyph over the old byte \<open>b\<close>.\<close>

definition shown_byte :: "framebuffer \<Rightarrow> color \<Rightarrow> color \<Rightarrow> bool \<Rightarrow> nat \<Rightarrow> u8 \<Rightarrow> u8" where
  "shown_byte f char_color background is_char k b =
     (let col = (if is_char then char_color else background)
      in if col = DONT_SET then b else color_byte f col k)"

lemma ucast_low_byte: "(ucast ((w :: u32) AND 0xFF) :: u8) = ucast w"
proof -
  have m: "(0xFF :: u32) = mask 8" by (simp add: mask_eq_exp_minus_1)
  show ?thesis unfolding m by (auto intro!: bit_word_eqI simp: bit_simps)
qed

lemma set_pixel_RGB_eq:
  assumes "distinct (colour_offsets f)" and "\<forall>i \<in> set (colour_offsets f). i < 3"
  shows "set_pixel_RGB f p col m =
    (\<lambda>a. if unat (a - p) < 3 then color_byte f col (unat (a - p)) else m a)"
proof
  fix a
  define r b g where off: "r = red_bits_index f div 8" "b = blue_bits_index f div 8" "g = green_bits_index f div 8"
  have o: "r \<noteq> b" "r \<noteq> g" "b \<noteq> g" "r < 3" "b < 3" "g < 3"
    using assms by (auto simp: colour_offsets_def off)
  then have un: "unat r \<noteq> unat b" "unat r \<noteq> unat g" "unat b \<noteq> unat g" "unat r < 3" "unat b < 3" "unat g < 3"
    by (simp_all add: word_less_nat_alt word_unat_eq_iff)
  have at: "a = p + ucast i \<longleftrightarrow> unat (a - p) = unat i" for i :: u8
  proof -
    have "a = p + ucast i \<longleftrightarrow> a - p = ucast i" by (auto simp: algebra_simps)
    also have "\<dots> \<longleftrightarrow> unat (a - p) = unat i"
      by (simp add: word_unat_eq_iff unat_ucast8)
    finally show ?thesis .
  qed
  have "unat (a - p) < 3 \<longleftrightarrow> unat (a - p) = unat r \<or> unat (a - p) = unat b \<or> unat (a - p) = unat g"
    using un by arith
  then show "set_pixel_RGB f p col m a =
      (if unat (a - p) < 3 then color_byte f col (unat (a - p)) else m a)"
    using un by (auto simp: set_pixel_RGB_def color_byte_def Let_def ucast_low_byte at off [symmetric])
qed

lemma unat_sub_of_nat:
  assumes "k < 4294967296"
  shows "unat ((e :: u32) - of_nat k) = (if k \<le> unat e then unat e - k else 4294967296 + unat e - k)"
proof -
  have "unat (of_nat k :: u32) = k" using assms by (simp add: unat_of_nat_small)
  then have "unat (e - of_nat k) = (if k \<le> unat e then unat e - k else unat e + 4294967296 - k)"
    by (simp add: unat_sub_if_size word_size)
  then show ?thesis by (simp only: add.commute [of "unat e"])
qed

lemma for_loop_const: "for_loop i n (\<lambda>_. f) s = (f ^^ (unat n - unat i)) s"
proof (induction i n "\<lambda>_ :: u32. f" s rule: for_loop.induct)
  case (1 i n s)
  show ?case
  proof (cases "i < n")
    case True
    then have "unat n - unat i = Suc (unat n - unat (i + 1))"
      using unat_inc [OF True] by (simp add: word_less_nat_alt)
    then show ?thesis
      using True 1 by (simp add: for_loop.simps [of i n] funpow_swap1)
  next
    case False
    then show ?thesis by (simp add: word_less_nat_alt)
  qed
qed

subsection \<open>One line of a glyph\<close>

abbreviation offsets_ok :: "'a console_scheme \<Rightarrow> bool" where
  "offsets_ok s \<equiv> distinct (colour_offsets (framebuffer s)) \<and>
     (\<forall>i \<in> set (colour_offsets (framebuffer s)). i < 3)"

lemma print_char_pixel_eq:
  assumes "offsets_ok s"
  shows "print_char_pixel s g col bg (m, b, p) =
    (\<lambda>a. if unat (a - p) < 3
         then shown_byte (framebuffer s) col bg (isCharBit (hmem s) g b (term_font s)) (unat (a - p)) (m a)
         else m a, b + 1, p + 3)"
  using assms by (auto simp: print_char_pixel_def set_pixel_RGB_eq shown_byte_def Let_def fun_eq_iff)

lemma print_char_pixels_eq:
  assumes "offsets_ok s" and "3 * n \<le> 2 ^ 32"
  shows "(print_char_pixel s g col bg ^^ n) (m, b, p) =
    (\<lambda>a. if unat (a - p) < 3 * n
         then shown_byte (framebuffer s) col bg
           (isCharBit (hmem s) g (b + of_nat (unat (a - p) div 3)) (term_font s)) (unat (a - p) mod 3) (m a)
         else m a, b + of_nat n, p + of_nat (3 * n))"
  using assms(2)
proof (induction n)
  case (Suc n)
  have off: "unat (a - (p + of_nat (3 * n))) =
      (if 3 * n \<le> unat (a - p) then unat (a - p) - 3 * n else 4294967296 + unat (a - p) - 3 * n)" for a
    using unat_sub_of_nat [of "3 * n" "a - p"] Suc.prems by (simp add: algebra_simps)
  have step: "(print_char_pixel s g col bg ^^ Suc n) (m, b, p) =
      print_char_pixel s g col bg ((print_char_pixel s g col bg ^^ n) (m, b, p))" by simp
  have "3 * n \<le> 2 ^ 32" using Suc.prems by simp
  note IH = Suc.IH [OF this]
  show ?case
    unfolding step IH print_char_pixel_eq [OF assms(1)]
  proof (simp only: prod.inject, intro conjI ext)
    fix a
    let ?d = "unat (a - p)"
    have new: "?d div 3 = n \<and> ?d mod 3 = ?d - 3 * n" if "3 * n \<le> ?d" "?d < 3 * Suc n"
      using that by presburger
    consider "?d < 3 * n" | "3 * n \<le> ?d" "?d < 3 * Suc n" | "3 * Suc n \<le> ?d" by linarith
    then show "(if unat (a - (p + of_nat (3 * n))) < 3
         then shown_byte (framebuffer s) col bg (isCharBit (hmem s) g (b + of_nat n) (term_font s))
           (unat (a - (p + of_nat (3 * n))))
           (if ?d < 3 * n then shown_byte (framebuffer s) col bg
              (isCharBit (hmem s) g (b + of_nat (?d div 3)) (term_font s)) (?d mod 3) (m a) else m a)
         else if ?d < 3 * n then shown_byte (framebuffer s) col bg
              (isCharBit (hmem s) g (b + of_nat (?d div 3)) (term_font s)) (?d mod 3) (m a) else m a) =
       (if ?d < 3 * Suc n then shown_byte (framebuffer s) col bg
              (isCharBit (hmem s) g (b + of_nat (?d div 3)) (term_font s)) (?d mod 3) (m a) else m a)"
    proof cases
      case 1
      then have "\<not> unat (a - (p + of_nat (3 * n))) < 3"
        using off [of a] Suc.prems by simp
      then show ?thesis using 1 by simp
    next
      case 2
      then have "?d - 3 * n < 3" by simp
      then show ?thesis using 2 off [of a] new [OF 2] by simp
    next
      case 3
      then have "\<not> unat (a - (p + of_nat (3 * n))) < 3"
        using off [of a] by simp
      then show ?thesis using 3 by simp
    qed
  qed (simp_all add: algebra_simps)
qed simp

text \<open>A line of the glyph: \<open>n\<close> pixels, then the pointer moves to the next pixel row.\<close>

lemma print_char_row_eq:
  assumes "screen_ok s"
  shows "print_char_row s g col bg (m, b, p) =
    (\<lambda>a. if unat (a - p) < 3 * cell_width s
         then shown_byte (framebuffer s) col bg
           (isCharBit (hmem s) g (b + of_nat (unat (a - p) div 3)) (term_font s)) (unat (a - p) mod 3) (m a)
         else m a, b + of_nat (cell_width s), p + of_nat (3 * pixels_per_row s))"
proof -
  have "3 * cell_width s \<le> 3 * pixels_per_row s" using screen_bounds(1) [OF assms] by simp
  also note screen_bounds(3) [OF assms]
  also note screen_bounds(2) [OF assms]
  finally have "3 * cell_width s \<le> 2 ^ 32" by simp
  moreover have "offsets_ok s" using assms by (simp add: screen_ok_def)
  moreover have "advance_fb_row s p = p + of_nat (3 * pixels_per_row s)"
    using screen_okD(1) [OF assms] by (simp add: advance_fb_row_def)
  ultimately show ?thesis
    by (simp add: print_char_row_def for_loop_const print_char_pixels_eq)
qed

subsection \<open>A glyph\<close>

text \<open>The first \<open>n\<close> lines of a glyph drawn from \<open>p\<close> on, the first bit being \<open>b\<close>.\<close>

definition glyph_lines ::
    "'a console_scheme \<Rightarrow> u32 \<Rightarrow> color \<Rightarrow> color \<Rightarrow> nat \<Rightarrow> u8 \<Rightarrow> u32 \<Rightarrow> mem \<Rightarrow> mem" where
  "glyph_lines s g col bg n b p m = (\<lambda>a.
     let d = unat (a - p); y = d div (3 * pixels_per_row s); x = d mod (3 * pixels_per_row s)
     in if y < n \<and> x < 3 * cell_width s
        then shown_byte (framebuffer s) col bg
          (isCharBit (hmem s) g (b + of_nat (y * cell_width s + x div 3)) (term_font s)) (x mod 3) (m a)
        else m a)"

lemma print_char_rows_eq:
  assumes "screen_ok s" and "3 * (n * pixels_per_row s) \<le> 2 ^ 32"
  shows "(print_char_row s g col bg ^^ n) (m, b, p) =
    (glyph_lines s g col bg n b p m, b + of_nat (n * cell_width s), p + of_nat (3 * (n * pixels_per_row s)))"
  using assms(2)
proof (induction n)
  case 0
  then show ?case by (simp add: glyph_lines_def)
next
  case (Suc n)
  let ?W = "3 * pixels_per_row s" and ?w = "3 * cell_width s"
  have step: "(print_char_row s g col bg ^^ Suc n) (m, b, p) =
      print_char_row s g col bg ((print_char_row s g col bg ^^ n) (m, b, p))" by simp
  have "3 * (n * pixels_per_row s) \<le> 2 ^ 32" using Suc.prems by simp
  note IH = Suc.IH [OF this]
  have W: "0 < ?W" "?w \<le> ?W" "n * ?W + ?W \<le> 4294967296"
    using screen_okD(8) [OF assms(1)] screen_bounds(1) [OF assms(1)] Suc.prems by (simp_all add: algebra_simps)
  have off: "unat (a - (p + of_nat (3 * (n * pixels_per_row s)))) =
      (if n * ?W \<le> unat (a - p) then unat (a - p) - n * ?W else 4294967296 + unat (a - p) - n * ?W)" for a
    using unat_sub_of_nat [of "n * ?W" "a - p"] W by (simp add: algebra_simps)
  show ?case
    unfolding step IH print_char_row_eq [OF assms(1)]
  proof (simp only: prod.inject, intro conjI ext)
    fix a
    let ?d = "unat (a - p)"
    consider "?d < n * ?W" | "n * ?W \<le> ?d" "?d < n * ?W + ?W" | "n * ?W + ?W \<le> ?d" by linarith
    then show "(if unat (a - (p + of_nat (3 * (n * pixels_per_row s)))) < ?w
         then shown_byte (framebuffer s) col bg
           (isCharBit (hmem s) g (b + of_nat (n * cell_width s) +
             of_nat (unat (a - (p + of_nat (3 * (n * pixels_per_row s)))) div 3)) (term_font s))
           (unat (a - (p + of_nat (3 * (n * pixels_per_row s)))) mod 3)
           (glyph_lines s g col bg n b p m a)
         else glyph_lines s g col bg n b p m a) = glyph_lines s g col bg (Suc n) b p m a"
    proof cases
      case 1
      then have "\<not> unat (a - (p + of_nat (3 * (n * pixels_per_row s)))) < ?w"
        using off [of a] W by simp
      moreover have "?d div ?W < n" using 1 W(1) by (simp add: div_less_iff_less_mult)
      ultimately show ?thesis by (simp add: glyph_lines_def Let_def)
    next
      case 2
      then have "?d = n * ?W + (?d - n * ?W)" "?d - n * ?W < ?W" by simp_all
      then have "?d div ?W = n" "?d mod ?W = ?d - n * ?W"
        by (metis div_mult_self3 div_less add.right_neutral W(1) less_numeral_extra(3), metis mod_mult_self3 mod_less)
      then show ?thesis using 2 off [of a] by (simp add: glyph_lines_def Let_def add.assoc)
    next
      case 3
      then have "\<not> unat (a - (p + of_nat (3 * (n * pixels_per_row s)))) < ?w"
        using off [of a] W by simp
      moreover have "Suc n \<le> ?d div ?W" using 3 W(1) by (simp add: less_eq_div_iff_mult_less_eq)
      ultimately show ?thesis by (simp add: glyph_lines_def Let_def)
    qed
  qed (simp_all add: algebra_simps)
qed

lemma print_char_eq:
  assumes "screen_ok s"
  shows "print_char idx col bg s =
    s\<lparr>fb := glyph_lines s (get_char_font_bitmap_start s idx) col bg (cell_height s) 0 (text_cursor s) (fb s)\<rparr>"
proof -
  have "3 * (cell_height s * pixels_per_row s) \<le> 2 ^ 32"
    using screen_bounds(2) [OF assms] by simp
  then show ?thesis
    using print_char_rows_eq [OF assms, of "cell_height s"]
    by (simp add: print_char_def for_loop_const Let_def)
qed

lemma cell_byte_offset:
  "cell_byte s r c x y k = cell_addr s r c + of_nat (3 * (y * pixels_per_row s + x) + k)"
  by (simp add: cell_byte_def cell_addr_def cell_pixel_def algebra_simps)

lemma glyph_offset:
  assumes "screen_ok s" and "y < cell_height s" and "x < cell_width s" and "k < 3"
  shows "3 * (y * pixels_per_row s + x) + k < 2147483648"
    and "(3 * (y * pixels_per_row s + x) + k) div (3 * pixels_per_row s) = y"
    and "(3 * (y * pixels_per_row s + x) + k) mod (3 * pixels_per_row s) = 3 * x + k"
proof -
  let ?W = "pixels_per_row s"
  have x: "3 * x + k < 3 * ?W" using assms(3,4) screen_bounds(1) [OF assms(1)] by linarith
  have e: "3 * (y * ?W + x) + k = y * (3 * ?W) + (3 * x + k)" by (simp add: algebra_simps)
  show "(3 * (y * ?W + x) + k) div (3 * ?W) = y" unfolding e using x by simp
  show "(3 * (y * ?W + x) + k) mod (3 * ?W) = 3 * x + k" unfolding e using x by simp
  have "Suc y * (3 * ?W) \<le> cell_height s * (3 * ?W)" using assms(2) by (intro mult_le_mono1) simp
  then show "3 * (y * ?W + x) + k < 2147483648"
    unfolding e using x screen_bounds(2) [OF assms(1)] by simp
qed

lemma glyph_lines_inside:
  assumes "screen_ok s" and "y < cell_height s" and "x < cell_width s" and "k < 3"
  shows "glyph_lines s g col bg (cell_height s) b p m (p + of_nat (3 * (y * pixels_per_row s + x) + k)) =
    shown_byte (framebuffer s) col bg (isCharBit (hmem s) g (b + of_nat (y * cell_width s + x)) (term_font s)) k
      (m (p + of_nat (3 * (y * pixels_per_row s + x) + k)))"
proof -
  let ?n = "3 * (y * pixels_per_row s + x) + k"
  have "unat (of_nat ?n :: u32) = ?n"
    using glyph_offset(1) [OF assms] by (intro unat_of_nat_small) simp
  moreover have "3 * x + k < 3 * cell_width s" "(3 * x + k) div 3 = x" "(3 * x + k) mod 3 = k"
    using assms(3,4) by simp_all
  ultimately show ?thesis
    using glyph_offset(2,3) [OF assms] assms(2)
    by (simp add: glyph_lines_def Let_def del: of_nat_add of_nat_mult)
qed

lemma glyph_lines_outside:
  assumes "screen_ok s"
    and "\<And>x y k. y < cell_height s \<Longrightarrow> x < cell_width s \<Longrightarrow> k < 3 \<Longrightarrow>
      a \<noteq> p + of_nat (3 * (y * pixels_per_row s + x) + k)"
  shows "glyph_lines s g col bg (cell_height s) b p m a = m a"
proof -
  let ?W = "3 * pixels_per_row s"
  define d where "d = unat (a - p)"
  have "\<not> (d div ?W < cell_height s \<and> d mod ?W < 3 * cell_width s)"
  proof
    assume h: "d div ?W < cell_height s \<and> d mod ?W < 3 * cell_width s"
    define y x k where "y = d div ?W" and "x = d mod ?W div 3" and "k = d mod ?W mod 3"
    have "d mod ?W = 3 * x + k" by (simp add: x_def k_def)
    moreover have "d = y * ?W + d mod ?W" by (simp only: y_def div_mult_mod_eq)
    ultimately have "d = 3 * (y * pixels_per_row s + x) + k" by (simp add: algebra_simps)
    moreover have "a = p + of_nat d" by (simp add: d_def)
    ultimately have "a = p + of_nat (3 * (y * pixels_per_row s + x) + k)" by simp
    moreover have "y < cell_height s" "x < cell_width s" "k < 3"
      using h by (simp_all add: y_def x_def k_def div_less_iff_less_mult mult.commute)
    ultimately show False using assms(2) by blast
  qed
  then show ?thesis by (auto simp: glyph_lines_def Let_def d_def)
qed

subsection \<open>Cells\<close>

definition in_grid :: "'a console_scheme \<Rightarrow> nat \<Rightarrow> nat \<Rightarrow> bool" where
  "in_grid s r c \<longleftrightarrow> r < rows s \<and> c < cols s"

definition in_cell :: "'a console_scheme \<Rightarrow> nat \<Rightarrow> nat \<Rightarrow> nat \<Rightarrow> bool" where
  "in_cell s x y k \<longleftrightarrow> x < cell_width s \<and> y < cell_height s \<and> k < 3"

text \<open>The cell \<open>(r, c)\<close> shows character \<open>idx\<close> of the font in colour \<open>col\<close> on \<open>bg\<close>.\<close>

definition cell_shows :: "'a console_scheme \<Rightarrow> nat \<Rightarrow> nat \<Rightarrow> u32 \<Rightarrow> color \<Rightarrow> color \<Rightarrow> bool" where
  "cell_shows s r c idx col bg \<longleftrightarrow> (\<forall>x y k. in_cell s x y k \<longrightarrow>
     fb s (cell_byte s r c x y k) = color_byte (framebuffer s)
       (if isCharBit (hmem s) (get_char_font_bitmap_start s idx) (of_nat (y * cell_width s + x)) (term_font s)
        then col else bg) k)"

lemma cell_byte_inj:
  assumes "screen_ok s" and "in_grid s r c" and "in_cell s x y k"
    and "in_grid s r' c'" and "in_cell s x' y' k'"
    and "cell_byte s r c x y k = cell_byte s r' c' x' y' k'"
  shows "r = r' \<and> c = c' \<and> x = x' \<and> y = y' \<and> k = k'"
proof -
  have b: "3 * cell_pixel s r c x y + k < 2147483648"
    if "in_grid s r c" "in_cell s x y k" for r c x y k
  proof -
    have "cell_pixel s r c x y < rows s * (cell_height s * pixels_per_row s)"
      using that by (intro cell_pixel_bound [OF assms(1)]) (simp_all add: in_grid_def in_cell_def)
    then show ?thesis using screen_okD(7) [OF assms(1)] that(2) by (simp add: in_cell_def)
  qed
  have "(of_nat (3 * cell_pixel s r c x y + k) :: u32) = of_nat (3 * cell_pixel s r' c' x' y' + k')"
    using assms(6) unfolding cell_byte_def by (rule add_left_imp_eq)
  then have "unat (of_nat (3 * cell_pixel s r c x y + k) :: u32) =
      unat (of_nat (3 * cell_pixel s r' c' x' y' + k') :: u32)" by (rule arg_cong)
  moreover have "unat (of_nat (3 * cell_pixel s r c x y + k) :: u32) = 3 * cell_pixel s r c x y + k"
    using b [OF assms(2,3)] by (intro unat_of_nat_small) simp
  moreover have "unat (of_nat (3 * cell_pixel s r' c' x' y' + k') :: u32) = 3 * cell_pixel s r' c' x' y' + k'"
    using b [OF assms(4,5)] by (intro unat_of_nat_small) simp
  ultimately have eq: "3 * cell_pixel s r c x y + k = 3 * cell_pixel s r' c' x' y' + k'" by simp
  have aux: "3 * i + k = 3 * j + k' \<Longrightarrow> k < 3 \<Longrightarrow> k' < 3 \<Longrightarrow> i = j \<and> k = k'" for i j
    by presburger
  have "cell_pixel s r c x y = cell_pixel s r' c' x' y' \<and> k = k'"
    by (rule aux [OF eq]) (use assms(3,5) in \<open>simp_all add: in_cell_def\<close>)
  then show ?thesis
    using cell_pixel_inj [OF assms(1), of c x y c' x' y' r r'] assms(2-5)
    unfolding in_grid_def in_cell_def by blast
qed

lemma print_char_byte:
  assumes "screen_ok s" and "text_cursor s = cell_addr s r c" and "in_cell s x y k"
  shows "fb (print_char idx col bg s) (cell_byte s r c x y k) =
    shown_byte (framebuffer s) col bg
      (isCharBit (hmem s) (get_char_font_bitmap_start s idx) (of_nat (y * cell_width s + x)) (term_font s)) k
      (fb s (cell_byte s r c x y k))"
  using assms(3) glyph_lines_inside [OF assms(1), where b = 0 and x = x and y = y and k = k]
  by (simp add: in_cell_def print_char_eq [OF assms(1)] assms(2) cell_byte_offset del: of_nat_add of_nat_mult)

lemma print_char_cell:
  assumes "screen_ok s" and "text_cursor s = cell_addr s r c"
    and "col \<noteq> DONT_SET" and "bg \<noteq> DONT_SET"
  shows "cell_shows (print_char idx col bg s) r c idx col bg"
proof -
  obtain m where m: "print_char idx col bg s = s\<lparr>fb := m\<rparr>"
    using print_char_eq [OF assms(1)] by blast
  have "m (cell_byte s r c x y k) = color_byte (framebuffer s)
      (if isCharBit (hmem s) (get_char_font_bitmap_start s idx) (of_nat (y * cell_width s + x)) (term_font s)
       then col else bg) k" if "in_cell s x y k" for x y k
    using print_char_byte [OF assms(1,2) that, of idx col bg] assms(3,4) m
    by (simp add: shown_byte_def Let_def)
  then show ?thesis
    unfolding m cell_shows_def in_cell_def by (simp add: get_char_font_bitmap_start_def)
qed

lemma print_char_outside:
  assumes "screen_ok s" and "text_cursor s = cell_addr s r c"
    and "\<And>x y k. in_cell s x y k \<Longrightarrow> a \<noteq> cell_byte s r c x y k"
  shows "fb (print_char idx col bg s) a = fb s a"
  using assms(2,3)
  by (simp add: print_char_eq [OF assms(1)] glyph_lines_outside [OF assms(1)] in_cell_def cell_byte_offset)

lemma print_char_other_cell:
  assumes "screen_ok s" and "text_cursor s = cell_addr s r c" and "in_grid s r c"
    and "in_grid s r' c'" and "(r', c') \<noteq> (r, c)" and "in_cell s x y k"
  shows "fb (print_char idx col bg s) (cell_byte s r' c' x y k) = fb s (cell_byte s r' c' x y k)"
  using assms cell_byte_inj [OF assms(1,4,6,3)] by (intro print_char_outside) auto

subsection \<open>The cursor\<close>

text \<open>The cursor stands at cell \<open>(r, c)\<close>.\<close>

definition cursor_at :: "'a console_scheme \<Rightarrow> nat \<Rightarrow> nat \<Rightarrow> bool" where
  "cursor_at s r c \<longleftrightarrow> in_grid s r c \<and> text_cursor s = cell_addr s r c"

lemma text_row_bytes_eq:
  "screen_ok s \<Longrightarrow> text_row_bytes s = of_nat (3 * (cell_height s * pixels_per_row s))"
  using screen_okD(1) [of s] by (simp add: text_row_bytes_def Let_def)

lemma row_start_eq:
  "screen_ok s \<Longrightarrow> advance_x_text_rows s (term_start s) (of_nat r) = cell_addr s r 0"
  by (simp add: advance_x_text_rows_def text_row_bytes_eq cell_addr_def cell_byte_def cell_pixel_def algebra_simps)

lemma pix_diff_eq:
  assumes "3 * n < 2147483648"
  shows "pix_diff (p + of_nat (3 * n)) p = of_nat n"
proof -
  have "uint (of_nat (3 * n) :: u32) = int (3 * n)"
    using assms by (simp add: unsigned_of_nat take_bit_nat_eq_self del: of_nat_mult)
  then have "sint (of_nat (3 * n) :: u32) = int (3 * n)"
    using assms by (simp add: sint_uint signed_take_bit_int_eq_self del: of_nat_mult)
  moreover have "int (3 * n) sdiv 3 = int n" by (cases n) (simp_all add: signed_divide_int_def)
  ultimately show ?thesis by (simp add: pix_diff_def del: of_nat_mult)
qed

lemma word_div_nat: "(a :: u32) div b = of_nat (unat a div unat b)"
  by (simp flip: unat_div_distrib)

lemma div_row: "x < d \<Longrightarrow> (r * d + x) div d = (r :: nat)"
  by (cases "d = 0") simp_all

lemma cell_offset_row:
  "cell_pixel s r c 0 0 = r * (cell_height s * pixels_per_row s) + c * cell_width s"
  by (simp add: cell_pixel_def)

lemma cursor_row_col:
  assumes "screen_ok s" and "cursor_at s r c"
  shows "get_pixel_term_text_row s (text_cursor s) = of_nat r"
    and "get_pixel_term_text_col s (cell_addr s r 0) (text_cursor s) = of_nat c"
proof -
  let ?H = "cell_height s" and ?W = "pixels_per_row s" and ?w = "cell_width s"
  have in_g: "r < rows s" "c < cols s" and cur: "text_cursor s = cell_addr s r c"
    using assms(2) by (auto simp: cursor_at_def in_grid_def)
  have bound: "cell_pixel s r c 0 0 < rows s * (?H * ?W)"
    using cell_pixel_bound [OF assms(1) in_g] screen_okD [OF assms(1)] by blast
  then have n: "3 * cell_pixel s r c 0 0 < 2147483648"
    using screen_okD(7) [OF assms(1)] by simp
  have x: "c * ?w < ?W" using line_fits [OF assms(1) in_g(2), of 0] screen_okD(2) [OF assms(1)] by simp
  have "?W \<le> ?H * ?W" using screen_bounds(3) [OF assms(1)] by (simp only: mult_le_cancel1)
  with x have x': "c * ?w < ?H * ?W" by (rule less_le_trans)
  have a: "text_cursor s = term_start s + of_nat (3 * cell_pixel s r c 0 0)"
    by (simp only: cur cell_addr_def cell_byte_def add_0_right)
  have "pix_diff (text_cursor s) (term_start s) = of_nat (cell_pixel s r c 0 0)"
    unfolding a by (rule pix_diff_eq [OF n])
  moreover have "unat (of_nat (cell_pixel s r c 0 0) :: u32) = cell_pixel s r c 0 0"
    using n by (intro unat_of_nat_small) simp
  moreover have "unat (fb_width (framebuffer s) * font_height (term_font s)) = ?W * ?H"
    using screen_bounds(2) [OF assms(1)] by (intro unat_mult_small) (simp add: mult.commute)
  moreover have "cell_pixel s r c 0 0 div (?W * ?H) = r"
    unfolding cell_offset_row mult.commute [of ?W] using x' by (rule div_row)
  ultimately show "get_pixel_term_text_row s (text_cursor s) = of_nat r"
    by (simp only: get_pixel_term_text_row_def Let_def word_div_nat)
  have "text_cursor s = cell_addr s r 0 + of_nat (3 * (c * ?w))"
    unfolding a cell_addr_def cell_byte_def cell_offset_row by (simp add: algebra_simps)
  then have "pix_diff (text_cursor s) (cell_addr s r 0) = of_nat (c * ?w)"
    using pix_diff_eq [of "c * ?w"] n unfolding cell_offset_row by simp
  moreover have "unat (of_nat (c * ?w) :: u32) = c * ?w"
    using n unfolding cell_offset_row by (intro unat_of_nat_small) simp
  moreover have "c * ?w div ?w = c" using screen_okD(2) [OF assms(1)] by simp
  ultimately show "get_pixel_term_text_col s (cell_addr s r 0) (text_cursor s) = of_nat c"
    by (simp only: get_pixel_term_text_col_def word_div_nat)
qed

lemma cell_addr_inj:
  "screen_ok s \<Longrightarrow> in_grid s r c \<Longrightarrow> in_grid s r' c' \<Longrightarrow> cell_addr s r c = cell_addr s r' c' \<Longrightarrow> r = r' \<and> c = c'"
  using cell_byte_inj [of s r c 0 0 0 r' c' 0 0 0] screen_okD(2,3) [of s]
  by (simp add: cell_addr_def in_cell_def)

lemma word_minus_one_nat: "0 < unat (n :: u32) \<Longrightarrow> n - 1 = of_nat (unat n - 1)"
  by (simp add: of_nat_diff Suc_leI)

lemma shift_fb:
  obtains m where "shift_text_screen_up_one_row s = s\<lparr>fb := m\<rparr>"
  by (simp add: shift_text_screen_up_one_row_def case_prod_beta)

lemma inc_textCursor_cases:
  assumes "screen_ok s" and "cursor_at s r c"
  shows "Suc c < cols s \<Longrightarrow> inc_textCursor s = Some (s\<lparr>text_cursor := cell_addr s r (Suc c)\<rparr>)"
    and "Suc c = cols s \<Longrightarrow> Suc r < rows s \<Longrightarrow>
      inc_textCursor s = Some (s\<lparr>text_cursor := cell_addr s (Suc r) 0\<rparr>)"
    and "Suc c = cols s \<Longrightarrow> Suc r = rows s \<Longrightarrow>
      inc_textCursor s = clear_x_cells (num_cols s)
        ((shift_text_screen_up_one_row s)\<lparr>text_cursor := cell_addr s r 0,
           input_start := input_start s - text_row_bytes s\<rparr>)"
proof -
  have g: "in_grid s r c" using assms(2) by (simp add: cursor_at_def)
  have row: "advance_x_text_rows s (term_start s) (get_pixel_term_text_row s (text_cursor s)) = cell_addr s r 0"
    using cursor_row_col(1) [OF assms] row_start_eq [OF assms(1)] by simp
  have col: "get_pixel_term_text_col s (cell_addr s r 0) (text_cursor s) = of_nat c"
    by (rule cursor_row_col(2) [OF assms])
  have "of_nat c = num_cols s - 1 \<longleftrightarrow> Suc c = cols s"
  proof -
    have "unat (of_nat c :: u32) = c"
      using g unat_lt_2p32 [of "num_cols s"] by (intro unat_of_nat_small) (simp add: in_grid_def)
    moreover have "unat (num_cols s - 1) = cols s - 1"
      using screen_okD(5) [OF assms(1)] by unat_arith
    ultimately show ?thesis
      using screen_okD(5) [OF assms(1)] by (simp add: word_unat_eq_iff) linarith
  qed
  note col = col this
  have "advance_x_text_rows s (term_start s) (num_rows s - 1) = cell_addr s (rows s - 1) 0"
    by (simp only: word_minus_one_nat [OF screen_okD(4) [OF assms(1)]] row_start_eq [OF assms(1)])
  moreover have "cell_addr s r 0 = cell_addr s (rows s - 1) 0 \<longleftrightarrow> Suc r = rows s"
  proof -
    have "cell_addr s r 0 = cell_addr s (rows s - 1) 0 \<longleftrightarrow> r = rows s - 1"
      using cell_addr_inj [OF assms(1), of r 0 "rows s - 1" 0] g screen_okD(4,5) [OF assms(1)]
      by (auto simp: in_grid_def)
    then show ?thesis using screen_okD(4) [OF assms(1)] by linarith
  qed
  ultimately have last: "advance_x_text_rows s (term_start s) (num_rows s - 1) = cell_addr s (rows s - 1) 0"
    "cell_addr s r 0 = cell_addr s (rows s - 1) 0 \<longleftrightarrow> Suc r = rows s" by simp_all
  have cur: "text_cursor s = cell_addr s r c" using assms(2) by (simp add: cursor_at_def)
  show "Suc c < cols s \<Longrightarrow> inc_textCursor s = Some (s\<lparr>text_cursor := cell_addr s r (Suc c)\<rparr>)"
    by (subst inc_textCursor.simps)
      (simp add: row col Let_def, simp add: cur cell_addr_def cell_byte_def cell_pixel_def algebra_simps)
  show "inc_textCursor s = Some (s\<lparr>text_cursor := cell_addr s (Suc r) 0\<rparr>)"
    if "Suc c = cols s" "Suc r < rows s"
  proof -
    have "cell_addr s r 0 \<noteq> cell_addr s (rows s - 1) 0" using last(2) that(2) by simp
    moreover have "advance_text_row s (cell_addr s r 0) = cell_addr s (Suc r) 0"
      by (simp add: advance_text_row_def text_row_bytes_eq [OF assms(1)]
          cell_addr_def cell_byte_def cell_pixel_def algebra_simps)
    ultimately show ?thesis
      using that(1) col(2)
      by (subst inc_textCursor.simps) (simp only: row col(1) last(1) Let_def if_True if_False simp_thms)
  qed
  show "inc_textCursor s = clear_x_cells (num_cols s)
        ((shift_text_screen_up_one_row s)\<lparr>text_cursor := cell_addr s r 0,
           input_start := input_start s - text_row_bytes s\<rparr>)"
    if "Suc c = cols s" "Suc r = rows s"
  proof -
    obtain m where m: "shift_text_screen_up_one_row s = s\<lparr>fb := m\<rparr>" by (rule shift_fb)
    have "decrement_text_row (s\<lparr>fb := m, text_cursor := p\<rparr>) q = q - text_row_bytes s" for p q
      by (simp add: decrement_text_row_def text_row_bytes_def)
    moreover have "advance_x_text_rows s (term_start s) (num_rows s - 1) = cell_addr s r 0"
      using last that(2) by simp
    ultimately show ?thesis
      using that
      by (subst inc_textCursor.simps) (simp add: row col Let_def clear_x_cells_def m)
  qed
qed

subsection \<open>Positions in reading order\<close>

definition pos_byte :: "'a console_scheme \<Rightarrow> nat \<Rightarrow> nat \<Rightarrow> nat \<Rightarrow> nat \<Rightarrow> u32" where
  "pos_byte s q = cell_byte s (q div cols s) (q mod cols s)"

definition pos_addr :: "'a console_scheme \<Rightarrow> nat \<Rightarrow> u32" where
  "pos_addr s q = cell_addr s (q div cols s) (q mod cols s)"

lemma pos_frames [simp]:
  "pos_byte (s\<lparr>fb := m\<rparr>) = pos_byte s" "pos_byte (s\<lparr>text_cursor := p\<rparr>) = pos_byte s"
  "pos_byte (s\<lparr>input_start := p\<rparr>) = pos_byte s"
  "pos_addr (s\<lparr>fb := m\<rparr>) = pos_addr s" "pos_addr (s\<lparr>text_cursor := p\<rparr>) = pos_addr s"
  "pos_addr (s\<lparr>input_start := p\<rparr>) = pos_addr s"
  by (simp_all add: fun_eq_iff pos_byte_def pos_addr_def)

lemma pos_in_grid:
  "screen_ok s \<Longrightarrow> q < rows s * cols s \<Longrightarrow> in_grid s (q div cols s) (q mod cols s)"
  using screen_okD(5) [of s] by (simp add: in_grid_def div_less_iff_less_mult)

lemma pos_byte_inj:
  assumes "screen_ok s" and "q < rows s * cols s" and "q' < rows s * cols s"
    and "in_cell s x y k" and "in_cell s x' y' k'" and "pos_byte s q x y k = pos_byte s q' x' y' k'"
  shows "q = q'"
proof -
  have "q div cols s = q' div cols s \<and> q mod cols s = q' mod cols s"
    using cell_byte_inj [OF assms(1) pos_in_grid [OF assms(1,2)] assms(4) pos_in_grid [OF assms(1,3)] assms(5)]
      assms(6) by (simp add: pos_byte_def)
  then show ?thesis by (metis div_mult_mod_eq)
qed

text \<open>A cursor inside the grid moves to the next position, unless it is at the last one.\<close>

lemma inc_textCursor_pos:
  assumes "screen_ok s" and "text_cursor s = pos_addr s q" and "Suc q < rows s * cols s"
  shows "inc_textCursor s = Some (s\<lparr>text_cursor := pos_addr s (Suc q)\<rparr>)"
proof -
  have c: "cursor_at s (q div cols s) (q mod cols s)"
    using assms pos_in_grid [OF assms(1), of q] by (simp add: cursor_at_def pos_addr_def)
  show ?thesis
  proof (cases "Suc (q mod cols s) = cols s")
    case False
    then have "Suc (q mod cols s) < cols s" using c by (simp add: cursor_at_def in_grid_def)
    moreover have "Suc q div cols s = q div cols s" "Suc q mod cols s = Suc (q mod cols s)"
      using False by (simp_all add: div_Suc mod_Suc)
    ultimately show ?thesis
      using inc_textCursor_cases(1) [OF assms(1) c] by (simp add: pos_addr_def)
  next
    case True
    then have s: "Suc q div cols s = Suc (q div cols s)" "Suc q mod cols s = 0"
      by (simp_all add: div_Suc mod_Suc)
    have "Suc q div cols s < rows s"
      using assms(3) screen_okD(5) [OF assms(1)] by (simp add: div_less_iff_less_mult)
    then show ?thesis
      using inc_textCursor_cases(2) [OF assms(1) c True] s by (simp add: pos_addr_def)
  qed
qed

subsection \<open>Drawing a run of cells\<close>

text \<open>
  In the framebuffer memory \<open>m\<close> the \<open>n\<close> cells from position \<open>q\<close> on show the characters
  \<open>idx 0, idx 1, \<dots>\<close>; every other byte is as in \<open>s\<close>.
\<close>

definition cells_drawn ::
    "'a console_scheme \<Rightarrow> nat \<Rightarrow> nat \<Rightarrow> (nat \<Rightarrow> u32) \<Rightarrow> color \<Rightarrow> color \<Rightarrow> mem \<Rightarrow> bool" where
  "cells_drawn s q n idx col bg m \<longleftrightarrow>
     (\<forall>j x y k. j < n \<longrightarrow> in_cell s x y k \<longrightarrow>
        m (pos_byte s (q + j) x y k) = color_byte (framebuffer s)
          (if isCharBit (hmem s) (get_char_font_bitmap_start s (idx j)) (of_nat (y * cell_width s + x)) (term_font s)
           then col else bg) k) \<and>
     (\<forall>a. (\<forall>j x y k. j < n \<longrightarrow> in_cell s x y k \<longrightarrow> a \<noteq> pos_byte s (q + j) x y k) \<longrightarrow> m a = fb s a)"

lemma cells_drawn_0: "cells_drawn s q 0 idx col bg (fb s)"
  by (simp add: cells_drawn_def)

lemma cells_drawn_step:
  assumes "screen_ok s" and "cells_drawn s q i idx col bg m" and "q + i < rows s * cols s"
    and "col \<noteq> DONT_SET" and "bg \<noteq> DONT_SET"
  shows "\<exists>m'. print_char (idx i) col bg (s\<lparr>fb := m, text_cursor := pos_addr s (q + i)\<rparr>) =
      s\<lparr>fb := m', text_cursor := pos_addr s (q + i)\<rparr> \<and> cells_drawn s q (Suc i) idx col bg m'"
proof -
  let ?t = "s\<lparr>fb := m, text_cursor := pos_addr s (q + i)\<rparr>"
  define m' where "m' = fb (print_char (idx i) col bg ?t)"
  have ok: "screen_ok ?t" using assms(1) by simp
  have cur: "text_cursor ?t = cell_addr ?t ((q + i) div cols s) ((q + i) mod cols s)"
    by (simp add: pos_addr_def)
  have grid: "\<And>x y k. in_cell ?t x y k = in_cell s x y k"
    by (simp add: in_cell_def)
  have eq: "print_char (idx i) col bg ?t = s\<lparr>fb := m', text_cursor := pos_addr s (q + i)\<rparr>"
    unfolding m'_def by (subst (2) print_char_eq [OF ok], subst print_char_eq [OF ok]) simp
  have new: "m' (pos_byte s (q + i) x y k) = color_byte (framebuffer s)
      (if isCharBit (hmem s) (get_char_font_bitmap_start s (idx i)) (of_nat (y * cell_width s + x)) (term_font s)
       then col else bg) k" if "in_cell s x y k" for x y k
    using print_char_byte [OF ok cur, of x y k "idx i" col bg] that assms(4,5) grid
    by (simp add: m'_def pos_byte_def shown_byte_def Let_def get_char_font_bitmap_start_def)
  have old: "m' a = m a" if "\<And>x y k. in_cell s x y k \<Longrightarrow> a \<noteq> pos_byte s (q + i) x y k" for a
    using print_char_outside [OF ok cur, of a "idx i" col bg] that grid
    by (simp add: m'_def pos_byte_def)
  have "cells_drawn s q (Suc i) idx col bg m'"
    unfolding cells_drawn_def
  proof (intro conjI allI impI)
    fix j x y k
    assume j: "j < Suc i" and c: "in_cell s x y k"
    show "m' (pos_byte s (q + j) x y k) = color_byte (framebuffer s)
        (if isCharBit (hmem s) (get_char_font_bitmap_start s (idx j)) (of_nat (y * cell_width s + x)) (term_font s)
         then col else bg) k"
    proof (cases "j = i")
      case True
      then show ?thesis using new [OF c] by simp
    next
      case False
      then have "pos_byte s (q + j) x y k \<noteq> pos_byte s (q + i) x' y' k'" if "in_cell s x' y' k'" for x' y' k'
        using pos_byte_inj [OF assms(1) _ assms(3) c that, of "q + j"] j assms(3) by auto
      then have "m' (pos_byte s (q + j) x y k) = m (pos_byte s (q + j) x y k)" by (rule old)
      then show ?thesis using assms(2) j c False by (simp add: cells_drawn_def)
    qed
  next
    fix a
    assume a: "\<forall>j x y k. j < Suc i \<longrightarrow> in_cell s x y k \<longrightarrow> a \<noteq> pos_byte s (q + j) x y k"
    then have "m' a = m a" using old [of a] by blast
    also have "\<dots> = fb s a" using assms(2) a unfolding cells_drawn_def by (metis less_SucI)
    finally show "m' a = fb s a" .
  qed
  then show ?thesis using eq by blast
qed

lemma console_self [simp]: "s\<lparr>fb := fb s\<rparr> = s" "s\<lparr>text_cursor := text_cursor s\<rparr> = s"
  by (cases s; simp)+

lemma print_str_drawn:
  assumes "screen_ok s" and "text_cursor s = pos_addr s q" and "q + unat n < rows s * cols s"
    and "font_color s \<noteq> DONT_SET" and "background_color s \<noteq> DONT_SET"
  shows "\<exists>m. print_str p n s = Some (s\<lparr>fb := m, text_cursor := pos_addr s (q + unat n)\<rparr>) \<and>
    cells_drawn s q (unat n) (\<lambda>j. scast (hmem s (p + of_nat j))) (font_color s) (background_color s) m"
proof -
  let ?idx = "\<lambda>j. scast (hmem s (p + of_nat j))"
  let ?P = "\<lambda>i t. \<exists>m. t = s\<lparr>fb := m, text_cursor := pos_addr s (q + unat i)\<rparr> \<and>
    cells_drawn s q (unat i) ?idx (font_color s) (background_color s) m"
  have "\<exists>t. for_loop_opt 0 n (\<lambda>idx s. inc_textCursor (print_char (scast (hmem s (p + idx)))
      (font_color s) (background_color s) s)) s = Some t \<and> ?P n t"
  proof (rule for_loop_opt_invariant [where P = ?P])
    have "s = s\<lparr>fb := fb s, text_cursor := pos_addr s (q + unat (0::u32))\<rparr>"
      using assms(2) by (simp flip: assms(2))
    then show "?P 0 s" using cells_drawn_0 [of s q] by (metis unsigned_0)
  next
    fix j t
    assume j: "j < n" and "?P j t"
    then obtain m where t: "t = s\<lparr>fb := m, text_cursor := pos_addr s (q + unat j)\<rparr>"
      and m: "cells_drawn s q (unat j) ?idx (font_color s) (background_color s) m" by blast
    have sj: "unat (j + 1) = Suc (unat j)" using j by (rule unat_inc)
    have q: "q + unat j < rows s * cols s" "Suc (q + unat j) < rows s * cols s"
      using assms(3) j by (simp_all add: word_less_nat_alt)
    obtain m' where pr: "print_char (?idx (unat j)) (font_color s) (background_color s) t =
        s\<lparr>fb := m', text_cursor := pos_addr s (q + unat j)\<rparr>"
      and m': "cells_drawn s q (Suc (unat j)) ?idx (font_color s) (background_color s) m'"
      using cells_drawn_step [OF assms(1) m q(1) assms(4,5)] unfolding t by blast
    have "inc_textCursor (s\<lparr>fb := m', text_cursor := pos_addr s (q + unat j)\<rparr>) =
        Some (s\<lparr>fb := m', text_cursor := pos_addr s (Suc (q + unat j))\<rparr>)"
      using inc_textCursor_pos [of "s\<lparr>fb := m', text_cursor := pos_addr s (q + unat j)\<rparr>" "q + unat j"]
        assms(1) q(2) by simp
    then show "\<exists>t'. inc_textCursor (print_char (scast (hmem t (p + j))) (font_color t) (background_color t) t) =
        Some t' \<and> ?P (j + 1) t'"
      using pr m' sj t by auto
  qed simp
  then show ?thesis unfolding print_str_def by blast
qed

lemma clear_cells_drawn:
  assumes "screen_ok s" and "text_cursor s = pos_addr s q" and "q + unat n \<le> rows s * cols s"
    and "background_color s \<noteq> DONT_SET"
  shows "\<exists>m p. clear_cells inc_textCursor n s = Some (s\<lparr>fb := m, text_cursor := p\<rparr>) \<and>
    cells_drawn s q (unat n) (\<lambda>_. 0) (background_color s) (background_color s) m"
proof -
  let ?at = "\<lambda>i. pos_addr s (q + min (unat i) (unat n - 1))"
  let ?P = "\<lambda>i t. \<exists>m. t = s\<lparr>fb := m, text_cursor := ?at i\<rparr> \<and>
    cells_drawn s q (unat i) (\<lambda>_. 0) (background_color s) (background_color s) m"
  have "\<exists>t. clear_cells inc_textCursor n s = Some t \<and> ?P n t"
    unfolding clear_cells_def
  proof (rule for_loop_opt_invariant [where P = ?P])
    have "s = s\<lparr>fb := fb s, text_cursor := ?at 0\<rparr>"
      using assms(2) by (simp flip: assms(2))
    then show "?P 0 s" using cells_drawn_0 [of s q] by (metis unsigned_0)
  next
    fix j t
    assume j: "j < n" and "?P j t"
    then have mj: "min (unat j) (unat n - 1) = unat j" by (simp add: word_less_nat_alt)
    obtain m where t: "t = s\<lparr>fb := m, text_cursor := pos_addr s (q + unat j)\<rparr>"
      and m: "cells_drawn s q (unat j) (\<lambda>_. 0) (background_color s) (background_color s) m"
      using \<open>?P j t\<close> unfolding mj by blast
    have sj: "unat (j + 1) = Suc (unat j)" using j by (rule unat_inc)
    have q: "q + unat j < rows s * cols s" using assms(3) j by (simp add: word_less_nat_alt)
    obtain m' where pr: "print_char 0 (background_color s) (background_color s) t =
        s\<lparr>fb := m', text_cursor := pos_addr s (q + unat j)\<rparr>"
      and m': "cells_drawn s q (Suc (unat j)) (\<lambda>_. 0) (background_color s) (background_color s) m'"
      using cells_drawn_step [OF assms(1) m q assms(4,4)] unfolding t by blast
    have last: "j \<noteq> n - 1 \<longleftrightarrow> Suc (unat j) < unat n"
      using j by unat_arith
    have "(if j \<noteq> n - 1 then inc_textCursor (s\<lparr>fb := m', text_cursor := pos_addr s (q + unat j)\<rparr>)
        else Some (s\<lparr>fb := m', text_cursor := pos_addr s (q + unat j)\<rparr>)) =
        Some (s\<lparr>fb := m', text_cursor := ?at (j + 1)\<rparr>)"
    proof (cases "Suc (unat j) < unat n")
      case True
      then show ?thesis
        using inc_textCursor_pos [of "s\<lparr>fb := m', text_cursor := pos_addr s (q + unat j)\<rparr>" "q + unat j"]
          assms(1,3) last sj by (simp add: min_def)
    next
      case False
      then have "unat n - 1 = unat j" using j by (simp add: word_less_nat_alt)
      then show ?thesis using False last sj by simp
    qed
    then show "\<exists>t'. (let s = print_char 0 (background_color t) (background_color t) t
         in if j \<noteq> n - 1 then inc_textCursor s else Some s) = Some t' \<and> ?P (j + 1) t'"
      using pr m' sj t by (auto simp: Let_def)
  qed simp
  then show ?thesis by blast
qed

lemma clear_x_cells_drawn:
  assumes "screen_ok s" and "text_cursor s = pos_addr s q" and "q + unat n \<le> rows s * cols s"
    and "background_color s \<noteq> DONT_SET"
  shows "\<exists>m. clear_x_cells n s = Some (s\<lparr>fb := m\<rparr>) \<and>
    cells_drawn s q (unat n) (\<lambda>_. 0) (background_color s) (background_color s) m"
  using clear_cells_drawn [OF assms] by (auto simp: clear_x_cells_def clear_x_cells_with_def)

subsection \<open>Scrolling\<close>

text \<open>Rows \<open>0\<close> to \<open>n - 1\<close> hold what the rows below them held; copying one more row adds row \<open>n\<close>.\<close>

definition rows_up :: "nat \<Rightarrow> nat \<Rightarrow> u32 \<Rightarrow> mem \<Rightarrow> mem" where
  "rows_up B n p m = (\<lambda>a. if unat (a - p) < n * B then m (a + of_nat B) else m a)"

lemma rows_up_step:
  assumes "n * B + B < 2147483648"
  shows "copied (rows_up B n p m) (p + of_nat (n * B)) (p + of_nat (n * B) + of_nat B) (of_nat B) = rows_up B (Suc n) p m"
proof (rule ext)
  fix a
  let ?p = "p + of_nat (n * B)"
  have B: "unat (of_nat B :: u32) = B" using assms by (intro unat_of_nat_small) simp
  have off: "unat (a - ?p) = (if n * B \<le> unat (a - p) then unat (a - p) - n * B
      else 4294967296 + unat (a - p) - n * B)"
    using unat_sub_of_nat [of "n * B" "a - p"] assms by (simp add: algebra_simps)
  have inside: "a - ?p < of_nat B \<longleftrightarrow> unat (a - ?p) < B" using B by (simp add: word_less_nat_alt)
  consider "unat (a - p) < n * B" | "n * B \<le> unat (a - p)" "unat (a - p) < n * B + B"
    | "n * B + B \<le> unat (a - p)" by linarith
  then show "copied (rows_up B n p m) ?p (?p + of_nat B) (of_nat B) a = rows_up B (Suc n) p m a"
  proof cases
    case 1
    then have "\<not> unat (a - ?p) < B" using off assms by simp
    then show ?thesis using 1 inside by (simp add: copied_def rows_up_def)
  next
    case 2
    then have i: "a - ?p < of_nat B" using off inside by simp
    have e: "a + of_nat B - p = (a - p) + of_nat B" by simp
    have "unat (a + of_nat B - p) = unat (a - p) + B"
      unfolding e using unat_add_small [of "a - p" "of_nat B"] B 2 assms by simp
    then have "\<not> unat (a + of_nat B - p) < n * B" using 2 by simp
    moreover have "?p + of_nat B + (a - ?p) = a + of_nat B" by simp
    ultimately have "copied (rows_up B n p m) ?p (?p + of_nat B) (of_nat B) a = m (a + of_nat B)"
      using i by (simp only: copied_def rows_up_def if_True if_False)
    then show ?thesis using 2 by (simp add: rows_up_def)
  next
    case 3
    then have "\<not> unat (a - ?p) < B" using off by simp
    then show ?thesis using 3 inside by (simp add: copied_def rows_up_def)
  qed
qed

lemma shift_loop_eq:
  assumes "screen_ok s" and "n < rows s"
  defines "B \<equiv> 3 * (cell_height s * pixels_per_row s)"
  shows "((\<lambda>(m, curr_text_row). let next_text_row = advance_text_row s curr_text_row
            in (memcpy m curr_text_row next_text_row (text_row_bytes s), next_text_row)) ^^ n) (m, p) =
    (rows_up B n p m, p + of_nat (n * B))"
  using assms(2)
proof (induction n)
  case (Suc n)
  have "Suc n * B \<le> rows s * B" using Suc.prems by (intro mult_le_mono1) simp
  then have sz: "n * B + B < 2147483648" "B < 2147483648"
    using screen_okD(7) [OF assms(1)] screen_bounds(2) [OF assms(1)] by (simp_all add: B_def algebra_simps)
  let ?p = "p + of_nat (n * B)"
  have adv: "advance_text_row s ?p = ?p + of_nat B" "text_row_bytes s = of_nat B"
    by (simp_all add: advance_text_row_def text_row_bytes_eq [OF assms(1)] B_def)
  have "(of_nat B :: u32) \<le> - of_nat B"
  proof (cases "B = 0")
    case False
    then have "unat (- of_nat B :: u32) = 4294967296 - B"
      using unat_sub_of_nat [of B 0] sz by simp
    then show ?thesis using sz by (simp add: word_le_nat_alt unat_of_nat_small)
  qed simp
  then have "memcpy (rows_up B n p m) ?p (?p + of_nat B) (of_nat B) =
      copied (rows_up B n p m) ?p (?p + of_nat B) (of_nat B)"
    by (intro memcpy_copied) simp
  then have cp: "memcpy (rows_up B n p m) ?p (?p + of_nat B) (of_nat B) = rows_up B (Suc n) p m"
    by (simp only: rows_up_step [OF sz(1)])
  have "n < rows s" using Suc.prems by simp
  then have IH: "((\<lambda>(m, curr_text_row). let next_text_row = advance_text_row s curr_text_row
            in (memcpy m curr_text_row next_text_row (text_row_bytes s), next_text_row)) ^^ n) (m, p) =
      (rows_up B n p m, ?p)"
    by (rule Suc.IH)
  have p: "?p + of_nat B = p + of_nat (Suc n * B)" by simp
  show ?case
    unfolding funpow.simps o_apply IH
    by (simp only: prod.case Let_def adv cp) (simp only: p)
qed (simp add: rows_up_def)

lemma shift_text_screen_up_one_row_eq:
  assumes "screen_ok s"
  defines "B \<equiv> 3 * (cell_height s * pixels_per_row s)"
  shows "shift_text_screen_up_one_row s = s\<lparr>fb :=
    (\<lambda>a. if unat (a - term_start s) < (rows s - 1) * B then fb s (a + of_nat B) else fb s a)\<rparr>"
proof -
  have "unat (num_rows s - 1) = rows s - 1"
    using screen_okD(4) [OF assms(1)] by unat_arith
  then show ?thesis
    unfolding B_def using shift_loop_eq [OF assms(1), of "rows s - 1" "fb s" "term_start s"] screen_okD(4) [OF assms(1)]
    by (simp add: shift_text_screen_up_one_row_def for_loop_const rows_up_def)
qed

text \<open>
  Moving the cursor on from the last cell: every row moves up by one, the last row is cleared, the
  cursor stands at its start and the start of the input moves with its text.
\<close>

lemma inc_textCursor_last:
  assumes "screen_ok s" and "cursor_at s r c" and "Suc r = rows s" and "Suc c = cols s"
    and "background_color s \<noteq> DONT_SET"
  shows "\<exists>m. inc_textCursor s = Some (s\<lparr>fb := m, text_cursor := cell_addr s r 0,
      input_start := input_start s - text_row_bytes s\<rparr>) \<and>
    cells_drawn (shift_text_screen_up_one_row s) (r * cols s) (cols s) (\<lambda>_. 0)
      (background_color s) (background_color s) m"
proof -
  obtain m0 where m0: "shift_text_screen_up_one_row s = s\<lparr>fb := m0\<rparr>" by (rule shift_fb)
  let ?t = "s\<lparr>fb := m0, text_cursor := cell_addr s r 0, input_start := input_start s - text_row_bytes s\<rparr>"
  have "pos_addr ?t (r * cols s) = cell_addr s r 0"
    using screen_okD(5) [OF assms(1)] by (simp add: pos_addr_def)
  moreover have "r * cols s + unat (num_cols s) \<le> rows s * cols s"
    using assms(3) by (metis add.commute le_refl mult_Suc)
  ultimately obtain m where m: "clear_x_cells (num_cols s) ?t = Some (?t\<lparr>fb := m\<rparr>)"
      "cells_drawn ?t (r * cols s) (cols s) (\<lambda>_. 0) (background_color s) (background_color s) m"
    using clear_x_cells_drawn [of ?t "r * cols s" "num_cols s"] assms(1,5) by auto
  have "cells_drawn (s\<lparr>fb := m0\<rparr>) (r * cols s) (cols s) (\<lambda>_. 0) (background_color s) (background_color s) m"
    using m(2) by (simp add: cells_drawn_def in_cell_def get_char_font_bitmap_start_def)
  moreover have "inc_textCursor s = Some (s\<lparr>fb := m, text_cursor := cell_addr s r 0,
      input_start := input_start s - text_row_bytes s\<rparr>)"
    using inc_textCursor_cases(3) [OF assms(1,2,4,3)] m(1) by (simp add: m0)
  ultimately show ?thesis unfolding m0 by blast
qed

subsection \<open>Moving back\<close>

lemma dec_textCursor_pos:
  assumes "screen_ok s" and "text_cursor s = pos_addr s (Suc q)" and "Suc q < rows s * cols s"
  shows "dec_textCursor s = (True, s\<lparr>text_cursor := pos_addr s q\<rparr>)"
proof -
  let ?r = "Suc q div cols s" and ?c = "Suc q mod cols s"
  have g: "in_grid s ?r ?c" by (rule pos_in_grid [OF assms(1,3)])
  have cur: "text_cursor s = cell_addr s ?r ?c" using assms(2) by (simp add: pos_addr_def)
  have at: "cursor_at s ?r ?c" using g cur by (simp add: cursor_at_def)
  have g0: "in_grid s 0 0" "in_grid s ?r 0"
    using screen_okD(4,5) [OF assms(1)] g by (auto simp: in_grid_def)
  have "text_cursor s \<noteq> cell_addr s 0 0"
  proof
    assume "text_cursor s = cell_addr s 0 0"
    then have "?r = 0 \<and> ?c = 0" using cell_addr_inj [OF assms(1) g g0(1)] cur by simp
    then show False by (metis div_mult_mod_eq mult_zero_left nat.distinct(1) add_0)
  qed
  moreover have "cell_addr s 0 0 = term_start s"
    by (simp add: cell_addr_def cell_byte_def cell_pixel_def)
  ultimately have start: "text_cursor s \<noteq> term_start s" by simp
  have row: "get_pix_row_start s (text_cursor s) = cell_addr s ?r 0"
    using cursor_row_col(1) [OF assms(1) at] row_start_eq [OF assms(1)] by (simp add: get_pix_row_start_def)
  have col0: "text_cursor s = cell_addr s ?r 0 \<longleftrightarrow> ?c = 0"
    using cell_addr_inj [OF assms(1) g g0(2)] cur by auto
  show ?thesis
  proof (cases "?c = 0")
    case False
    then have p: "q div cols s = ?r" "q mod cols s = ?c - 1" "Suc (?c - 1) = ?c"
      by (simp_all add: div_Suc mod_Suc split: if_splits)
    have nxt: "cell_addr s r (Suc c) = cell_addr s r c + 3 * font_width (term_font s)" for r c
      by (simp add: cell_addr_def cell_byte_def cell_pixel_def algebra_simps)
    have "text_cursor s = cell_addr s ?r (?c - 1) + 3 * font_width (term_font s)"
      using nxt [of ?r "?c - 1"] unfolding cur p(3) .
    then have "text_cursor s - 3 * font_width (term_font s) = cell_addr s ?r (?c - 1)" by simp
    then show ?thesis using start row col0 False p by (simp add: dec_textCursor_def pos_addr_def)
  next
    case True
    then have p: "Suc (q div cols s) = ?r" "q mod cols s = cols s - 1"
      using screen_okD(5) [OF assms(1)] by (auto simp: div_Suc mod_Suc split: if_splits)
    have up: "decrement_text_row s (cell_addr s (Suc r) 0) + 3 * (font_width (term_font s) * of_nat k) =
        cell_addr s r k" for r k
      by (simp add: decrement_text_row_def text_row_bytes_eq [OF assms(1)] cell_addr_def cell_byte_def
          cell_pixel_def algebra_simps)
    have "decrement_text_row s (cell_addr s ?r 0) + 3 * (font_width (term_font s) * (num_cols s - 1)) =
        cell_addr s (q div cols s) (cols s - 1)"
      unfolding word_minus_one_nat [OF screen_okD(5) [OF assms(1)]] p(1) [symmetric] by (rule up)
    then show ?thesis
      using start row col0 True p(2) by (simp add: dec_textCursor_def pos_addr_def Let_def)
  qed
qed

subsection \<open>Properties\<close>

text \<open>
  C24. Printing a string on a screen where it fits before the last cell returns; the cursor has moved
  by its length in reading order, every cell on the way shows the glyph of its character in the font
  colour on the background colour, and no byte outside these cells has changed.
\<close>

theorem print_str_shows:
  assumes "screen_ok s" and "text_cursor s = pos_addr s q" and "q + unat n < rows s * cols s"
    and "font_color s \<noteq> DONT_SET" and "background_color s \<noteq> DONT_SET"
  shows "\<exists>m. print_str p n s = Some (s\<lparr>fb := m, text_cursor := pos_addr s (q + unat n)\<rparr>) \<and>
    cells_drawn s q (unat n) (\<lambda>j. scast (hmem s (p + of_nat j))) (font_color s) (background_color s) m"
  by (rule print_str_drawn [OF assms])

text \<open>A screen of 2 rows of 3 cells on a display of 30 x 40 pixels.\<close>

definition ex_console :: console where
  "ex_console =
     \<lparr>hmem = (\<lambda>_. 0x41), heap_ranges = 0, paging = ex_paging, dynamic_alloc_area_bottom = 0,
      dynamic_alloc_area_top = 0, allocated_areas_list = 0, fb = (\<lambda>_. 0),
      framebuffer = \<lparr>starting_address = 0xFD000000, fb_width = 30, fb_height = 40, pitch = 90,
        total_bits = 24, num_red_bits = 8, red_bits_index = 16, num_green_bits = 8, green_bits_index = 8,
        num_blue_bits = 8, blue_bits_index = 0, pixel_size = 3\<rparr>,
      fb_pixel_map = 0xFD000000, left_boundary_x = 2, right_boundary_x = 28, top_boundary_y = 2,
      bottom_boundary_y = 38, num_rows = 2, num_cols = 3,
      term_font = \<lparr>numglyph = 256, bytesperglyph = 16, font_height = 16, font_width = 8,
        glyph = 0x1000, hasUnicodeTable = False\<rparr>,
      background_color = GRAY, cursor_color = SILVER, font_color = BLACK,
      term_start = 0xFD0000BA, text_cursor = 0xFD0000BA, input_start = 0xFD0000BA,
      command_buff = 0x2000, end_idx = 0, cursor_pos_idx = 0, curr_command_idx = 0\<rparr>"

lemma ex_console_facts:
  "screen_ok ex_console" "text_cursor ex_console = pos_addr ex_console 0"
  "rows ex_console = 2" "cols ex_console = 3"
  "font_color ex_console \<noteq> DONT_SET" "background_color ex_console \<noteq> DONT_SET"
  by (simp_all add: ex_console_def screen_ok_def colour_offsets_def pos_addr_def cell_addr_def cell_byte_def
      cell_pixel_def BLACK_def GRAY_def DONT_SET_def)

theorem print_str_shows_witness:
  "\<exists>m. print_str 0x5000 3 ex_console =
      Some (ex_console\<lparr>fb := m, text_cursor := pos_addr ex_console 3\<rparr>) \<and>
    cells_drawn ex_console 0 3 (\<lambda>j. scast (hmem ex_console (0x5000 + of_nat j))) BLACK GRAY m"
  using print_str_shows [OF ex_console_facts(1,2) _ ex_console_facts(5,6), of 3 "0x5000"]
  by (simp add: ex_console_facts) (simp add: ex_console_def)

text \<open>Scrolling moves each row but the first to the row above it.\<close>

lemma shifted_cell:
  assumes "screen_ok s" and "Suc r < rows s" and "c < cols s" and "in_cell s x y k"
  shows "fb (shift_text_screen_up_one_row s) (cell_byte s r c x y k) = fb s (cell_byte s (Suc r) c x y k)"
proof -
  let ?B = "3 * (cell_height s * pixels_per_row s)" and ?a = "cell_byte s r c x y k"
    and ?n = "3 * cell_pixel s r c x y + k"
  have "cell_pixel s r c x y < Suc r * (cell_height s * pixels_per_row s)"
    using assms(3,4) by (intro cell_pixel_row_bound [OF assms(1)]) (simp_all add: in_cell_def)
  also have "\<dots> \<le> (rows s - 1) * (cell_height s * pixels_per_row s)"
    using assms(2) by (intro mult_le_mono1) simp
  finally have lt: "?n < (rows s - 1) * ?B" using assms(4) by (simp add: in_cell_def)
  have "(rows s - 1) * ?B \<le> rows s * ?B" by (intro mult_le_mono1) simp
  also have "\<dots> < 2147483648" using screen_okD(7) [OF assms(1)] by (simp add: ac_simps)
  finally have "unat (of_nat ?n :: u32) = ?n" using lt by (intro unat_of_nat_small) simp
  then have "unat (?a - term_start s) < (rows s - 1) * ?B"
    using lt by (simp add: cell_byte_def del: of_nat_add of_nat_mult)
  then have "fb (shift_text_screen_up_one_row s) ?a = fb s (?a + of_nat ?B)"
    by (simp add: shift_text_screen_up_one_row_eq [OF assms(1)])
  also have "?a + of_nat ?B = cell_byte s (Suc r) c x y k"
    by (simp add: cell_byte_def cell_pixel_def algebra_simps)
  finally show ?thesis .
qed

text \<open>Filling the cells of one row shows the fill there and nothing new in another row.\<close>

lemma row_drawn:
  assumes "screen_ok s" and "cells_drawn s (r * cols s) (cols s) (\<lambda>_. 0) b b m" and "r < rows s"
    and "in_cell s x y k" and "c < cols s"
  shows "m (cell_byte s r c x y k) = color_byte (framebuffer s) b k"
    and "r' < rows s \<Longrightarrow> r' \<noteq> r \<Longrightarrow> m (cell_byte s r' c x y k) = fb s (cell_byte s r' c x y k)"
proof -
  have pos: "pos_byte s (r * cols s + j) = cell_byte s r j" if "j < cols s" for j
    using that by (simp add: pos_byte_def)
  show "m (cell_byte s r c x y k) = color_byte (framebuffer s) b k"
    using assms(2,4,5) pos [OF assms(5)] unfolding cells_drawn_def by auto
  assume r': "r' < rows s" "r' \<noteq> r"
  have "cell_byte s r' c x y k \<noteq> cell_byte s r j x' y' k'" if "j < cols s" "in_cell s x' y' k'" for j x' y' k'
    using cell_byte_inj [OF assms(1) _ assms(4) _ that(2), of r' c r j] assms(3,5) r' that(1)
    by (auto simp: in_grid_def)
  then show "m (cell_byte s r' c x y k) = fb s (cell_byte s r' c x y k)"
    using assms(2) pos unfolding cells_drawn_def by simp
qed

text \<open>
  C25. At the last cell of the screen moving the cursor on scrolls: the call returns, each row shows
  what the row below it showed, the last row is blank, the cursor stands at its first cell, and the
  start of the input line has moved up with its text.
\<close>

theorem inc_textCursor_scrolls:
  assumes "screen_ok s" and "cursor_at s r c" and "Suc r = rows s" and "Suc c = cols s"
    and "background_color s \<noteq> DONT_SET"
  shows "\<exists>m. inc_textCursor s = Some (s\<lparr>fb := m, text_cursor := cell_addr s r 0,
      input_start := input_start s - text_row_bytes s\<rparr>) \<and>
    (\<forall>r' c' x y k. r' < r \<longrightarrow> c' < cols s \<longrightarrow> in_cell s x y k \<longrightarrow>
      m (cell_byte s r' c' x y k) = fb s (cell_byte s (Suc r') c' x y k)) \<and>
    (\<forall>c' x y k. c' < cols s \<longrightarrow> in_cell s x y k \<longrightarrow>
      m (cell_byte s r c' x y k) = color_byte (framebuffer s) (background_color s) k)"
proof -
  let ?s = "shift_text_screen_up_one_row s"
  obtain m where inc: "inc_textCursor s = Some (s\<lparr>fb := m, text_cursor := cell_addr s r 0,
      input_start := input_start s - text_row_bytes s\<rparr>)"
    and m: "cells_drawn ?s (r * cols s) (cols s) (\<lambda>_. 0) (background_color s) (background_color s) m"
    using inc_textCursor_last [OF assms] by blast
  obtain m0 where m0: "?s = s\<lparr>fb := m0\<rparr>" by (rule shift_fb)
  have s: "screen_ok ?s" "cells_drawn ?s (r * cols ?s) (cols ?s) (\<lambda>_. 0) (background_color s) (background_color s) m"
    "r < rows ?s" "in_cell ?s = in_cell s" "cols ?s = cols s" "rows ?s = rows s" "cell_byte ?s = cell_byte s"
    "framebuffer ?s = framebuffer s"
    using m m0 assms(1,3) by (simp_all add: in_cell_def fun_eq_iff)
  note drawn = row_drawn [OF s(1-3), unfolded s(4-8)]
  have "m (cell_byte s r' c' x y k) = fb s (cell_byte s (Suc r') c' x y k)"
    if "r' < r" "c' < cols s" "in_cell s x y k" for r' c' x y k
    using drawn(2) [OF that(3,2), of r'] shifted_cell [OF assms(1) _ that(2,3)] that(1) assms(3) by simp
  then show ?thesis using inc drawn(1) by blast
qed

text \<open>Printing the cursor on from the last cell of the example screen.\<close>

theorem inc_textCursor_scrolls_witness:
  "\<exists>m. inc_textCursor (ex_console\<lparr>text_cursor := cell_addr ex_console 1 2\<rparr>) =
      Some (ex_console\<lparr>fb := m, text_cursor := cell_addr ex_console 1 0,
        input_start := 0xFD0000BA - 1440\<rparr>) \<and>
    m (cell_byte ex_console 1 2 7 15 2) = 0x80"
proof -
  let ?s = "ex_console\<lparr>text_cursor := cell_addr ex_console 1 2\<rparr>"
  have "cursor_at ?s 1 2" by (simp add: cursor_at_def in_grid_def ex_console_facts)
  then obtain m where m: "inc_textCursor ?s = Some (?s\<lparr>fb := m, text_cursor := cell_addr ?s 1 0,
      input_start := input_start ?s - text_row_bytes ?s\<rparr>)"
      "\<forall>c' x y k. c' < cols ?s \<longrightarrow> in_cell ?s x y k \<longrightarrow>
        m (cell_byte ?s 1 c' x y k) = color_byte (framebuffer ?s) (background_color ?s) k"
    using inc_textCursor_scrolls [of ?s 1 2] ex_console_facts by auto
  have "in_cell ?s 7 15 2" by (simp add: in_cell_def ex_console_def)
  then have "m (cell_byte ex_console 1 2 7 15 2) = color_byte (framebuffer ex_console) GRAY 2"
    using m(2) [rule_format, of 2 7 15 2] by (simp add: ex_console_facts) (simp add: ex_console_def)
  then have "m (cell_byte ex_console 1 2 7 15 2) = 0x80"
    by (simp add: ex_console_def color_byte_def GRAY_def)
  moreover have "input_start ?s - text_row_bytes ?s = 0xFD0000BA - 1440"
    by (simp add: ex_console_def text_row_bytes_def)
  ultimately show ?thesis using m(1) by auto
qed

text \<open>
  C26. Moving the cursor forward and then back leaves the console as it was, at every cell but the
  last one.
\<close>

theorem inc_dec_textCursor:
  assumes "screen_ok s" and "text_cursor s = pos_addr s q" and "Suc q < rows s * cols s"
  shows "Option.bind (inc_textCursor s) (\<lambda>s'. Some (dec_textCursor s')) = Some (True, s)"
  using inc_textCursor_pos [OF assms] dec_textCursor_pos [of "s\<lparr>text_cursor := pos_addr s (Suc q)\<rparr>" q] assms
  by simp

theorem inc_dec_textCursor_witness:
  "Option.bind (inc_textCursor ex_console) (\<lambda>s'. Some (dec_textCursor s')) = Some (True, ex_console)"
  by (rule inc_dec_textCursor [OF ex_console_facts(1,2)]) (simp add: ex_console_facts)

end
