(* ===== verification/Display.thy ===== *)
theory Display
  imports Screen
begin

text \<open>
  The contract between the screen and its clients: an operation of the screen always returns, and it
  changes nothing but the framebuffer, the text cursor and the start of the input on the screen. The
  line editor and the shell rely on nothing else.
\<close>

definition same_text :: "'a console_scheme \<Rightarrow> 'a console_scheme \<Rightarrow> bool" where
  "same_text s t \<longleftrightarrow> (\<exists>m c i. t = s\<lparr>fb := m, text_cursor := c, input_start := i\<rparr>)"

definition display_ok :: "'a console_scheme \<Rightarrow> bool" where
  "display_ok s \<longleftrightarrow> screen_ok s \<and> background_color s \<noteq> DONT_SET"

lemma same_textI [intro]: "same_text s (s\<lparr>fb := m, text_cursor := c, input_start := i\<rparr>)"
  by (auto simp: same_text_def)

lemma same_text_refl [simp]: "same_text s s"
  unfolding same_text_def by (rule exI [of _ "fb s"], rule exI [of _ "text_cursor s"], rule exI [of _ "input_start s"]) simp

lemma same_text_trans:
  assumes "same_text s t" and "same_text t u"
  shows "same_text s u"
proof -
  obtain m c i m' c' i' where "t = s\<lparr>fb := m, text_cursor := c, input_start := i\<rparr>"
      "u = t\<lparr>fb := m', text_cursor := c', input_start := i'\<rparr>"
    using assms unfolding same_text_def by blast
  then have "u = s\<lparr>fb := m', text_cursor := c', input_start := i'\<rparr>" by simp
  then show ?thesis unfolding same_text_def by blast
qed

lemma same_text_fb [simp]: "same_text s (s\<lparr>fb := m\<rparr>)"
  unfolding same_text_def
  by (rule exI [of _ m], rule exI [of _ "text_cursor s"], rule exI [of _ "input_start s"]) simp

lemma same_text_cursor [simp]: "same_text s (s\<lparr>text_cursor := c\<rparr>)"
  unfolding same_text_def
  by (rule exI [of _ "fb s"], rule exI [of _ c], rule exI [of _ "input_start s"]) simp

lemma same_text_input [simp]: "same_text s (s\<lparr>input_start := i\<rparr>)"
  unfolding same_text_def
  by (rule exI [of _ "fb s"], rule exI [of _ "text_cursor s"], rule exI [of _ i]) simp

lemma same_text_display: "same_text s t \<Longrightarrow> display_ok t = display_ok s"
  by (auto simp: same_text_def display_ok_def)

text \<open>What clients see of a state.\<close>

lemma same_text_fields:
  assumes "same_text s t"
  shows "hmem t = hmem s" "command_buff t = command_buff s" "end_idx t = end_idx s"
    "cursor_pos_idx t = cursor_pos_idx s" "curr_command_idx t = curr_command_idx s"
    "console.more t = console.more s" "font_color t = font_color s" "background_color t = background_color s"
  using assms by (auto simp: same_text_def)

lemma print_char_same [simp]: "same_text s (print_char idx col bg s)"
  by (simp add: print_char_def split: prod.split)

lemma plot_same [simp]: "same_text s (plot_text_cursor c s)" "same_text s (unplot_text_cursor c s)"
  by (simp_all add: plot_text_cursor_def unplot_text_cursor_def)

lemma dec_same [simp]: "same_text s (snd (dec_textCursor s))"
  by (simp add: dec_textCursor_def Let_def)

lemma shift_same [simp]: "same_text s (shift_text_screen_up_one_row s)"
  by (simp add: shift_text_screen_up_one_row_def split: prod.split)

subsection \<open>Operations that keep the contract\<close>

locale display_op =
  fixes op :: "'a console_scheme \<Rightarrow> 'a console_scheme option"
  assumes op_returns: "display_ok s \<Longrightarrow> \<exists>t. op s = Some t \<and> same_text s t"
begin

text \<open>Drawing before the operation, any number of times in a row.\<close>

lemma after:
  assumes "display_ok s" and "same_text s t"
  shows "\<exists>u. op t = Some u \<and> same_text s u"
  using op_returns [of t] assms same_text_display [OF assms(2)] same_text_trans by blast

lemma loop:
  assumes "display_ok s" and "\<And>j t. same_text t (f j t)"
  shows "\<exists>t. for_loop_opt 0 n (\<lambda>j t. if g j then op (f j t) else Some (f j t)) s = Some t \<and> same_text s t"
proof (rule for_loop_opt_invariant [where P = "\<lambda>_ t. same_text s t"])
  fix j t assume "same_text s t"
  then have "same_text s (f j t)" using assms(2) same_text_trans by blast
  then show "\<exists>t'. (if g j then op (f j t) else Some (f j t)) = Some t' \<and> same_text s t'"
    using after [OF assms(1)] by auto
qed simp_all

end

text \<open>Two operations in sequence.\<close>

locale display_pair = first: display_op op1 + second: display_op op2
  for op1 op2 :: "'a console_scheme \<Rightarrow> 'a console_scheme option"
begin

lemma sequence: "display_ok s \<Longrightarrow> \<exists>t. Option.bind (op1 s) op2 = Some t \<and> same_text s t"
  using first.op_returns [of s] second.after [of s] by auto

end

sublocale display_pair \<subseteq> both: display_op "\<lambda>s. Option.bind (op1 s) op2"
  by unfold_locales (rule sequence)

subsection \<open>The operations of the driver\<close>

lemma inc_textCursor_returns:
  assumes "display_ok s"
  shows "\<exists>t. inc_textCursor s = Some t \<and> same_text s t"
proof -
  have ok: "screen_ok s" and bg: "background_color s \<noteq> DONT_SET"
    using assms by (auto simp: display_ok_def)
  let ?last = "advance_x_text_rows s (term_start s) (num_rows s - 1)"
  obtain m0 where m0: "shift_text_screen_up_one_row s = s\<lparr>fb := m0\<rparr>" by (rule shift_fb)
  have "\<exists>t. clear_x_cells (num_cols s) (s\<lparr>fb := m0, text_cursor := ?last, input_start := i\<rparr>) = Some t \<and>
      same_text s t" for i
  proof -
    let ?t = "s\<lparr>fb := m0, text_cursor := ?last, input_start := i\<rparr>"
    have "?last = cell_addr s (rows s - 1) 0"
      by (simp only: word_minus_one_nat [OF screen_okD(4) [OF ok]] row_start_eq [OF ok])
    then have "text_cursor ?t = pos_addr ?t ((rows s - 1) * cols s)"
      using screen_okD(5) [OF ok] by (simp add: pos_addr_def)
    moreover have "(rows s - 1) * cols s + cols s \<le> rows s * cols s"
      using screen_okD(4) [OF ok] by (cases "rows s") simp_all
    ultimately obtain m where "clear_x_cells (num_cols s) ?t = Some (?t\<lparr>fb := m\<rparr>)"
      using clear_x_cells_drawn [of ?t "(rows s - 1) * cols s" "num_cols s"] ok bg by auto
    moreover have "same_text s (?t\<lparr>fb := m\<rparr>)"
      by (rule same_text_trans [OF same_textI same_text_fb])
    ultimately show ?thesis by blast
  qed
  then show ?thesis
    by (subst inc_textCursor.simps) (simp add: Let_def m0 clear_x_cells_def)
qed

interpretation inc: display_op inc_textCursor
  by unfold_locales (rule inc_textCursor_returns)

lemma clear_cells_returns:
  "display_ok s \<Longrightarrow> \<exists>t. clear_cells inc_textCursor x s = Some t \<and> same_text s t"
  unfolding clear_cells_def Let_def by (rule inc.loop) simp_all

lemma clear_x_cells_returns:
  "display_ok s \<Longrightarrow> \<exists>t. clear_x_cells x s = Some t \<and> same_text s t"
  using clear_cells_returns [of s x] same_text_trans [OF _ same_text_cursor]
  by (auto simp: clear_x_cells_def clear_x_cells_with_def)

lemma clear_x_cells_at_returns:
  assumes "display_ok s"
  shows "\<exists>t. clear_x_cells_at l x s = Some t \<and> same_text s t"
proof -
  let ?s = "s\<lparr>text_cursor := l\<rparr>"
  have s: "same_text s ?s" by simp
  then have "display_ok ?s" using assms same_text_display by blast
  then obtain t where t: "clear_cells inc_textCursor x ?s = Some t" "same_text ?s t"
    using clear_cells_returns by blast
  have "same_text s (t\<lparr>text_cursor := text_cursor s\<rparr>)"
    by (rule same_text_trans [OF same_text_trans [OF s t(2)] same_text_cursor])
  then show ?thesis using t(1) by (simp add: clear_x_cells_at_def)
qed

lemma print_str_returns:
  "display_ok s \<Longrightarrow> \<exists>t. print_str p n s = Some t \<and> same_text s t"
  unfolding print_str_def
  using inc.loop [of s "\<lambda>j s. print_char (scast (hmem s (p + j))) (font_color s) (background_color s) s" n "\<lambda>_. True"]
  by simp

lemma go_to_text_row_returns:
  assumes "display_ok s"
  shows "\<exists>t. go_to_text_row r s = Some t \<and> same_text s t"
proof -
  have s1: "same_text s ((shift_text_screen_up_one_row s)\<lparr>text_cursor := p\<rparr>)" for p
    using shift_same same_text_cursor same_text_trans by blast
  then have "\<exists>t. clear_x_cells x ((shift_text_screen_up_one_row s)\<lparr>text_cursor := p\<rparr>) = Some t \<and> same_text s t" for p x
    using clear_x_cells_returns same_text_display assms same_text_trans by metis
  then show ?thesis by (simp add: go_to_text_row_def Let_def)
qed

interpretation clear: display_op "clear_x_cells x" for x
  by unfold_locales (rule clear_x_cells_returns)

interpretation clear_at: display_op "clear_x_cells_at l x" for l x
  by unfold_locales (rule clear_x_cells_at_returns)

interpretation print: display_op "print_str p n" for p n
  by unfold_locales (rule print_str_returns)

interpretation newline: display_op move_textCursor_to_new_line_start_from_textCursor
  by unfold_locales
    (simp add: move_textCursor_to_new_line_start_from_textCursor_def Let_def go_to_text_row_returns)

interpretation out: display_pair "print_str p n" move_textCursor_to_new_line_start_from_textCursor for p n
  by unfold_locales

end
