(* ===== verification/Shell.thy ===== *)
theory Shell
  imports Screen
begin

text \<open>
  \<^verbatim>\<open>src/kernel/terminal/terminal.c\<close> and \<^verbatim>\<open>src/shell.c\<close>: the terminal, its prompt, and the
  built-in commands. The string constants of the image, the value \<open>strchr\<close> gives where it has no
  return statement and the value of the uninitialised \<open>out\<close> are parameters, collected in the
  record \<open>image\<close>.
\<close>

subsection \<open>State\<close>

text \<open>\<open>saved_position\<close> is the static variable of \<open>strtok\<close>.\<close>

record shell = console +
  saved_position :: u32

record 's image =
  terminal_prompt_msg :: u32
  delims :: u32
  maybeOS_cmd :: u32
  echo_cmd :: u32
  maybeOS_logo :: u32
  unrecognized_msg :: u32
  strchr_noret :: "mem \<Rightarrow> u32 \<Rightarrow> u8 \<Rightarrow> u32"
  uninit_out :: u32
  font_file :: u32
  alloc_fuel :: nat
  alloc_noflags :: "'s \<Rightarrow> u32"

definition SHELL_INPUT_BUFF_SIZE :: u32 where "SHELL_INPUT_BUFF_SIZE = 256"
definition MAX_NUM_COMMANDS_STORED :: u32 where "MAX_NUM_COMMANDS_STORED = 25"

subsection \<open>The terminal\<close>

text \<open>\<open>terminal_t\<close> has 6480 bytes; the command buffer is at offset 72.\<close>

definition sizeof_terminal :: u32 where "sizeof_terminal = 6480"
definition command_buff_offset :: u32 where "command_buff_offset = 72"

definition print_prompt :: "('s, 'b) image_scheme \<Rightarrow> 'a console_scheme \<Rightarrow> 'a console_scheme option" where
  "print_prompt im s =
     Option.bind (strlen (hmem s) (terminal_prompt_msg im)) (\<lambda>n. print_str (terminal_prompt_msg im) n s)"

definition print_shell_output :: "u32 \<Rightarrow> 'a console_scheme \<Rightarrow> 'a console_scheme option" where
  "print_shell_output output s =
     Option.bind (strlen (hmem s) output) (\<lambda>n.
       Option.bind (print_str output n s) move_textCursor_to_new_line_start_from_textCursor)"

text \<open>
  The fields that \<open>init_terminal\<close> does not assign keep what the allocated memory held; here that is
  what the state held.
\<close>

definition init_terminal ::
    "('a console_scheme, 'b) image_scheme \<Rightarrow> 'a console_scheme \<Rightarrow> (u32 \<times> 'a console_scheme) option" where
  "init_terminal im s =
     map_option (\<lambda>(new_terminal, s).
       let f = set_font (hmem s) (font_file im) gr928b_8x16 (term_font s);
           bottom = fb_height (framebuffer s) - 20;
           right = fb_width (framebuffer s) - 20;
           start = calc_fb_addy_from_pix_vals s 20 20
       in (new_terminal,
           s\<lparr>command_buff := new_terminal + command_buff_offset,
             background_color := GRAY, font_color := BLACK, cursor_color := SILVER,
             term_font := f,
             top_boundary_y := 20, bottom_boundary_y := bottom,
             left_boundary_x := 20, right_boundary_x := right,
             num_cols := (right - 20) div font_width f,
             num_rows := (bottom - 20) div font_height f,
             term_start := start, text_cursor := start\<rparr>))
       (kmalloc_vmm (alloc_fuel im) (alloc_noflags im) sizeof_terminal s)"

text \<open>The character of the current command at the cursor.\<close>

definition char_at_cursor :: "'a console_scheme \<Rightarrow> u8" where
  "char_at_cursor s = hmem s (command_buff s + ucast (cursor_pos_idx s))"

definition init_terminal_subsystem ::
    "('a console_scheme, 'b) image_scheme \<Rightarrow> 'a console_scheme \<Rightarrow> 'a console_scheme option" where
  "init_terminal_subsystem im s =
     Option.bind (init_terminal im (set_background_color GRAY s)) (\<lambda>(terminal, s).
       Option.bind (print_prompt im s) (\<lambda>s.
         let s = plot_text_cursor (char_at_cursor s) s in Some (s\<lparr>input_start := text_cursor s\<rparr>)))"

subsection \<open>Built-in commands\<close>

definition echo :: "u32 \<Rightarrow> u32" where "echo input_param = input_param"

definition maybeOS :: "('s, 'b) image_scheme \<Rightarrow> u32" where "maybeOS im = maybeOS_logo im"

text \<open>The address of the output of the command \<open>cmd\<close>; \<open>param\<close> is what follows it in the input.\<close>

definition run_command :: "('s, 'b) image_scheme \<Rightarrow> mem \<Rightarrow> u32 \<Rightarrow> u32 \<Rightarrow> u32 option" where
  "run_command im m cmd input =
     (if cmd \<noteq> NULL then
        Option.bind (strlen m cmd) (\<lambda>n.
          let param = input + n + 1 in
          Option.bind (strcmp m cmd (maybeOS_cmd im)) (\<lambda>r.
            if r = 0 then Some (maybeOS im)
            else
              map_option (\<lambda>r. if r = 0 then echo param else unrecognized_msg im)
                (strcmp m cmd (echo_cmd im))))
      else Some (uninit_out im))"

definition shell_input ::
    "('a shell_scheme, 'b) image_scheme \<Rightarrow> u32 \<Rightarrow> 'a shell_scheme \<Rightarrow> 'a shell_scheme option" where
  "shell_input im input s =
     Option.bind (strlen (hmem s) input) (\<lambda>n.
       Option.bind (kmalloc_vmm (alloc_fuel im) (alloc_noflags im) (n + 1) s) (\<lambda>(input_cpy, s).
         Option.bind (strlen (hmem s) input) (\<lambda>n.
           let m = strncpy (hmem s) input_cpy input n in
           Option.bind (strtok (strchr_noret im) m (saved_position s) input_cpy (delims im)) (\<lambda>(cmd, saved, m).
             let s = s\<lparr>hmem := m, saved_position := saved\<rparr> in
             Option.bind (run_command im m cmd input) (\<lambda>out.
               Option.bind (print_shell_output out s) (\<lambda>s. kfree input_cpy s))))))"

text \<open>\<open>start_shell\<close> ends in an empty endless loop; the rest happens in interrupts.\<close>

partial_function (option) shell_main :: "'s \<Rightarrow> 's option" where
  "shell_main s = shell_main s"

definition start_shell :: "'s \<Rightarrow> 's option" where "start_shell s = shell_main s"

lemma shell_main_never: "shell_main s = None"
proof (cases "shell_main s")
  case (Some r)
  have False by (rule shell_main.raw_induct [where P = "\<lambda>s r. False", OF _ Some]) blast
  then show ?thesis ..
qed

end
