(* ===== verification/Line_Editor.thy ===== *)
theory Line_Editor
  imports Shell Display Ps2
begin

text \<open>
  \<^verbatim>\<open>src/kernel/terminal/terminal_input_parser.c\<close>: keycodes become edits of the command line,
  which is kept in memory (row 0 of the command buffer), on the screen, and in the two indices of
  the terminal. Older commands are in the other rows.
\<close>

subsection \<open>State\<close>

text \<open>The globals of the parser; \<open>temp_curr_command_buff\<close> is the address of the spare row.\<close>

record line_editor = shell +
  temp_curr_command_buff :: u32
  caps_active :: bool
  shift_active :: bool
  modify_incoming_scancodes :: bool
  catch_incoming_scancodes :: bool

text \<open>The addresses of the key class arrays, and what the printable tables read past their ends.\<close>

record 's editor_image = "'s image" +
  modifier_keycodes_at :: u32
  special_keycodes_at :: u32
  signal_keycodes_at :: u32
  base_past :: "u16 \<Rightarrow> u8"
  modified_past :: "u16 \<Rightarrow> u8"

definition TAB_TEXT_CELL_COUNT :: u32 where "TAB_TEXT_CELL_COUNT = 4"

subsection \<open>Key classes\<close>

definition modifier_keycodes :: "u8 list" where
  "modifier_keycodes = map ucast [KEY_CAPS_LOCK, KEY_L_SHIFT, KEY_R_SHIFT]"

definition special_keycodes :: "u8 list" where
  "special_keycodes = map ucast [KEY_RIGHT_ARROW, KEY_LEFT_ARROW, KEY_DOWN_ARROW, KEY_UP_ARROW,
     KEY_TAB, KEY_DELETE_BACKSPACE, KEY_RETURN_ENTER]"

definition signal_generating_keycodes :: "u8 list" where
  "signal_generating_keycodes = map ucast [KEY_L_CTRL, KEY_R_CTRL, KEY_L_ALT, KEY_R_ALT, KEY_L_GUI, KEY_R_GUI]"

definition isModifierKeyCode :: "('s, 'b) editor_image_scheme \<Rightarrow> u16 \<Rightarrow> bool" where
  "isModifierKeyCode im keycode =
     isInArray (const_array (modifier_keycodes_at im) modifier_keycodes) (modifier_keycodes_at im)
       (ucast keycode) (of_nat (length modifier_keycodes))"

definition isSignalGeneratingKeyCode :: "('s, 'b) editor_image_scheme \<Rightarrow> u16 \<Rightarrow> bool" where
  "isSignalGeneratingKeyCode im keycode =
     isInArray (const_array (signal_keycodes_at im) signal_generating_keycodes) (signal_keycodes_at im)
       (ucast keycode) (of_nat (length signal_generating_keycodes))"

definition isSpecialKeyCode :: "('s, 'b) editor_image_scheme \<Rightarrow> u16 \<Rightarrow> bool" where
  "isSpecialKeyCode im keycode =
     isInArray (const_array (special_keycodes_at im) special_keycodes) (special_keycodes_at im)
       (ucast keycode) (of_nat (length special_keycodes))"

definition isKeycodePrintable :: "('s, 'b) editor_image_scheme \<Rightarrow> mem \<Rightarrow> u16 \<Rightarrow> bool" where
  "isKeycodePrintable im m keycode = (base_printable_char (base_past im) (m NULL) keycode \<noteq> 0)"

subsection \<open>The current command\<close>

text \<open>Row \<open>i\<close> of the command buffer.\<close>

definition cmd_row :: "'a console_scheme \<Rightarrow> u32 \<Rightarrow> u32" where
  "cmd_row s i = command_buff s + SHELL_INPUT_BUFF_SIZE * i"

definition cmd_exists :: "u16 \<Rightarrow> 'a console_scheme \<Rightarrow> bool" where
  "cmd_exists cmd_idx s = (hmem s (cmd_row s (ucast cmd_idx)) \<noteq> 0)"

definition inc_cursors :: "'a console_scheme \<Rightarrow> 'a console_scheme option" where
  "inc_cursors s =
     (if cursor_pos_idx s < end_idx s then
        (let s = unplot_text_cursor (char_at_cursor s) s;
             s = s\<lparr>cursor_pos_idx := cursor_pos_idx s + 1\<rparr>
         in map_option (\<lambda>s. plot_text_cursor (char_at_cursor s) s) (inc_textCursor s))
      else Some s)"

definition dec_cursors :: "'a console_scheme \<Rightarrow> 'a console_scheme" where
  "dec_cursors s =
     (if cursor_pos_idx s > 0 then
        (let s = unplot_text_cursor (char_at_cursor s) s;
             s = s\<lparr>cursor_pos_idx := cursor_pos_idx s - 1\<rparr>;
             (moved, s) = dec_textCursor s
         in plot_text_cursor (char_at_cursor s) s)
      else s)"

text \<open>The index of the first NUL byte; the counter is an \<open>unsigned char\<close>.\<close>

partial_function (option) find_command_end :: "mem \<Rightarrow> u32 \<Rightarrow> u8 \<Rightarrow> u8 option" where
  "find_command_end m p idx =
     (if m (p + ucast idx) \<noteq> 0 then find_command_end m p (idx + 1) else Some idx)"

definition init_inputBuffCursor :: "'a console_scheme \<Rightarrow> 'a console_scheme option" where
  "init_inputBuffCursor s =
     map_option (\<lambda>idx. s\<lparr>end_idx := ucast idx, cursor_pos_idx := ucast idx\<rparr>)
       (find_command_end (hmem s) (cmd_row s 0) 0)"

definition initialize_new_input_line :: "('s, 'b) image_scheme \<Rightarrow> 'a console_scheme \<Rightarrow> 'a console_scheme option" where
  "initialize_new_input_line im s =
     Option.bind (init_inputBuffCursor s) (\<lambda>s.
       Option.bind (print_prompt im s) (\<lambda>s.
         let s = s\<lparr>input_start := text_cursor s\<rparr>;
             s = plot_text_cursor (char_at_cursor s) s
         in Some (s\<lparr>curr_command_idx := 0\<rparr>)))"

definition place_char_at_cursor_pos :: "u8 \<Rightarrow> 'a console_scheme \<Rightarrow> (bool \<times> 'a console_scheme) option" where
  "place_char_at_cursor_pos new_char s =
     (if end_idx s = ucast (SHELL_INPUT_BUFF_SIZE - 1) then Some (False, s)
      else
        (let p = cmd_row s 0 + ucast (cursor_pos_idx s);
             s = (if cursor_pos_idx s \<noteq> end_idx s then
                    s\<lparr>hmem := memmove (hmem s) (p + 1) p (ucast (end_idx s) - ucast (cursor_pos_idx s))\<rparr>
                  else s);
             s = s\<lparr>hmem := (hmem s)(p := new_char)\<rparr>;
             s = s\<lparr>cursor_pos_idx := cursor_pos_idx s + 1, end_idx := end_idx s + 1\<rparr>;
             s = unplot_text_cursor (char_at_cursor s) s
         in Option.bind
              (if cursor_pos_idx s \<noteq> end_idx s then
                 (let shift_string = cmd_row s 0 + ucast (cursor_pos_idx s);
                      temp = text_cursor s
                  in Option.bind (inc_textCursor s) (\<lambda>s.
                       Option.bind (strlen (hmem s) shift_string) (\<lambda>n.
                         Option.bind (print_str shift_string n s) (\<lambda>s. Some (s\<lparr>text_cursor := temp\<rparr>)))))
               else Some s) (\<lambda>s.
            let s = print_char (scast new_char) (font_color s) (background_color s) s in
            Option.bind (inc_textCursor s) (\<lambda>s.
              Some (True, plot_text_cursor (char_at_cursor s) s)))))"

definition autofill_command :: "'a console_scheme \<Rightarrow> 'a console_scheme" where
  "autofill_command s = s"

subsection \<open>The history\<close>

definition log_and_reset_input_buffers :: "'a line_editor_scheme \<Rightarrow> 'a line_editor_scheme" where
  "log_and_reset_input_buffers s =
     (let m = (if hmem s (cmd_row s 0) \<noteq> 0 then
                 (let m = for_loop 0 (MAX_NUM_COMMANDS_STORED - 1) (\<lambda>i m.
                        let idx = MAX_NUM_COMMANDS_STORED - 1 - i
                        in memcpy m (cmd_row s idx) (cmd_row s (idx - 1)) SHELL_INPUT_BUFF_SIZE) (hmem s)
                  in memset m (cmd_row s 0) 0 SHELL_INPUT_BUFF_SIZE)
               else hmem s)
      in s\<lparr>hmem := memset m (temp_curr_command_buff s) 0 SHELL_INPUT_BUFF_SIZE\<rparr>)"

definition preserve_last_written_command :: "'a line_editor_scheme \<Rightarrow> 'a line_editor_scheme" where
  "preserve_last_written_command s =
     s\<lparr>hmem := memcpy (hmem s) (temp_curr_command_buff s) (cmd_row s 0) SHELL_INPUT_BUFF_SIZE\<rparr>"

definition copy_diff_cmd_to_curr_cmd_buffer :: "u16 \<Rightarrow> 'a console_scheme \<Rightarrow> 'a console_scheme" where
  "copy_diff_cmd_to_curr_cmd_buffer cmd_indx s =
     s\<lparr>hmem := memcpy (hmem s) (cmd_row s 0) (cmd_row s (ucast cmd_indx)) SHELL_INPUT_BUFF_SIZE\<rparr>"

definition replace_curr_cmd_with_diff_cmd :: "u16 \<Rightarrow> 'a console_scheme \<Rightarrow> 'a console_scheme option" where
  "replace_curr_cmd_with_diff_cmd diff_cmd_indx s =
     (let s = unplot_text_cursor (char_at_cursor s) s in
      Option.bind (clear_x_cells_at (input_start s) (ucast (end_idx s)) s) (\<lambda>s.
        let s = copy_diff_cmd_to_curr_cmd_buffer diff_cmd_indx s in
        Option.bind (init_inputBuffCursor s) (\<lambda>s.
          let s = s\<lparr>text_cursor := input_start s\<rparr>;
              new_curr_cmd = cmd_row s 0
          in Option.bind (strlen (hmem s) new_curr_cmd) (\<lambda>n.
               Option.bind (print_str new_curr_cmd n s) (\<lambda>s.
                 Some (plot_text_cursor (char_at_cursor s) s))))))"

subsection \<open>Keys\<close>

definition handle_signal_generating_keycode :: "u16 \<Rightarrow> 's \<Rightarrow> 's" where
  "handle_signal_generating_keycode keycode s = s"

definition handle_down_arrow :: "'a line_editor_scheme \<Rightarrow> 'a line_editor_scheme option" where
  "handle_down_arrow s =
     (if curr_command_idx s > 0 then
        (let s = s\<lparr>curr_command_idx := curr_command_idx s - 1\<rparr>;
             s = (if curr_command_idx s = 0 then
                    s\<lparr>hmem := memcpy (hmem s) (cmd_row s 0) (temp_curr_command_buff s) SHELL_INPUT_BUFF_SIZE\<rparr>
                  else s)
         in replace_curr_cmd_with_diff_cmd (curr_command_idx s) s)
      else Some s)"

definition handle_up_arrow :: "'a line_editor_scheme \<Rightarrow> 'a line_editor_scheme option" where
  "handle_up_arrow s =
     (if ucast (curr_command_idx s) < MAX_NUM_COMMANDS_STORED - 1 then
        (if cmd_exists (curr_command_idx s + 1) s then
           (let s = (if curr_command_idx s = 0 then preserve_last_written_command s else s);
                s = s\<lparr>curr_command_idx := curr_command_idx s + 1\<rparr>
            in replace_curr_cmd_with_diff_cmd (curr_command_idx s) s)
         else Some s)
      else Some s)"

definition handle_tab :: "'a console_scheme \<Rightarrow> 'a console_scheme option" where
  "handle_tab s =
     (if cursor_pos_idx s = 0 then
        (let s = unplot_text_cursor (char_at_cursor s) s in
         map_option (\<lambda>(r, s). plot_text_cursor (char_at_cursor s) s)
           (inc_textCursor_x_times TAB_TEXT_CELL_COUNT s))
      else Some (autofill_command s))"

definition handle_delete :: "bool \<Rightarrow> 'a console_scheme \<Rightarrow> 'a console_scheme option" where
  "handle_delete is_break s =
     (if \<not> is_break \<and> cursor_pos_idx s \<noteq> 0 then
        (let s = unplot_text_cursor (char_at_cursor s) s in
         if cursor_pos_idx s = end_idx s then
           (let s = s\<lparr>cursor_pos_idx := cursor_pos_idx s - 1, end_idx := end_idx s - 1\<rparr>;
                s = s\<lparr>hmem := (hmem s)(cmd_row s 0 + ucast (cursor_pos_idx s) := 0)\<rparr>;
                (moved, s) = dec_textCursor s
            in Some (plot_text_cursor (char_at_cursor s) s))
         else
           (let curr_pos = cmd_row s 0 + ucast (cursor_pos_idx s);
                s = s\<lparr>hmem := memcpy (hmem s) (curr_pos - 1) curr_pos
                       (ucast (end_idx s) - ucast (cursor_pos_idx s) + 1)\<rparr>
            in Option.bind (clear_x_cells (ucast (end_idx s) - ucast (cursor_pos_idx s)) s) (\<lambda>s.
                 let s = s\<lparr>end_idx := end_idx s - 1\<rparr>;
                     s = s\<lparr>cursor_pos_idx := cursor_pos_idx s - 1\<rparr>;
                     (moved, s) = dec_textCursor s;
                     altered_cmd = cmd_row s 0 + ucast (cursor_pos_idx s);
                     temp = text_cursor s
                 in Option.bind (strlen (hmem s) altered_cmd) (\<lambda>n.
                      Option.bind (print_str altered_cmd n s) (\<lambda>s.
                        let s = s\<lparr>text_cursor := temp\<rparr>
                        in Some (plot_text_cursor (char_at_cursor s) s))))))
      else Some s)"

definition handle_enter ::
    "('a line_editor_scheme, 'b) editor_image_scheme \<Rightarrow> bool \<Rightarrow> 'a line_editor_scheme \<Rightarrow> 'a line_editor_scheme option" where
  "handle_enter im is_break s =
     (if \<not> is_break then
        (let s = unplot_text_cursor (char_at_cursor s) s in
         Option.bind (move_textCursor_to_new_line_start (terminal_prompt_msg im) s) (\<lambda>s.
           Option.bind (shell_input im (cmd_row s 0) s) (\<lambda>s.
             let s = log_and_reset_input_buffers s
             in initialize_new_input_line im s)))
      else Some s)"

text \<open>The switch over the special keys; \<open>is_break\<close> is the parameter \<open>isBreakCode\<close>.\<close>

definition handle_special_keycode ::
    "('a line_editor_scheme, 'b) editor_image_scheme \<Rightarrow> u16 \<Rightarrow> bool \<Rightarrow> 'a line_editor_scheme \<Rightarrow> 'a line_editor_scheme option" where
  "handle_special_keycode im keycode is_break s =
     (if keycode = KEY_RIGHT_ARROW then inc_cursors s
      else if keycode = KEY_LEFT_ARROW then Some (dec_cursors s)
      else if keycode = KEY_DOWN_ARROW then handle_down_arrow s
      else if keycode = KEY_UP_ARROW then handle_up_arrow s
      else if keycode = KEY_TAB then handle_tab s
      else if keycode = KEY_DELETE_BACKSPACE then handle_delete is_break s
      else if keycode = KEY_RETURN_ENTER then handle_enter im is_break s
      else Some s)"

definition handle_modifier_keycode :: "u16 \<Rightarrow> bool \<Rightarrow> 'a line_editor_scheme \<Rightarrow> 'a line_editor_scheme" where
  "handle_modifier_keycode keycode is_break s =
     (let s = (if keycode = KEY_CAPS_LOCK then
                 (if \<not> is_break then s\<lparr>caps_active := \<not> caps_active s\<rparr> else s)
               else if keycode = KEY_L_SHIFT then
                 (if \<not> is_break then s\<lparr>shift_active := True\<rparr> else s\<lparr>shift_active := False\<rparr>)
               else if keycode = KEY_R_SHIFT then
                 (if \<not> is_break then s\<lparr>shift_active := True\<rparr> else s\<lparr>shift_active := False\<rparr>)
               else s)
      in s\<lparr>modify_incoming_scancodes := shift_active s \<or> caps_active s\<rparr>)"

definition printed_char :: "('s, 'b) editor_image_scheme \<Rightarrow> u16 \<Rightarrow> 'a line_editor_scheme \<Rightarrow> u8" where
  "printed_char im keycode s =
     (let new_char = base_printable_char (base_past im) (hmem s NULL) keycode in
      if modify_incoming_scancodes s then
        (if shift_active s then modified_printable_char (modified_past im) (hmem s NULL) keycode
         else if caps_active s then
           (if isalpha (sint new_char)
            then modified_printable_char (modified_past im) (hmem s NULL) keycode else new_char)
         else new_char)
      else new_char)"

definition handle_printable_keycode ::
    "('s, 'b) editor_image_scheme \<Rightarrow> u16 \<Rightarrow> 'a line_editor_scheme \<Rightarrow> 'a line_editor_scheme option" where
  "handle_printable_keycode im keycode s =
     (if end_idx s \<noteq> ucast (SHELL_INPUT_BUFF_SIZE - 1) then
        map_option snd (place_char_at_cursor_pos (printed_char im keycode s) s)
      else Some s)"

definition handle_keycode ::
    "('a line_editor_scheme, 'b) editor_image_scheme \<Rightarrow> u16 \<Rightarrow> bool \<Rightarrow> 'a line_editor_scheme \<Rightarrow> 'a line_editor_scheme option" where
  "handle_keycode im keycode is_break s =
     (if catch_incoming_scancodes s then Some s
      else if isSpecialKeyCode im keycode then handle_special_keycode im keycode is_break s
      else if isModifierKeyCode im keycode then Some (handle_modifier_keycode keycode is_break s)
      else if isSignalGeneratingKeyCode im keycode then Some (handle_signal_generating_keycode keycode s)
      else if isKeycodePrintable im (hmem s) keycode then
        (if \<not> is_break then handle_printable_keycode im keycode s else Some s)
      else Some s)"

end
