(* ===== verification/Editing.thy ===== *)
theory Editing
  imports Line_Editor
begin

text \<open>
  The command line as text with a cursor: every editing key does to the memory and the indices of
  the terminal what the same key does to a list of characters and a position in it.
\<close>

subsection \<open>The line in memory\<close>

definition row_holds :: "mem \<Rightarrow> u32 \<Rightarrow> u8 list \<Rightarrow> bool" where
  "row_holds m p xs \<longleftrightarrow> (\<forall>j < 256. m (p + of_nat j) = (if j < length xs then xs ! j else 0))"

definition line_ok :: "'a console_scheme \<Rightarrow> u8 list \<Rightarrow> nat \<Rightarrow> bool" where
  "line_ok s xs i \<longleftrightarrow>
     row_holds (hmem s) (cmd_row s 0) xs \<and> unat (cmd_row s 0) + 256 \<le> 2 ^ 32 \<and> length xs < 256 \<and> 0 \<notin> set xs \<and> i \<le> length xs \<and>
     end_idx s = of_nat (length xs) \<and> cursor_pos_idx s = of_nat i"

text \<open>
  An edit changes the current row, the two indices and the screen, and nothing else.
\<close>

definition edited :: "'a console_scheme \<Rightarrow> 'a console_scheme \<Rightarrow> bool" where
  "edited s t \<longleftrightarrow> (\<exists>m c e. same_text (s\<lparr>hmem := m, cursor_pos_idx := c, end_idx := e\<rparr>) t \<and>
     (\<forall>a. 256 \<le> a - cmd_row s 0 \<longrightarrow> m a = hmem s a))"

lemma row_holds_cstr:
  assumes "row_holds m p xs" and "length xs < 256" and "0 \<notin> set xs" and "i \<le> length xs"
  shows "is_cstr m (p + of_nat i) (drop i xs)"
proof (rule is_cstr_nthI)
  fix j assume "j < length (drop i xs)"
  then have "i + j < 256" "i + j < length xs" using assms(2) by simp_all
  then have "m (p + of_nat (i + j)) = xs ! (i + j)"
    using assms(1) unfolding row_holds_def by metis
  then show "m (p + of_nat i + of_nat j) = drop i xs ! j" using assms(4) by (simp add: add.assoc)
next
  have "m (p + of_nat (length xs)) = 0" using assms(1,2) by (simp add: row_holds_def)
  then show "m (p + of_nat i + of_nat (length (drop i xs))) = 0"
    using assms(4) by (simp add: of_nat_diff)
next
  show "0 \<notin> set (drop i xs)" using assms(3) by (auto dest: in_set_dropD)
qed

lemma small_window:
  assumes "j < 2147483648" and "k < 2147483648" and "n < 2147483648"
  shows "(of_nat j :: u32) - of_nat k < of_nat n \<longleftrightarrow> k \<le> j \<and> j - k < n"
proof -
  have "unat (of_nat j :: u32) = j" "unat (of_nat n :: u32) = n"
    using assms by (simp_all add: unat_of_nat_small)
  then show ?thesis
    using unat_sub_of_nat [of k "of_nat j"] assms by (cases "k \<le> j") (simp_all add: word_less_nat_alt)
qed

lemma unat_idx: "i < 65536 \<Longrightarrow> unat (of_nat i :: u16) = i"
  by (simp add: unat_of_nat take_bit_nat_eq_self)

lemma ucast_idx: "i < 65536 \<Longrightarrow> (ucast (of_nat i :: u16) :: u32) = of_nat i"
  by (simp add: word_unat_eq_iff unsigned_ucast_eq unat_idx unat_of_nat_small take_bit_nat_eq_self)

text \<open>A copy inside the row, seen byte by byte.\<close>

lemma copied_in_row:
  assumes "j < 256" and "k < 257" and "l < 257" and "n < 257"
  shows "copied m (p + of_nat k) (p + of_nat l) (of_nat n) (p + of_nat j) =
    (if k \<le> j \<and> j - k < n then m (p + of_nat (l + (j - k))) else m (p + of_nat j))"
proof -
  have e: "p + of_nat j - (p + of_nat k) = (of_nat j - of_nat k :: u32)" by simp
  have w: "(of_nat j :: u32) - of_nat k < of_nat n \<longleftrightarrow> k \<le> j \<and> j - k < n"
    using assms by (intro small_window) simp_all
  have src: "p + of_nat l + (of_nat j - of_nat k) = p + of_nat (l + (j - k))" if "k \<le> j"
    using that by (simp add: of_nat_diff)
  show ?thesis
  proof (cases "k \<le> j \<and> j - k < n")
    case True
    then show ?thesis using src by (simp only: copied_def e w if_True simp_thms)
  next
    case False
    then show ?thesis by (simp only: copied_def e w if_False simp_thms)
  qed
qed

lemma row_addr_eq: "j < 256 \<Longrightarrow> k < 256 \<Longrightarrow> p + of_nat j = p + (of_nat k :: u32) \<longleftrightarrow> j = k"
  using of_nat_eq_small [of j k] by simp

lemma outside_row:
  assumes "256 \<le> a - (p :: u32)" and "k < 256"
  shows "a \<noteq> p + of_nat k"
  using assms unat_of_nat_small [of k] by (auto simp: word_le_nat_alt)

lemma copied_outside_row:
  assumes "256 \<le> a - p" and "k + n \<le> 256"
  shows "copied m (p + of_nat k) src (of_nat n) a = m a"
proof -
  have k: "unat (of_nat k :: u32) = k" "unat (of_nat n :: u32) = n"
    using assms(2) by (simp_all add: unat_of_nat_small)
  have a: "256 \<le> unat (a - p)" using assms(1) by (simp add: word_le_nat_alt)
  have "(of_nat k :: u32) \<le> a - p" using a k(1) assms(2) by (simp add: word_le_nat_alt)
  then have "unat (a - p - of_nat k) = unat (a - p) - k" using k(1) by (simp add: unat_sub)
  moreover have "a - (p + of_nat k) = a - p - of_nat k" by simp
  ultimately have "unat (a - (p + of_nat k)) = unat (a - p) - k" by (simp only:)
  then have "\<not> a - (p + of_nat k) < of_nat n" using a k(2) assms(2) by (simp add: word_less_nat_alt)
  then show ?thesis by (simp only: copied_def if_False)
qed

text \<open>Inserting one character: the rest of the row moves right.\<close>

lemma row_insert:
  assumes "row_holds m p xs" and "Suc (length xs) < 256" and "i < length xs" and "unat p + 256 \<le> 2 ^ 32"
  shows "row_holds ((memmove m (p + of_nat (Suc i)) (p + of_nat i) (of_nat (length xs - i)))(p + of_nat i := c)) p
    (take i xs @ c # drop i xs)"
proof -
  have at: "unat (p + of_nat k) = unat p + k" if "k < 256" for k
    using that assms(4) unat_add_small [of p "of_nat k"] unat_of_nat_small [of k] by simp
  have "unat (of_nat (length xs - i) :: u32) = length xs - i"
    using assms(2) by (intro unat_of_nat_small) simp
  then have mv: "memmove m (p + of_nat (Suc i)) (p + of_nat i) (of_nat (length xs - i)) =
      copied m (p + of_nat (Suc i)) (p + of_nat i) (of_nat (length xs - i))"
    using at [of i] at [of "Suc i"] assms(2-4) by (intro memmove_copied) simp_all
  show ?thesis
    unfolding mv row_holds_def
  proof (intro allI impI)
    fix j :: nat assume j: "j < 256"
    have old: "m (p + of_nat k) = (if k < length xs then xs ! k else 0)" if "k < 256" for k
      using assms(1) that by (simp add: row_holds_def)
    have "copied m (p + of_nat (Suc i)) (p + of_nat i) (of_nat (length xs - i)) (p + of_nat j) =
        (if Suc i \<le> j \<and> j - Suc i < length xs - i then m (p + of_nat (i + (j - Suc i))) else m (p + of_nat j))"
      using j assms(2,3) by (intro copied_in_row) simp_all
    then have "copied m (p + of_nat (Suc i)) (p + of_nat i) (of_nat (length xs - i)) (p + of_nat j) =
        (if Suc i \<le> j \<and> j \<le> length xs then xs ! (j - 1) else if j < length xs then xs ! j else 0)"
      using old [of "j - 1"] old [OF j] j assms(2,3) by (auto split: if_splits)
    moreover have "(p + of_nat j = p + of_nat i) = (j = i)"
      using j assms(2,3) by (intro row_addr_eq) simp_all
    ultimately show "((copied m (p + of_nat (Suc i)) (p + of_nat i) (of_nat (length xs - i)))(p + of_nat i := c))
        (p + of_nat j) = (if j < length (take i xs @ c # drop i xs) then (take i xs @ c # drop i xs) ! j else 0)"
      using assms(2,3) by (auto simp: nth_append nth_Cons' min_def)
  qed
qed

lemma move_outside:
  assumes "unat p + 256 \<le> 2 ^ 32" and "k + n \<le> 256" and "l + n \<le> 256" and "256 \<le> a - p" and "k < 256" and "l < 256"
  shows "memmove m (p + of_nat k) (p + of_nat l) (of_nat n) a = m a"
proof -
  have at: "unat (p + of_nat k) = unat p + k" if "k < 256" for k
    using that assms(1) unat_add_small [of p "of_nat k"] unat_of_nat_small [of k] by simp
  have "unat (of_nat n :: u32) = n" using assms(2) by (simp add: unat_of_nat_small)
  then have "memmove m (p + of_nat k) (p + of_nat l) (of_nat n) = copied m (p + of_nat k) (p + of_nat l) (of_nat n)"
    using at [OF assms(5)] at [OF assms(6)] assms(1-3) by (intro memmove_copied) simp_all
  then show ?thesis using copied_outside_row [OF assms(4,2)] by simp
qed

lemma row_append:
  assumes "row_holds m p xs" and "Suc (length xs) < 256"
  shows "row_holds (m(p + of_nat (length xs) := c)) p (xs @ [c])"
  using assms row_addr_eq [of _ "length xs" p]
  by (auto simp: row_holds_def nth_append)

text \<open>Deleting the character at \<open>i\<close>: the rest of the row and the NUL move left.\<close>

lemma memcpy_left: "memcpy m (p + of_nat i) (p + of_nat (Suc i)) n = copied m (p + of_nat i) (p + of_nat (Suc i)) n"
proof -
  have "n \<le> - 1" by simp
  then show ?thesis by (intro memcpy_copied) simp
qed

lemma row_delete:
  assumes "row_holds m p xs" and "length xs < 256" and "Suc i < length xs"
  shows "row_holds (memcpy m (p + of_nat i) (p + of_nat (Suc i)) (of_nat (length xs - i))) p
    (take i xs @ drop (Suc i) xs)"
proof -
  show ?thesis
    unfolding memcpy_left row_holds_def
  proof (intro allI impI)
    fix j :: nat assume j: "j < 256"
    have old: "m (p + of_nat k) = (if k < length xs then xs ! k else 0)" if "k < 256" for k
      using assms(1) that by (simp add: row_holds_def)
    have "copied m (p + of_nat i) (p + of_nat (Suc i)) (of_nat (length xs - i)) (p + of_nat j) =
        (if i \<le> j \<and> j - i < length xs - i then m (p + of_nat (Suc i + (j - i))) else m (p + of_nat j))"
      using j assms(2,3) by (intro copied_in_row) simp_all
    then have "copied m (p + of_nat i) (p + of_nat (Suc i)) (of_nat (length xs - i)) (p + of_nat j) =
        (if i \<le> j \<and> Suc j < length xs then xs ! Suc j else if j < i then xs ! j else 0)"
      using old [of "Suc j"] old [OF j] j assms(2,3) by (auto split: if_splits)
    then show "copied m (p + of_nat i) (p + of_nat (Suc i)) (of_nat (length xs - i)) (p + of_nat j) =
        (if j < length (take i xs @ drop (Suc i) xs) then (take i xs @ drop (Suc i) xs) ! j else 0)"
      using assms(3) by (auto simp: nth_append min_def)
  qed
qed

lemma row_delete_last:
  assumes "row_holds m p (xs @ [x])" and "Suc (length xs) < 256"
  shows "row_holds (m(p + of_nat (length xs) := 0)) p xs"
  using assms row_addr_eq [of _ "length xs" p]
  by (auto simp: row_holds_def nth_append)

subsection \<open>The graphic side changes nothing else\<close>

lemma line_ok_same:
  assumes "same_text s t"
  shows "line_ok t xs i = line_ok s xs i"
  using same_text_fields [OF assms] by (simp add: line_ok_def cmd_row_def)

lemma edited_same: "edited s t \<Longrightarrow> same_text t u \<Longrightarrow> edited s u"
  unfolding edited_def using same_text_trans by blast

lemma edited_refl [simp]: "edited s s"
proof -
  have "s\<lparr>hmem := hmem s, cursor_pos_idx := cursor_pos_idx s, end_idx := end_idx s\<rparr> = s"
    by (cases s) simp
  then have "same_text (s\<lparr>hmem := hmem s, cursor_pos_idx := cursor_pos_idx s, end_idx := end_idx s\<rparr>) s" by simp
  then show ?thesis unfolding edited_def by blast
qed

lemma same_text_updates:
  assumes "same_text s t"
  shows "same_text (s\<lparr>hmem := m, cursor_pos_idx := c, end_idx := e\<rparr>) (t\<lparr>hmem := m, cursor_pos_idx := c, end_idx := e\<rparr>)"
proof -
  obtain f p i where "t = s\<lparr>fb := f, text_cursor := p, input_start := i\<rparr>" using assms by (auto simp: same_text_def)
  then have "t\<lparr>hmem := m, cursor_pos_idx := c, end_idx := e\<rparr> =
      s\<lparr>hmem := m, cursor_pos_idx := c, end_idx := e\<rparr>\<lparr>fb := f, text_cursor := p, input_start := i\<rparr>" by simp
  then show ?thesis unfolding same_text_def by blast
qed

text \<open>Drawing, a change of the row and the indices, and drawing again is an edit.\<close>

lemma editedI:
  assumes "same_text s t" and "\<And>a. 256 \<le> a - cmd_row s 0 \<Longrightarrow> m a = hmem s a"
    and "same_text (t\<lparr>hmem := m, cursor_pos_idx := c, end_idx := e\<rparr>) u"
  shows "edited s u"
  unfolding edited_def
  using same_text_trans [OF same_text_updates [OF assms(1)] assms(3)] assms(2) by blast

lemma display_ok_updates [simp]:
  "display_ok (s\<lparr>hmem := m\<rparr>) = display_ok s" "display_ok (s\<lparr>cursor_pos_idx := c\<rparr>) = display_ok s"
  "display_ok (s\<lparr>end_idx := e\<rparr>) = display_ok s" "display_ok (s\<lparr>curr_command_idx := k\<rparr>) = display_ok s"
  by (simp_all add: display_ok_def screen_ok_def)

lemma cmd_row_updates [simp]:
  "cmd_row (s\<lparr>hmem := m\<rparr>) = cmd_row s" "cmd_row (s\<lparr>cursor_pos_idx := c\<rparr>) = cmd_row s"
  "cmd_row (s\<lparr>end_idx := e\<rparr>) = cmd_row s" "cmd_row (s\<lparr>curr_command_idx := k\<rparr>) = cmd_row s"
  "cmd_row (s\<lparr>text_cursor := p\<rparr>) = cmd_row s"
  by (simp_all add: fun_eq_iff cmd_row_def)

lemma same_text_row: "same_text s t \<Longrightarrow> cmd_row t = cmd_row s"
  by (simp add: fun_eq_iff cmd_row_def same_text_fields)

subsection \<open>Moving the cursor in the line\<close>

lemma inc_cursors_edit:
  assumes "display_ok s" and "line_ok s xs i"
  shows "\<exists>t. inc_cursors s = Some t \<and> line_ok t xs (if i < length xs then Suc i else i) \<and> edited s t"
proof -
  have n: "length xs < 256" "i \<le> length xs" and idx: "end_idx s = of_nat (length xs)" "cursor_pos_idx s = of_nat i"
    using assms(2) by (auto simp: line_ok_def)
  have lt: "cursor_pos_idx s < end_idx s \<longleftrightarrow> i < length xs"
    using n by (simp add: idx word_less_nat_alt unat_idx)
  show ?thesis
  proof (cases "i < length xs")
    case True
    define t where "t = unplot_text_cursor (char_at_cursor s) s"
    have st: "same_text s t" by (simp add: t_def)
    define t1 where "t1 = t\<lparr>cursor_pos_idx := cursor_pos_idx t + 1\<rparr>"
    have "display_ok t1" using assms(1) same_text_display [OF st] by (simp add: t1_def)
    then obtain u where u: "inc_textCursor t1 = Some u" "same_text t1 u"
      using inc_textCursor_returns by blast
    define v where "v = plot_text_cursor (char_at_cursor u) u"
    have "same_text t1 v" using same_text_trans [OF u(2)] by (simp add: v_def)
    moreover have "t1 = t\<lparr>hmem := hmem s, cursor_pos_idx := of_nat (Suc i), end_idx := end_idx s\<rparr>"
      using same_text_fields [OF st] idx by (cases t) (simp add: t1_def add.commute)
    ultimately have "same_text (t\<lparr>hmem := hmem s, cursor_pos_idx := of_nat (Suc i), end_idx := end_idx s\<rparr>) v" by simp
    then have "edited s v" by (rule editedI [OF st, rotated]) simp
    moreover have "line_ok t1 xs (Suc i)"
      using assms(2) True same_text_fields [OF st] same_text_row [OF st]
      by (simp add: line_ok_def t1_def idx add.commute)
    then have "line_ok v xs (Suc i)" using line_ok_same [OF \<open>same_text t1 v\<close>] by simp
    moreover have "inc_cursors s = Some v"
      using lt True u(1) by (simp add: inc_cursors_def t_def t1_def v_def Let_def)
    ultimately show ?thesis using True by auto
  next
    case False
    then show ?thesis using assms(2) lt by (simp add: inc_cursors_def)
  qed
qed

lemma dec_cursors_edit:
  assumes "display_ok s" and "line_ok s xs i"
  shows "line_ok (dec_cursors s) xs (i - 1) \<and> edited s (dec_cursors s)"
proof -
  have n: "length xs < 256" "i \<le> length xs" and idx: "end_idx s = of_nat (length xs)" "cursor_pos_idx s = of_nat i"
    using assms(2) by (auto simp: line_ok_def)
  have gt: "cursor_pos_idx s > 0 \<longleftrightarrow> 0 < i"
    using n by (simp add: idx word_less_nat_alt unat_idx)
  show ?thesis
  proof (cases "0 < i")
    case True
    define t where "t = unplot_text_cursor (char_at_cursor s) s"
    have st: "same_text s t" by (simp add: t_def)
    define t1 where "t1 = t\<lparr>cursor_pos_idx := cursor_pos_idx t - 1\<rparr>"
    define v where "v = plot_text_cursor (char_at_cursor (snd (dec_textCursor t1))) (snd (dec_textCursor t1))"
    have v: "same_text t1 v" unfolding v_def by (rule same_text_trans [OF dec_same plot_same(1)])
    have c: "cursor_pos_idx t - 1 = of_nat (i - 1)"
      using same_text_fields [OF st] idx True by (simp add: of_nat_diff)
    have "t1 = t\<lparr>hmem := hmem s, cursor_pos_idx := of_nat (i - 1), end_idx := end_idx s\<rparr>"
      using same_text_fields [OF st] c by (cases t) (simp add: t1_def)
    then have "same_text (t\<lparr>hmem := hmem s, cursor_pos_idx := of_nat (i - 1), end_idx := end_idx s\<rparr>) v"
      using v by simp
    then have "edited s v" by (rule editedI [OF st, rotated]) simp
    moreover have "i - 1 \<le> length xs" using n by simp
    then have "line_ok t1 xs (i - 1)"
      using assms(2) same_text_fields [OF st] same_text_row [OF st] c
      by (simp add: line_ok_def t1_def del: One_nat_def)
    then have "line_ok v xs (i - 1)" using line_ok_same [OF v] by simp
    moreover have "dec_cursors s = v"
      using gt True by (simp add: dec_cursors_def t_def t1_def v_def Let_def case_prod_beta)
    ultimately show ?thesis by simp
  next
    case False
    then show ?thesis using assms(2) gt by (simp add: dec_cursors_def)
  qed
qed

subsection \<open>Typing a character\<close>

text \<open>What happens on the screen after the row has been changed.\<close>

definition redraw_insert :: "u8 \<Rightarrow> 'a console_scheme \<Rightarrow> 'a console_scheme option" where
  "redraw_insert new_char s =
     (let s = unplot_text_cursor (char_at_cursor s) s
      in Option.bind
           (if cursor_pos_idx s \<noteq> end_idx s then
              (let shift_string = cmd_row s 0 + ucast (cursor_pos_idx s);
                   temp = text_cursor s
               in Option.bind (inc_textCursor s) (\<lambda>s.
                    Option.bind (strlen (hmem s) shift_string) (\<lambda>n.
                      Option.bind (print_str shift_string n s) (\<lambda>s. Some (s\<lparr>text_cursor := temp\<rparr>)))))
            else Some s) (\<lambda>s.
         let s = print_char (scast new_char) (font_color s) (background_color s) s in
         Option.bind (inc_textCursor s) (\<lambda>s.
           Some (plot_text_cursor (char_at_cursor s) s))))"

lemma redraw_insert_returns:
  assumes "display_ok s" and "line_ok s xs i"
  shows "\<exists>t. redraw_insert c s = Some t \<and> same_text s t"
proof -
  let ?s1 = "unplot_text_cursor (char_at_cursor s) s"
  have s1: "same_text s ?s1" by simp
  let ?p = "cmd_row ?s1 0 + ucast (cursor_pos_idx ?s1)"
  have inc1: "\<exists>t. inc_textCursor ?s1 = Some t \<and> same_text s t"
    by (rule inc.after [OF assms(1) s1])
  have "\<exists>t. Option.bind (inc_textCursor ?s1) (\<lambda>s. Option.bind (strlen (hmem s) ?p) (\<lambda>n.
      Option.bind (print_str ?p n s) (\<lambda>s. Some (s\<lparr>text_cursor := temp\<rparr>)))) = Some t \<and> same_text s t" for temp
  proof -
    obtain t where t: "inc_textCursor ?s1 = Some t" "same_text s t" using inc1 by blast
    have "is_cstr (hmem s) (cmd_row s 0 + of_nat i) (drop i xs)"
      using assms(2) by (intro row_holds_cstr) (auto simp: line_ok_def)
    moreover have "?p = cmd_row s 0 + of_nat i"
      using assms(2) same_text_row [OF s1] same_text_fields [OF s1] by (simp add: line_ok_def ucast_idx)
    ultimately obtain n where n: "strlen (hmem t) ?p = Some n"
      using strlen_cstr same_text_fields [OF t(2)] by fastforce
    obtain u where u: "print_str ?p n t = Some u" "same_text s u"
      using print.after [OF assms(1) t(2)] by blast
    have "same_text s (u\<lparr>text_cursor := temp\<rparr>)" by (rule same_text_trans [OF u(2) same_text_cursor])
    then show ?thesis using t(1) n u(1) by simp
  qed
  then obtain t where t: "(if cursor_pos_idx ?s1 \<noteq> end_idx ?s1 then
      Option.bind (inc_textCursor ?s1) (\<lambda>s. Option.bind (strlen (hmem s) ?p) (\<lambda>n.
        Option.bind (print_str ?p n s) (\<lambda>s. Some (s\<lparr>text_cursor := text_cursor ?s1\<rparr>)))) else Some ?s1) = Some t"
    "same_text s t" using s1 by (metis (no_types))
  let ?t1 = "print_char (scast c) (font_color t) (background_color t) t"
  have "same_text s ?t1" by (rule same_text_trans [OF t(2) print_char_same])
  then obtain u where u: "inc_textCursor ?t1 = Some u" "same_text s u"
    using inc.after [OF assms(1)] by blast
  have "same_text s (plot_text_cursor (char_at_cursor u) u)" by (rule same_text_trans [OF u(2) plot_same(1)])
  moreover have "redraw_insert c s = Some (plot_text_cursor (char_at_cursor u) u)"
    unfolding redraw_insert_def Let_def t(1) using u(1) by simp
  ultimately show ?thesis by blast
qed

lemma place_char_redraw:
  assumes "end_idx s \<noteq> ucast (SHELL_INPUT_BUFF_SIZE - 1)"
  shows "place_char_at_cursor_pos c s = Option.bind (redraw_insert c
      (s\<lparr>hmem := (if cursor_pos_idx s \<noteq> end_idx s then
          memmove (hmem s) (cmd_row s 0 + ucast (cursor_pos_idx s) + 1) (cmd_row s 0 + ucast (cursor_pos_idx s))
            (ucast (end_idx s) - ucast (cursor_pos_idx s)) else hmem s)(cmd_row s 0 + ucast (cursor_pos_idx s) := c),
        cursor_pos_idx := cursor_pos_idx s + 1, end_idx := end_idx s + 1\<rparr>)) (\<lambda>t. Some (True, t))"
  using assms
  by (cases "cursor_pos_idx s = end_idx s")
    (simp_all add: place_char_at_cursor_pos_def redraw_insert_def Let_def Option.bind_assoc)

lemma place_char_edit:
  assumes "display_ok s" and "line_ok s xs i" and "length xs < 255" and "c \<noteq> 0"
  shows "\<exists>t. place_char_at_cursor_pos c s = Some (True, t) \<and>
    line_ok t (take i xs @ c # drop i xs) (Suc i) \<and> edited s t"
proof -
  have n: "i \<le> length xs" and idx: "end_idx s = of_nat (length xs)" "cursor_pos_idx s = of_nat i"
    and row: "row_holds (hmem s) (cmd_row s 0) xs" "unat (cmd_row s 0) + 256 \<le> 2 ^ 32" and nz: "0 \<notin> set xs"
    using assms(2) by (auto simp: line_ok_def)
  let ?p = "cmd_row s 0"
  have full: "end_idx s \<noteq> ucast (SHELL_INPUT_BUFF_SIZE - 1)"
    using assms(3) by (simp add: idx SHELL_INPUT_BUFF_SIZE_def word_unat_eq_iff unat_idx)
  have eq: "cursor_pos_idx s \<noteq> end_idx s \<longleftrightarrow> i < length xs"
    using n assms(3) by (auto simp: idx word_unat_eq_iff unat_idx)
  have u: "ucast (end_idx s) - ucast (cursor_pos_idx s) = (of_nat (length xs - i) :: u32)"
    using n assms(3) by (simp add: idx ucast_idx of_nat_diff)
  define m where "m = (if cursor_pos_idx s \<noteq> end_idx s then
      memmove (hmem s) (?p + ucast (cursor_pos_idx s) + 1) (?p + ucast (cursor_pos_idx s))
        (ucast (end_idx s) - ucast (cursor_pos_idx s)) else hmem s)(?p + ucast (cursor_pos_idx s) := c)"
  define s1 where "s1 = s\<lparr>hmem := m, cursor_pos_idx := of_nat (Suc i), end_idx := of_nat (Suc (length xs))\<rparr>"
  have cur: "?p + ucast (cursor_pos_idx s) = ?p + of_nat i" using n assms(3) by (simp add: idx ucast_idx)
  have suc: "?p + of_nat i + 1 = ?p + of_nat (Suc i)" by simp
  have m_lt: "m = (memmove (hmem s) (?p + of_nat (Suc i)) (?p + of_nat i) (of_nat (length xs - i)))(?p + of_nat i := c)"
    if "i < length xs"
    using that eq by (simp only: m_def cur u suc if_True)
  have m_ge: "m = (hmem s)(?p + of_nat (length xs) := c)" if "\<not> i < length xs"
    using that eq n by (simp only: m_def cur if_False) simp
  have rm: "row_holds m ?p (take i xs @ c # drop i xs)"
  proof (cases "i < length xs")
    case True
    then show ?thesis using row_insert [OF row(1) _ True row(2), of c] assms(3) by (simp only: m_lt)
  next
    case False
    then show ?thesis using row_append [OF row(1), of c] n assms(3) unfolding m_ge [OF False] by simp
  qed
  have mout: "m a = hmem s a" if a: "256 \<le> a - ?p" for a
  proof (cases "i < length xs")
    case True
    have "memmove (hmem s) (?p + of_nat (Suc i)) (?p + of_nat i) (of_nat (length xs - i)) a = hmem s a"
      using True assms(3) by (intro move_outside [OF row(2) _ _ a]) simp_all
    then show ?thesis using outside_row [OF a, of i] True assms(3) by (simp only: m_lt) simp
  next
    case False
    then show ?thesis using outside_row [OF a, of "length xs"] assms(3) unfolding m_ge [OF False] by simp
  qed
  have ok1: "line_ok s1 (take i xs @ c # drop i xs) (Suc i)"
    using rm row(2) nz n assms(3,4) by (auto simp: line_ok_def s1_def dest: in_set_takeD in_set_dropD)
  have "display_ok s1" using assms(1) by (simp add: s1_def)
  then obtain t where t: "redraw_insert c s1 = Some t" "same_text s1 t"
    using redraw_insert_returns [OF _ ok1] by blast
  have "edited s t"
    unfolding edited_def
  proof (intro exI conjI allI impI)
    show "same_text (s\<lparr>hmem := m, cursor_pos_idx := of_nat (Suc i), end_idx := of_nat (Suc (length xs))\<rparr>) t"
      using t(2) by (simp only: s1_def)
    fix a assume "256 \<le> a - ?p"
    then show "m a = hmem s a" using mout by simp
  qed
  moreover have "place_char_at_cursor_pos c s = Some (True, t)"
    unfolding place_char_redraw [OF full] m_def [symmetric] using t(1) by (simp add: s1_def idx add.commute)
  moreover have "line_ok t (take i xs @ c # drop i xs) (Suc i)" using ok1 line_ok_same [OF t(2)] by simp
  ultimately show ?thesis by blast
qed

subsection \<open>Deleting a character\<close>

definition redraw_delete :: "'a console_scheme \<Rightarrow> 'a console_scheme option" where
  "redraw_delete s =
     (let s = snd (dec_textCursor s);
          altered_cmd = cmd_row s 0 + ucast (cursor_pos_idx s);
          temp = text_cursor s
      in Option.bind (strlen (hmem s) altered_cmd) (\<lambda>n.
           Option.bind (print_str altered_cmd n s) (\<lambda>s.
             let s = s\<lparr>text_cursor := temp\<rparr>
             in Some (plot_text_cursor (char_at_cursor s) s))))"

lemma redraw_delete_returns:
  assumes "display_ok s" and "line_ok s xs i"
  shows "\<exists>t. redraw_delete s = Some t \<and> same_text s t"
proof -
  let ?s1 = "snd (dec_textCursor s)"
  have s1: "same_text s ?s1" by simp
  let ?p = "cmd_row ?s1 0 + ucast (cursor_pos_idx ?s1)"
  have "is_cstr (hmem s) (cmd_row s 0 + of_nat i) (drop i xs)"
    using assms(2) by (intro row_holds_cstr) (auto simp: line_ok_def)
  moreover have "?p = cmd_row s 0 + of_nat i"
    using assms(2) same_text_row [OF s1] same_text_fields [OF s1] by (simp add: line_ok_def ucast_idx)
  ultimately obtain n where n: "strlen (hmem ?s1) ?p = Some n"
    using strlen_cstr same_text_fields [OF s1] by fastforce
  obtain u where u: "print_str ?p n ?s1 = Some u" "same_text s u"
    using print.after [OF assms(1) s1] by blast
  let ?u = "u\<lparr>text_cursor := text_cursor ?s1\<rparr>"
  have "same_text s (plot_text_cursor (char_at_cursor ?u) ?u)"
    by (rule same_text_trans [OF same_text_trans [OF u(2) same_text_cursor] plot_same(1)])
  moreover have "redraw_delete s = Some (plot_text_cursor (char_at_cursor ?u) ?u)"
    unfolding redraw_delete_def Let_def using n u(1) by simp
  ultimately show ?thesis by blast
qed

lemma handle_delete_inside:
  assumes "\<not> is_break" and "cursor_pos_idx s \<noteq> 0" and "cursor_pos_idx s \<noteq> end_idx s"
  shows "handle_delete is_break s =
    (let u = unplot_text_cursor (char_at_cursor s) s;
         curr_pos = cmd_row u 0 + ucast (cursor_pos_idx u)
     in Option.bind (clear_x_cells (ucast (end_idx u) - ucast (cursor_pos_idx u))
          (u\<lparr>hmem := memcpy (hmem u) (curr_pos - 1) curr_pos (ucast (end_idx u) - ucast (cursor_pos_idx u) + 1)\<rparr>))
        (\<lambda>s. redraw_delete (s\<lparr>end_idx := end_idx s - 1, cursor_pos_idx := cursor_pos_idx s - 1\<rparr>)))"
proof -
  let ?u = "unplot_text_cursor (char_at_cursor s) s"
  have "cursor_pos_idx ?u = cursor_pos_idx s" "end_idx ?u = end_idx s"
    using same_text_fields [OF plot_same(2)] by blast+
  then show ?thesis
    using assms by (simp add: handle_delete_def redraw_delete_def Let_def case_prod_beta)
qed

lemma update_order:
  "s\<lparr>cursor_pos_idx := c, end_idx := e, hmem := m\<rparr> = s\<lparr>hmem := m, cursor_pos_idx := c, end_idx := e\<rparr>"
  "s\<lparr>end_idx := e, cursor_pos_idx := c\<rparr> = s\<lparr>cursor_pos_idx := c, end_idx := e\<rparr>"
  for s :: "'a console_scheme"
  by (cases s; simp)+

lemma delete_end_edit:
  assumes "display_ok s" and "line_ok s xs i" and "0 < i" and "i = length xs"
  shows "\<exists>t. handle_delete False s = Some t \<and> line_ok t (butlast xs) (i - 1) \<and> edited s t"
proof -
  obtain ys y where xs: "xs = ys @ [y]" using assms(3,4) by (cases xs rule: rev_cases) auto
  have n: "Suc (length ys) < 256" and idx: "end_idx s = of_nat (Suc (length ys))" "cursor_pos_idx s = of_nat (Suc (length ys))"
    and row: "row_holds (hmem s) (cmd_row s 0) (ys @ [y])"
    using assms(2,4) xs by (auto simp: line_ok_def)
  let ?p = "cmd_row s 0"
  let ?u = "unplot_text_cursor (char_at_cursor s) s"
  have u: "same_text s ?u" by simp
  define m where "m = (hmem s)(?p + of_nat (length ys) := 0)"
  define s1 where "s1 = ?u\<lparr>hmem := m, cursor_pos_idx := of_nat (length ys), end_idx := of_nat (length ys)\<rparr>"
  define t where "t = plot_text_cursor (char_at_cursor (snd (dec_textCursor s1))) (snd (dec_textCursor s1))"
  have t: "same_text s1 t" unfolding t_def by (rule same_text_trans [OF dec_same plot_same(1)])
  have pos: "cursor_pos_idx s \<noteq> 0" using n by (simp only: idx word_unat_eq_iff unat_idx) simp
  have "handle_delete False s = Some t"
    using same_text_fields [OF u] same_text_row [OF u] pos idx n
    by (simp add: handle_delete_def Let_def case_prod_beta t_def s1_def m_def ucast_idx update_order)
  moreover have "edited s t"
  proof (rule editedI [OF u, of m])
    show "m a = hmem s a" if "256 \<le> a - ?p" for a
      using outside_row [OF that, of "length ys"] n by (simp add: m_def)
    show "same_text (?u\<lparr>hmem := m, cursor_pos_idx := of_nat (length ys), end_idx := of_nat (length ys)\<rparr>) t"
      using t by (simp only: s1_def)
  qed
  moreover have "line_ok s1 ys (length ys)"
    using assms(2) row_delete_last [OF row n] same_text_row [OF u] n
    by (simp add: line_ok_def s1_def m_def xs)
  then have "line_ok t ys (length ys)" using line_ok_same [OF t] by simp
  ultimately show ?thesis using assms(4) xs by auto
qed


lemma delete_inside_edit:
  assumes "display_ok s" and "line_ok s xs i" and "0 < i" and "i < length xs"
  shows "\<exists>t. handle_delete False s = Some t \<and>
    line_ok t (take (i - 1) xs @ drop i xs) (i - 1) \<and> edited s t"
proof -
  have n: "length xs < 256" and idx: "end_idx s = of_nat (length xs)" "cursor_pos_idx s = of_nat i"
    and row: "row_holds (hmem s) (cmd_row s 0) xs" and nz: "0 \<notin> set xs"
    using assms(2) by (auto simp: line_ok_def)
  let ?p = "cmd_row s 0"
  let ?u = "unplot_text_cursor (char_at_cursor s) s"
  have u: "same_text s ?u" by simp
  let ?ys = "take (i - 1) xs @ drop i xs"
  define m where "m = memcpy (hmem s) (?p + of_nat (i - 1)) (?p + of_nat i) (of_nat (length xs - (i - 1)))"
  have len: "ucast (end_idx s) - ucast (cursor_pos_idx s) + 1 = (of_nat (length xs - (i - 1)) :: u32)"
    using n assms(3,4) by (simp add: idx ucast_idx of_nat_diff)
  have pred: "?p + of_nat i - 1 = ?p + of_nat (i - 1)" using assms(3) by (simp add: of_nat_diff)
  have m: "m = memcpy (hmem ?u) (cmd_row ?u 0 + ucast (cursor_pos_idx ?u) - 1) (cmd_row ?u 0 + ucast (cursor_pos_idx ?u))
      (ucast (end_idx ?u) - ucast (cursor_pos_idx ?u) + 1)"
    using same_text_fields [OF u] same_text_row [OF u] n assms(4)
    by (simp only: len m_def) (simp only: idx ucast_idx pred)
  have "display_ok (?u\<lparr>hmem := m\<rparr>)" using assms(1) same_text_display [OF u] by simp
  then obtain v where v: "clear_x_cells (ucast (end_idx ?u) - ucast (cursor_pos_idx ?u)) (?u\<lparr>hmem := m\<rparr>) = Some v"
      "same_text (?u\<lparr>hmem := m\<rparr>) v"
    using clear_x_cells_returns by blast
  have vf: "hmem v = m" "end_idx v - 1 = of_nat (length xs - 1)" "cursor_pos_idx v - 1 = of_nat (i - 1)"
    using same_text_fields [OF v(2)] same_text_fields [OF u] idx assms(3,4) by (simp_all add: of_nat_diff)
  define s1 where "s1 = v\<lparr>end_idx := end_idx v - 1, cursor_pos_idx := cursor_pos_idx v - 1\<rparr>"
  have s1: "same_text (?u\<lparr>hmem := m, cursor_pos_idx := of_nat (i - 1), end_idx := of_nat (length xs - 1)\<rparr>) s1"
  proof -
    have "s1 = v\<lparr>hmem := m, cursor_pos_idx := of_nat (i - 1), end_idx := of_nat (length xs - 1)\<rparr>"
      using vf by (cases v) (simp add: s1_def)
    then show ?thesis using same_text_updates [OF v(2)] by simp
  qed
  have "row_holds m ?p ?ys"
    using row_delete [OF row n, of "i - 1"] assms(3,4) by (simp add: m_def)
  then have ok: "line_ok (?u\<lparr>hmem := m, cursor_pos_idx := of_nat (i - 1), end_idx := of_nat (length xs - 1)\<rparr>) ?ys (i - 1)"
    using assms(2-4) same_text_row [OF u] nz
    by (auto simp: line_ok_def min_def dest: in_set_takeD in_set_dropD)
  then have ok1: "line_ok s1 ?ys (i - 1)" using line_ok_same [OF s1] by simp
  have "display_ok s1"
    using assms(1) same_text_display [OF u] same_text_display [OF s1] by simp
  then obtain t where t: "redraw_delete s1 = Some t" "same_text s1 t"
    using redraw_delete_returns [OF _ ok1] by blast
  have "handle_delete False s = Some t"
  proof -
    have "cursor_pos_idx s \<noteq> 0" "cursor_pos_idx s \<noteq> end_idx s"
      using n assms(3,4) by (simp_all add: idx word_unat_eq_iff unat_idx)
    then show ?thesis
      using v(1) t(1) by (simp add: handle_delete_inside Let_def m [symmetric] s1_def)
  qed
  moreover have "edited s t"
  proof (rule editedI [OF u])
    show "m a = hmem s a" if a: "256 \<le> a - ?p" for a
    proof -
      have "m = copied (hmem s) (?p + of_nat (i - 1)) (?p + of_nat i) (of_nat (length xs - (i - 1)))"
        using assms(3) memcpy_left [of "hmem s" ?p "i - 1"] by (simp add: m_def del: of_nat_Suc)
      moreover have "i - 1 + (length xs - (i - 1)) \<le> 256" using n assms(4) by simp
      ultimately show ?thesis using copied_outside_row [OF a] by metis
    qed
    show "same_text (?u\<lparr>hmem := m, cursor_pos_idx := of_nat (i - 1), end_idx := of_nat (length xs - 1)\<rparr>) t"
      by (rule same_text_trans [OF s1 t(2)])
  qed
  moreover have "line_ok t ?ys (i - 1)" using ok1 line_ok_same [OF t(2)] by simp
  ultimately show ?thesis by blast
qed

lemma delete_edit:
  assumes "display_ok s" and "line_ok s xs i" and "0 < i"
  shows "\<exists>t. handle_delete False s = Some t \<and>
    line_ok t (take (i - 1) xs @ drop i xs) (i - 1) \<and> edited s t"
proof (cases "i = length xs")
  case True
  then show ?thesis using delete_end_edit [OF assms True] by (simp add: butlast_conv_take)
next
  case False
  then have "i < length xs" using assms(2) by (simp add: line_ok_def)
  then show ?thesis by (rule delete_inside_edit [OF assms])
qed

end
