(* ===== verification/Command_Line.thy ===== *)
theory Command_Line
  imports Editing
begin

text \<open>
  The specification of the line editor and its refinement: a line of characters with a position,
  caps lock and shift, and what each key does to them. Every sequence of editing keys has on the
  terminal the effect it has on the specification.
\<close>

subsection \<open>The specification\<close>

record editor =
  line_text :: "u8 list"
  line_pos :: nat
  caps_on :: bool
  shift_on :: bool

text \<open>The character a key types; \<open>None\<close> for a key without one.\<close>

definition typed_char :: "bool \<Rightarrow> bool \<Rightarrow> u16 \<Rightarrow> u8 option" where
  "typed_char caps shift k =
     (case map_of base_printable_keycode_mappings k of
        None \<Rightarrow> None
      | Some cs \<Rightarrow>
          if shift \<or> caps \<and> isalpha (sint (hd cs))
          then map_option hd (map_of modified_printable_keycode_mappings k) else Some (hd cs))"

text \<open>
  The effect of pressing (\<open>\<not> is_break\<close>) or releasing a key. The arrows act both times. The keys that
  change the line as a whole are not editing keys, and a key without a character has no specified
  effect.
\<close>

definition edit_key :: "u16 \<Rightarrow> bool \<Rightarrow> editor \<Rightarrow> editor option" where
  "edit_key k is_break e =
     (if k \<in> {KEY_DOWN_ARROW, KEY_UP_ARROW, KEY_RETURN_ENTER} then None
      else if k = KEY_RIGHT_ARROW then
        Some (e\<lparr>line_pos := (if line_pos e < length (line_text e) then Suc (line_pos e) else line_pos e)\<rparr>)
      else if k = KEY_LEFT_ARROW then Some (e\<lparr>line_pos := line_pos e - 1\<rparr>)
      else if k = KEY_TAB then Some e
      else if k = KEY_DELETE_BACKSPACE then
        Some (if is_break \<or> line_pos e = 0 then e
              else e\<lparr>line_text := take (line_pos e - 1) (line_text e) @ drop (line_pos e) (line_text e),
                     line_pos := line_pos e - 1\<rparr>)
      else if k = KEY_CAPS_LOCK then Some (if is_break then e else e\<lparr>caps_on := \<not> caps_on e\<rparr>)
      else if k \<in> {KEY_L_SHIFT, KEY_R_SHIFT} then Some (e\<lparr>shift_on := \<not> is_break\<rparr>)
      else if k \<in> {KEY_L_CTRL, KEY_R_CTRL, KEY_L_ALT, KEY_R_ALT, KEY_L_GUI, KEY_R_GUI} then Some e
      else
        (case typed_char (caps_on e) (shift_on e) k of
           None \<Rightarrow> None
         | Some c \<Rightarrow>
             Some (if is_break \<or> length (line_text e) = 255 then e
                   else e\<lparr>line_text := take (line_pos e) (line_text e) @ c # drop (line_pos e) (line_text e),
                          line_pos := Suc (line_pos e)\<rparr>)))"

primrec edit_keys :: "(u16 \<times> bool) list \<Rightarrow> editor \<Rightarrow> editor option" where
  "edit_keys [] e = Some e"
| "edit_keys (k # ks) e = Option.bind (edit_key (fst k) (snd k) e) (edit_keys ks)"

definition represents :: "'a line_editor_scheme \<Rightarrow> editor \<Rightarrow> bool" where
  "represents s e \<longleftrightarrow>
     display_ok s \<and> line_ok s (line_text e) (line_pos e) \<and> \<not> catch_incoming_scancodes s \<and>
     caps_active s = caps_on e \<and> shift_active s = shift_on e \<and>
     modify_incoming_scancodes s = (shift_on e \<or> caps_on e)"

text \<open>The arrays of key classes are somewhere in memory.\<close>

definition image_ok :: "('s, 'b) editor_image_scheme \<Rightarrow> bool" where
  "image_ok im \<longleftrightarrow> modifier_keycodes_at im \<noteq> NULL \<and> special_keycodes_at im \<noteq> NULL \<and> signal_keycodes_at im \<noteq> NULL"

subsection \<open>Key classes\<close>

lemma low_byte_eq: "k < 256 \<Longrightarrow> l < 256 \<Longrightarrow> (ucast (ucast (k :: u16) :: u32) :: u8) = ucast l \<longleftrightarrow> k = l"
proof -
  assume "k < 256" "l < 256"
  then have "unat k < 256" "unat l < 256" by (simp_all add: word_less_nat_alt)
  moreover from this have "unat (ucast l :: u8) = unat l" and k: "unat (ucast k :: u32) = unat k"
    by (simp_all add: unsigned_ucast_eq take_bit_nat_eq_self)
  moreover have "unat (ucast (ucast k :: u32) :: u8) = unat k"
    using \<open>unat k < 256\<close> k
    by (simp only: unsigned_ucast_eq [where ?'a = nat and w = "ucast k :: u32" and ?'c = 8])
      (simp add: take_bit_nat_eq_self)
  ultimately show ?thesis by (simp only: word_unat_eq_iff)
qed

lemma key_class:
  assumes "p \<noteq> NULL" and "k < 256" and "\<forall>l \<in> set ks. l < 256" and "length ks < 256"
  shows "isInArray (const_array p (map ucast ks)) p (ucast (k :: u16)) (of_nat (length (map ucast ks :: u8 list)))
    \<longleftrightarrow> k \<in> set ks"
proof -
  have "isInArray (const_array p (map ucast ks)) p (ucast k) (of_nat (length (map ucast ks :: u8 list)))
      \<longleftrightarrow> (ucast (ucast k :: u32) :: u8) \<in> set (map ucast ks)"
    using assms(1,4) by (intro isInArray_list const_array_holds) simp_all
  also have "\<dots> \<longleftrightarrow> k \<in> set ks"
    using assms(2,3) low_byte_eq by auto
  finally show ?thesis .
qed

lemma key_classes:
  assumes "image_ok im" and "k < 256"
  shows "isSpecialKeyCode im k \<longleftrightarrow> k \<in> {KEY_RIGHT_ARROW, KEY_LEFT_ARROW, KEY_DOWN_ARROW, KEY_UP_ARROW,
      KEY_TAB, KEY_DELETE_BACKSPACE, KEY_RETURN_ENTER}"
    and "isModifierKeyCode im k \<longleftrightarrow> k \<in> {KEY_CAPS_LOCK, KEY_L_SHIFT, KEY_R_SHIFT}"
    and "isSignalGeneratingKeyCode im k \<longleftrightarrow>
      k \<in> {KEY_L_CTRL, KEY_R_CTRL, KEY_L_ALT, KEY_R_ALT, KEY_L_GUI, KEY_R_GUI}"
proof -
  show "isSpecialKeyCode im k \<longleftrightarrow> k \<in> {KEY_RIGHT_ARROW, KEY_LEFT_ARROW, KEY_DOWN_ARROW, KEY_UP_ARROW,
      KEY_TAB, KEY_DELETE_BACKSPACE, KEY_RETURN_ENTER}"
    unfolding isSpecialKeyCode_def special_keycodes_def
    by (subst key_class) (use assms in \<open>simp_all add: image_ok_def keycode_defs\<close>)
  show "isModifierKeyCode im k \<longleftrightarrow> k \<in> {KEY_CAPS_LOCK, KEY_L_SHIFT, KEY_R_SHIFT}"
    unfolding isModifierKeyCode_def modifier_keycodes_def
    by (subst key_class) (use assms in \<open>simp_all add: image_ok_def keycode_defs\<close>)
  show "isSignalGeneratingKeyCode im k \<longleftrightarrow>
      k \<in> {KEY_L_CTRL, KEY_R_CTRL, KEY_L_ALT, KEY_R_ALT, KEY_L_GUI, KEY_R_GUI}"
    unfolding isSignalGeneratingKeyCode_def signal_generating_keycodes_def
    by (subst key_class) (use assms in \<open>simp_all add: image_ok_def keycode_defs\<close>)
qed

text \<open>The tables.\<close>

lemma base_table: "\<forall>(k, cs) \<in> set base_printable_keycode_mappings. k < 0x68 \<and> cs \<noteq> [] \<and> hd cs \<noteq> 0"
  by (simp add: base_printable_keycode_mappings_def)

lemma modified_table: "\<forall>(k, cs) \<in> set modified_printable_keycode_mappings. k < 0x39 \<and> cs \<noteq> [] \<and> hd cs \<noteq> 0"
  by (simp add: modified_printable_keycode_mappings_def)

lemma base_mapped:
  assumes "map_of base_printable_keycode_mappings k = Some cs"
  shows "k < 0x68" "base_printable_char past z k = hd cs" "hd cs \<noteq> 0"
proof -
  have *: "k < 0x68" "cs \<noteq> []" "hd cs \<noteq> 0" using base_table map_of_SomeD [OF assms] by auto
  then show "k < 0x68" "hd cs \<noteq> 0" by simp_all
  show "base_printable_char past z k = hd cs"
    using * assms by (simp add: base_printable_char_def table_char_def)
qed

lemma modified_mapped:
  assumes "map_of modified_printable_keycode_mappings k = Some cs"
  shows "modified_printable_char past z k = hd cs" "hd cs \<noteq> 0"
proof -
  have *: "k < 0x39" "cs \<noteq> []" "hd cs \<noteq> 0" using modified_table map_of_SomeD [OF assms] by auto
  then show "hd cs \<noteq> 0" by simp
  show "modified_printable_char past z k = hd cs"
    using * assms by (simp add: modified_printable_char_def table_char_def)
qed

lemma typed_char_printed:
  assumes "typed_char (caps_active s) (shift_active s) k = Some c"
    and "modify_incoming_scancodes s = (shift_active s \<or> caps_active s)"
  shows "printed_char im k s = c" "c \<noteq> 0" "k < 0x68" "isKeycodePrintable im m k"
proof -
  obtain cs where cs: "map_of base_printable_keycode_mappings k = Some cs"
    using assms(1) by (auto simp: typed_char_def split: option.splits)
  note b = base_mapped [OF cs]
  show "k < 0x68" "isKeycodePrintable im m k" using b by (simp_all add: isKeycodePrintable_def)
  have "printed_char im k s = c \<and> c \<noteq> 0"
    using assms cs b modified_mapped
    by (auto simp: printed_char_def typed_char_def Let_def split: if_splits)
  then show "printed_char im k s = c" "c \<noteq> 0" by simp_all
qed


subsection \<open>One key\<close>

text \<open>What an edit leaves alone.\<close>

definition line_frame :: "'a line_editor_scheme \<Rightarrow> 'a line_editor_scheme \<Rightarrow> bool" where
  "line_frame s t \<longleftrightarrow>
     (\<forall>a. 256 \<le> a - cmd_row s 0 \<longrightarrow> hmem t a = hmem s a) \<and> cmd_row t = cmd_row s \<and>
     curr_command_idx t = curr_command_idx s"

lemma line_frame_refl [simp]: "line_frame s s"
  by (simp add: line_frame_def)

lemma line_frame_trans: "line_frame s t \<Longrightarrow> line_frame t u \<Longrightarrow> line_frame s u"
  by (simp add: line_frame_def)

lemma edited_facts:
  assumes "edited s t"
  shows "line_frame s t" "display_ok t = display_ok s" "catch_incoming_scancodes t = catch_incoming_scancodes s"
    "caps_active t = caps_active s" "shift_active t = shift_active s"
    "modify_incoming_scancodes t = modify_incoming_scancodes s"
    "temp_curr_command_buff t = temp_curr_command_buff s" "command_buff t = command_buff s"
proof -
  obtain m c e where t: "same_text (s\<lparr>hmem := m, cursor_pos_idx := c, end_idx := e\<rparr>) t"
    and m: "\<forall>a. 256 \<le> a - cmd_row s 0 \<longrightarrow> m a = hmem s a"
    using assms by (auto simp: edited_def)
  show "line_frame s t"
    using same_text_fields [OF t] same_text_row [OF t] m by (simp add: line_frame_def)
  show "display_ok t = display_ok s" using same_text_display [OF t] by simp
  show "catch_incoming_scancodes t = catch_incoming_scancodes s" "caps_active t = caps_active s"
    "shift_active t = shift_active s" "modify_incoming_scancodes t = modify_incoming_scancodes s"
    "temp_curr_command_buff t = temp_curr_command_buff s" "command_buff t = command_buff s"
    using t by (auto simp: same_text_def)
qed

lemma modifiers_frame [simp]:
  "line_ok (s\<lparr>caps_active := b\<rparr>) = line_ok s" "line_ok (s\<lparr>shift_active := b\<rparr>) = line_ok s"
  "line_ok (s\<lparr>modify_incoming_scancodes := b\<rparr>) = line_ok s"
  "display_ok (s\<lparr>caps_active := b\<rparr>) = display_ok s" "display_ok (s\<lparr>shift_active := b\<rparr>) = display_ok s"
  "display_ok (s\<lparr>modify_incoming_scancodes := b\<rparr>) = display_ok s"
  "cmd_row (s\<lparr>caps_active := b\<rparr>) = cmd_row s" "cmd_row (s\<lparr>shift_active := b\<rparr>) = cmd_row s"
  "cmd_row (s\<lparr>modify_incoming_scancodes := b\<rparr>) = cmd_row s"
  by (simp_all add: fun_eq_iff line_ok_def display_ok_def screen_ok_def cmd_row_def)

lemma edited_represents:
  assumes "represents s e" and "edited s t" and "line_ok t xs i"
  shows "represents t (e\<lparr>line_text := xs, line_pos := i\<rparr>)" "line_frame s t"
  using assms edited_facts [OF assms(2)] by (simp_all add: represents_def)

lemma handle_tab_frame:
  assumes "display_ok s"
  shows "\<exists>t. handle_tab s = Some t \<and> same_text s t"
proof (cases "cursor_pos_idx s = 0")
  case True
  let ?u = "unplot_text_cursor (char_at_cursor s) s"
  have "\<exists>t. for_loop_opt 0 TAB_TEXT_CELL_COUNT (\<lambda>_. inc_textCursor) ?u = Some t \<and> same_text s t"
  proof (rule for_loop_opt_invariant [where P = "\<lambda>_ t. same_text s t"])
    show "\<exists>t'. inc_textCursor t = Some t' \<and> same_text s t'" if "same_text s t" for t
      by (rule inc.after [OF assms that])
  qed simp_all
  then show ?thesis
    using True same_text_trans [OF _ plot_same(1)]
    by (auto simp: handle_tab_def inc_textCursor_x_times_def Let_def)
qed (simp add: handle_tab_def autofill_command_def)

text \<open>The specification and the code agree on every key.\<close>

lemma delete_refines:
  assumes "represents s e" and "edit_key KEY_DELETE_BACKSPACE is_break e = Some e'"
  shows "\<exists>t. handle_delete is_break s = Some t \<and> represents t e' \<and> line_frame s t"
proof (cases "is_break \<or> line_pos e = 0")
  case True
  then have "e' = e" using assms(2) by (simp add: edit_key_def keycode_defs)
  moreover have "handle_delete is_break s = Some s"
    using True assms(1) by (auto simp: handle_delete_def line_ok_def represents_def)
  ultimately show ?thesis using assms(1) by simp
next
  case False
  then obtain t where t: "handle_delete False s = Some t" "edited s t"
      "line_ok t (take (line_pos e - 1) (line_text e) @ drop (line_pos e) (line_text e)) (line_pos e - 1)"
    using delete_edit [of s "line_text e" "line_pos e"] assms(1) by (auto simp: represents_def)
  moreover have "e' = e\<lparr>line_text := take (line_pos e - 1) (line_text e) @ drop (line_pos e) (line_text e),
      line_pos := line_pos e - 1\<rparr>"
    using assms(2) False by (simp add: edit_key_def keycode_defs)
  ultimately show ?thesis using False edited_represents [OF assms(1) t(2,3)] by simp
qed

lemma special_refines:
  assumes "represents s e" and "edit_key k is_break e = Some e'"
    and "k \<in> {KEY_RIGHT_ARROW, KEY_LEFT_ARROW, KEY_TAB, KEY_DELETE_BACKSPACE}"
  shows "\<exists>t. handle_special_keycode im k is_break s = Some t \<and> represents t e' \<and> line_frame s t"
proof -
  have disp: "display_ok s" and line: "line_ok s (line_text e) (line_pos e)"
    using assms(1) by (simp_all add: represents_def)
  consider (right) "k = KEY_RIGHT_ARROW" | (left) "k = KEY_LEFT_ARROW" | (tab) "k = KEY_TAB"
    | (delete) "k = KEY_DELETE_BACKSPACE"
    using assms(3) by auto
  then show ?thesis
  proof cases
    case right
    obtain t where t: "inc_cursors s = Some t" "edited s t"
        "line_ok t (line_text e) (if line_pos e < length (line_text e) then Suc (line_pos e) else line_pos e)"
      using inc_cursors_edit [OF disp line] by blast
    have "e' = e\<lparr>line_text := line_text e,
        line_pos := (if line_pos e < length (line_text e) then Suc (line_pos e) else line_pos e)\<rparr>"
      using assms(2) right by (simp add: edit_key_def keycode_defs)
    then show ?thesis
      using t(1) right edited_represents [OF assms(1) t(2,3)] by (simp add: handle_special_keycode_def)
  next
    case left
    have t: "line_ok (dec_cursors s) (line_text e) (line_pos e - 1)" "edited s (dec_cursors s)"
      using dec_cursors_edit [OF disp line] by simp_all
    have "e' = e\<lparr>line_text := line_text e, line_pos := line_pos e - 1\<rparr>"
      using assms(2) left by (simp add: edit_key_def keycode_defs)
    then show ?thesis
      using left edited_represents [OF assms(1) t(2,1)] by (simp add: handle_special_keycode_def keycode_defs)
  next
    case tab
    obtain t where t: "handle_tab s = Some t" "same_text s t" using handle_tab_frame [OF disp] by blast
    have "e' = e\<lparr>line_text := line_text e, line_pos := line_pos e\<rparr>"
      using assms(2) tab by (simp add: edit_key_def keycode_defs)
    moreover have "handle_special_keycode im k is_break s = Some t"
      using t(1) tab by (simp add: handle_special_keycode_def keycode_defs)
    moreover have "line_ok t (line_text e) (line_pos e)" "edited s t"
      using line line_ok_same [OF t(2)] edited_same [OF edited_refl t(2)] by simp_all
    ultimately show ?thesis using edited_represents [OF assms(1)] by metis
  next
    case delete
    then have "handle_special_keycode im k is_break s = handle_delete is_break s"
      by (simp add: handle_special_keycode_def keycode_defs)
    then show ?thesis using delete_refines [OF assms(1)] assms(2) delete by simp
  qed
qed

lemma modifier_refines:
  assumes "represents s e" and "edit_key k is_break e = Some e'"
    and "k \<in> {KEY_CAPS_LOCK, KEY_L_SHIFT, KEY_R_SHIFT}"
  shows "represents (handle_modifier_keycode k is_break s) e' \<and> line_frame s (handle_modifier_keycode k is_break s)"
proof -
  have "edit_key k is_break e = Some (if k = KEY_CAPS_LOCK then if is_break then e else e\<lparr>caps_on := \<not> caps_on e\<rparr>
      else e\<lparr>shift_on := \<not> is_break\<rparr>)"
    using assms(3) by (auto simp: edit_key_def keycode_defs)
  then have "e' = (if k = KEY_CAPS_LOCK then if is_break then e else e\<lparr>caps_on := \<not> caps_on e\<rparr>
      else e\<lparr>shift_on := \<not> is_break\<rparr>)"
    using assms(2) by simp
  then show ?thesis
    using assms(1,3) by (auto simp: handle_modifier_keycode_def Let_def represents_def line_frame_def keycode_defs)
qed

text \<open>A key that prints a character: nothing happens when it is released or the line is full.\<close>

lemma printable_refines:
  assumes "represents s e" and "typed_char (caps_on e) (shift_on e) k = Some c"
    and "e' = (if is_break \<or> length (line_text e) = 255 then e
      else e\<lparr>line_text := take (line_pos e) (line_text e) @ c # drop (line_pos e) (line_text e),
             line_pos := Suc (line_pos e)\<rparr>)"
  shows "isKeycodePrintable im (hmem s) k \<and> (\<exists>t. (if is_break then Some s else handle_printable_keycode im k s) = Some t \<and>
    represents t e' \<and> line_frame s t)"
proof -
  have disp: "display_ok s" and line: "line_ok s (line_text e) (line_pos e)"
    and c: "typed_char (caps_active s) (shift_active s) k = Some c"
    and m: "modify_incoming_scancodes s = (shift_active s \<or> caps_active s)"
    using assms(1,2) by (simp_all add: represents_def)
  note typed = typed_char_printed(1) [OF c m, where im = im] typed_char_printed(2,3) [OF c m]
    typed_char_printed(4) [OF c m, where im = im and m = "hmem s"]
  have full: "end_idx s \<noteq> ucast (SHELL_INPUT_BUFF_SIZE - 1) \<longleftrightarrow> length (line_text e) \<noteq> 255"
    using line by (simp add: line_ok_def SHELL_INPUT_BUFF_SIZE_def word_unat_eq_iff unat_idx)
  show ?thesis
  proof (cases "is_break \<or> length (line_text e) = 255")
    case True
    then show ?thesis using typed(4) full assms(1,3) by (auto simp: handle_printable_keycode_def)
  next
    case False
    then have "length (line_text e) < 255" using line by (simp add: line_ok_def)
    then obtain t where t: "place_char_at_cursor_pos c s = Some (True, t)" "edited s t"
        "line_ok t (take (line_pos e) (line_text e) @ c # drop (line_pos e) (line_text e)) (Suc (line_pos e))"
      using place_char_edit [OF disp line _ typed(2)] by blast
    then have "handle_printable_keycode im k s = Some t"
      using False full typed(1) by (simp add: handle_printable_keycode_def)
    then show ?thesis using assms(3) typed(4) False edited_represents [OF assms(1) t(2,3)] by simp
  qed
qed

text \<open>The dispatcher hands every key to the handler of its class.\<close>

lemma handle_key_refines:
  assumes "image_ok im" and "represents s e" and "k < 256" and "edit_key k is_break e = Some e'"
  shows "\<exists>t. handle_keycode im k is_break s = Some t \<and> represents t e' \<and> line_frame s t"
proof -
  have catch: "\<not> catch_incoming_scancodes s" using assms(2) by (simp add: represents_def)
  note classes = key_classes [OF assms(1,3)]
  consider (special) "k \<in> {KEY_RIGHT_ARROW, KEY_LEFT_ARROW, KEY_TAB, KEY_DELETE_BACKSPACE}" "isSpecialKeyCode im k"
    | (modifier) "k \<in> {KEY_CAPS_LOCK, KEY_L_SHIFT, KEY_R_SHIFT}" "\<not> isSpecialKeyCode im k" "isModifierKeyCode im k"
    | (signal) "k \<in> {KEY_L_CTRL, KEY_R_CTRL, KEY_L_ALT, KEY_R_ALT, KEY_L_GUI, KEY_R_GUI}"
      "\<not> isSpecialKeyCode im k" "\<not> isModifierKeyCode im k" "isSignalGeneratingKeyCode im k"
    | (char) "\<not> isSpecialKeyCode im k" "\<not> isModifierKeyCode im k" "\<not> isSignalGeneratingKeyCode im k"
    using assms(4) by (auto simp: edit_key_def classes keycode_defs split: if_splits)
  then show ?thesis
  proof cases
    case special
    then show ?thesis using special_refines [OF assms(2,4)] catch by (simp add: handle_keycode_def)
  next
    case modifier
    then show ?thesis using modifier_refines [OF assms(2,4)] catch by (simp add: handle_keycode_def)
  next
    case signal
    then have "e' = e" using assms(4) by (auto simp: edit_key_def keycode_defs)
    then show ?thesis
      using signal catch assms(2) by (simp add: handle_keycode_def handle_signal_generating_keycode_def)
  next
    case char
    then have "edit_key k is_break e = (case typed_char (caps_on e) (shift_on e) k of None \<Rightarrow> None
        | Some c \<Rightarrow> Some (if is_break \<or> length (line_text e) = 255 then e
            else e\<lparr>line_text := take (line_pos e) (line_text e) @ c # drop (line_pos e) (line_text e),
                   line_pos := Suc (line_pos e)\<rparr>))"
      unfolding classes by (simp add: edit_key_def)
    then obtain c where c: "typed_char (caps_on e) (shift_on e) k = Some c"
      and e': "e' = (if is_break \<or> length (line_text e) = 255 then e
            else e\<lparr>line_text := take (line_pos e) (line_text e) @ c # drop (line_pos e) (line_text e),
                   line_pos := Suc (line_pos e)\<rparr>)"
      using assms(4) by (auto split: option.splits)
    show ?thesis
      using printable_refines [OF assms(2) c e', of im] char catch by (cases is_break) (simp_all add: handle_keycode_def)
  qed
qed


lemma edit_key_small:
  assumes "edit_key k is_break e = Some e'"
  shows "k < 256"
proof (cases "typed_char (caps_on e) (shift_on e) k")
  case None
  then show ?thesis using assms by (auto simp: edit_key_def keycode_defs split: if_splits)
next
  case (Some c)
  then obtain cs where "map_of base_printable_keycode_mappings k = Some cs"
    by (auto simp: typed_char_def split: option.splits)
  then have "k < 0x68" by (rule base_mapped(1))
  then show ?thesis by (rule less_trans) simp
qed

subsection \<open>Sequences of keys\<close>

lemma handle_all_refines:
  assumes "image_ok im" and "represents s e" and "edit_keys ks e = Some e'"
  shows "\<exists>t. handle_all (handle_keycode im) ks s = Some t \<and> represents t e' \<and> line_frame s t"
  using assms(2,3)
proof (induction ks arbitrary: s e)
  case (Cons k ks)
  obtain e1 where e1: "edit_key (fst k) (snd k) e = Some e1" "edit_keys ks e1 = Some e'"
    using Cons.prems(2) by (auto simp: bind_eq_Some_conv)
  obtain s1 where s1: "handle_keycode im (fst k) (snd k) s = Some s1" "represents s1 e1" "line_frame s s1"
    using handle_key_refines [OF assms(1) Cons.prems(1) edit_key_small [OF e1(1)] e1(1)] by blast
  obtain t where "handle_all (handle_keycode im) ks s1 = Some t" "represents t e'" "line_frame s1 t"
    using Cons.IH [OF s1(2) e1(2)] by blast
  then show ?case using s1(1,3) line_frame_trans by (auto simp: bind_eq_Some_conv)
qed simp

subsection \<open>Properties\<close>

text \<open>
  C27. Refinement: wherever the terminal represents a line with a cursor, every sequence of keys that
  the specification of the line editor covers is handled by the code, without ever getting stuck, and
  afterwards the terminal represents the line the specification arrives at. Nothing outside the row
  of the current line changes in memory, so the history stays as it is.
\<close>

theorem line_editor_refines:
  assumes "image_ok im" and "represents s e" and "edit_keys ks e = Some e'"
  shows "\<exists>t. handle_all (handle_keycode im) ks s = Some t \<and> represents t e' \<and>
    (\<forall>a. 256 \<le> a - cmd_row s 0 \<longrightarrow> hmem t a = hmem s a) \<and> curr_command_idx t = curr_command_idx s"
  using handle_all_refines [OF assms] unfolding line_frame_def by blast

text \<open>An empty line on the screen of the console example.\<close>

definition ex_editor :: line_editor where
  "ex_editor = console.extend (console.truncate (ex_console\<lparr>hmem := (\<lambda>_. 0)\<rparr>))
     \<lparr>saved_position = 0, temp_curr_command_buff = 0x8000, caps_active = False, shift_active = False,
      modify_incoming_scancodes = False, catch_incoming_scancodes = False\<rparr>"

definition ex_image :: "line_editor editor_image" where
  "ex_image =
     \<lparr>terminal_prompt_msg = 0x3000, delims = 0x3100, maybeOS_cmd = 0x3200, echo_cmd = 0x3300,
      maybeOS_logo = 0x3400, unrecognized_msg = 0x3500, strchr_noret = (\<lambda>_ _ _. 0), uninit_out = 0,
      font_file = 0x4000, alloc_fuel = 4, alloc_noflags = (\<lambda>_. 0), modifier_keycodes_at = 0x5000,
      special_keycodes_at = 0x5100, signal_keycodes_at = 0x5200, base_past = (\<lambda>_. 0), modified_past = (\<lambda>_. 0)\<rparr>"

definition empty_line :: editor where
  "empty_line = \<lparr>line_text = [], line_pos = 0, caps_on = False, shift_on = False\<rparr>"

lemma ex_editor_facts:
  "image_ok ex_image" "represents ex_editor empty_line" "cmd_row ex_editor 0 = 0x2000"
proof -
  have "screen_ok ex_editor"
    using ex_console_facts(1)
    by (simp add: ex_editor_def ex_console_def console.defs screen_ok_def colour_offsets_def)
  then show "represents ex_editor empty_line"
    by (simp add: represents_def display_ok_def line_ok_def row_holds_def empty_line_def ex_editor_def
        ex_console_def console.defs cmd_row_def GRAY_def DONT_SET_def)
  show "image_ok ex_image" by (simp add: image_ok_def ex_image_def)
  show "cmd_row ex_editor 0 = 0x2000" by (simp add: cmd_row_def ex_editor_def ex_console_def console.defs)
qed

text \<open>\<open>a\<close>, shift and \<open>b\<close>, left arrow, delete: the line is \<open>B\<close> with the cursor at its start.\<close>

theorem line_editor_refines_witness:
  "\<exists>t. handle_all (handle_keycode ex_image)
      [(KEY_A, False), (KEY_L_SHIFT, False), (KEY_B, False), (KEY_LEFT_ARROW, False),
       (KEY_DELETE_BACKSPACE, False)] ex_editor = Some t \<and>
    represents t \<lparr>line_text = [0x42], line_pos = 0, caps_on = False, shift_on = True\<rparr> \<and>
    curr_command_idx t = curr_command_idx ex_editor"
proof -
  have "edit_keys [(KEY_A, False), (KEY_L_SHIFT, False), (KEY_B, False), (KEY_LEFT_ARROW, False),
       (KEY_DELETE_BACKSPACE, False)] empty_line =
    Some \<lparr>line_text = [0x42], line_pos = 0, caps_on = False, shift_on = True\<rparr>"
    by (simp add: edit_key_def keycode_defs empty_line_def typed_char_def base_printable_keycode_mappings_def
        modified_printable_keycode_mappings_def)
  from line_editor_refines [OF ex_editor_facts(1,2) this] show ?thesis by blast
qed

text \<open>
  From the keyboard to the line: the bytes a sequence of key presses and releases sends, handled
  one interrupt at a time by the decoder and the line editor together, bring the terminal to the line
  that the specification of the editor reaches on the keycodes of these keys.
\<close>

theorem typing_reaches_line:
  assumes "ua \<noteq> NULL" and "image_ok im" and "represents s e"
    and "\<forall>k \<in> set ks. is_key_byte (key_code k)" and "edit_keys (map (key_event oob) ks) e = Some e'"
  shows "\<exists>t. kbd_run ua oob (handle_keycode im) (concat (map key_bytes ks)) (kbd_idle, s) = Some (kbd_idle, t) \<and>
    represents t e'"
proof -
  obtain t where "handle_all (handle_keycode im) (map (key_event oob) ks) s = Some t" "represents t e'"
    using handle_all_refines [OF assms(2,3,5)] by blast
  moreover have "kbd_run ua oob (handle_keycode im) (concat (map key_bytes ks)) (kbd_idle, s) =
      map_option (\<lambda>s. (kbd_idle, s)) (handle_all (handle_keycode im) (map (key_event oob) ks) s)"
    by (rule kbd_stream [OF assms(1,4)])
  ultimately show ?thesis by simp
qed

text \<open>Pressing and releasing \<open>h\<close> and \<open>i\<close>, then the left arrow pressed.\<close>

theorem typing_reaches_line_witness:
  "\<exists>t. kbd_run 0x1000 (\<lambda>_. 0) (handle_keycode ex_image)
      [0x33, 0xF0, 0x33, 0x43, 0xF0, 0x43, 0xE0, 0x6B] (kbd_idle, ex_editor) = Some (kbd_idle, t) \<and>
    represents t \<lparr>line_text = [0x68, 0x69], line_pos = 1, caps_on = False, shift_on = False\<rparr>"
proof -
  let ?ks = "[Make 0x33, Break 0x33, Make 0x43, Break 0x43, ExtMake 0x6B]"
  have ua: "(0x1000 :: u32) \<noteq> NULL" by simp
  have "edit_keys (map (key_event (\<lambda>_. 0)) ?ks) empty_line =
    Some \<lparr>line_text = [0x68, 0x69], line_pos = 1, caps_on = False, shift_on = False\<rparr>"
    by (simp add: edit_key_def keycode_defs empty_line_def typed_char_def base_printable_keycode_mappings_def
        ps2_set2_prefixed_keycodes_def ps2_set2_prefixed_table_def ps2_set2_keycode_def ps2_set2_keycode_table_def)
  moreover have "\<forall>k \<in> set ?ks. is_key_byte (key_code k)"
    by (simp add: is_key_byte_def utility_scancodes_def)
  ultimately show ?thesis
    using typing_reaches_line [OF ua ex_editor_facts(1,2), of ?ks "\<lambda>_. 0"] by simp
qed

end
