(* ===== verification/History.thy ===== *)
theory History
  imports Command_Line
begin

text \<open>
  The command history: finishing a line moves every row of the command buffer down by one, and the
  arrow keys copy an older row into the current one and bring the unfinished line back.
\<close>

subsection \<open>Logging a line\<close>

text \<open>The command buffer after \<open>k\<close> rows, from the last one on, have received the row before them.\<close>

definition rows_moved :: "mem \<Rightarrow> u32 \<Rightarrow> nat \<Rightarrow> mem" where
  "rows_moved m cb k = (\<lambda>a. if 256 * (25 - k) \<le> unat (a - cb) \<and> unat (a - cb) < 6400 then m (a - 256) else m a)"

lemma in_block:
  assumes "n + l < 2 ^ 31"
  shows "a - (p + of_nat n) < (of_nat l :: u32) \<longleftrightarrow> n \<le> unat (a - p) \<and> unat (a - p) < n + l"
proof -
  have e: "a - (p + of_nat n) = a - p - of_nat n" by simp
  have "unat (of_nat l :: u32) = l" using assms by (simp add: unat_of_nat_small)
  then have "a - (p + of_nat n) < of_nat l \<longleftrightarrow> unat (a - p - of_nat n) < l"
    by (simp only: e word_less_nat_alt)
  then show ?thesis using unat_sub_of_nat [of n "a - p"] assms by (auto split: if_splits)
qed

lemma rows_moved_step:
  assumes "k < 24"
  shows "memcpy (rows_moved m cb k) (cb + of_nat (256 * (24 - k))) (cb + of_nat (256 * (23 - k))) 256 =
    rows_moved m cb (Suc k)"
proof -
  let ?N = "256 * (24 - k)"
  let ?d = "cb + of_nat ?N" and ?s = "cb + of_nat (256 * (23 - k))"
  have src: "?s = ?d - 256"
  proof -
    have "256 * (24 - k) = 256 * (23 - k) + 256" using assms by simp
    then show ?thesis by (simp only: of_nat_add) simp
  qed
  have "?d - ?s = 256" unfolding src by simp
  then have "memcpy (rows_moved m cb k) ?d ?s 256 = copied (rows_moved m cb k) ?d ?s 256"
    by (intro memcpy_copied) simp
  also have "\<dots> = rows_moved m cb (Suc k)"
  proof
    fix a
    have w: "a - ?d < 256 \<longleftrightarrow> ?N \<le> unat (a - cb) \<and> unat (a - cb) < ?N + 256"
      using in_block [of ?N 256 a cb] by simp
    have prev: "?s + (a - ?d) = a - 256" by (simp only: src) simp
    have N: "256 * (25 - k) = ?N + 256" "256 * (25 - Suc k) = ?N" "256 \<le> ?N" "?N + 256 \<le> 6400"
      using assms by simp_all
    show "copied (rows_moved m cb k) ?d ?s 256 a = rows_moved m cb (Suc k) a"
    proof (cases "?N \<le> unat (a - cb) \<and> unat (a - cb) < ?N + 256")
      case True
      then have "unat (a - 256 - cb) = unat (a - cb) - 256"
        using unat_sub_of_nat [of 256 "a - cb"] N by (simp add: algebra_simps)
      then have "rows_moved m cb k (a - 256) = m (a - 256)"
        using True N unfolding rows_moved_def by auto
      moreover have "copied (rows_moved m cb k) ?d ?s 256 a = rows_moved m cb k (a - 256)"
        using True w by (simp only: copied_def prev if_True simp_thms)
      moreover have "unat (a - cb) < 6400" using True N(4) by linarith
      then have "rows_moved m cb (Suc k) a = m (a - 256)"
        using True by (simp add: rows_moved_def N(2))
      ultimately show ?thesis by simp
    next
      case False
      then have "copied (rows_moved m cb k) ?d ?s 256 a = rows_moved m cb k a" using w by (simp only: copied_def if_False)
      then show ?thesis using False N by (simp only: rows_moved_def) auto
    qed
  qed
  finally show ?thesis .
qed

lemma rows_moved_loop:
  "for_loop 0 (MAX_NUM_COMMANDS_STORED - 1) (\<lambda>i m.
      let idx = MAX_NUM_COMMANDS_STORED - 1 - i
      in memcpy m (cmd_row s idx) (cmd_row s (idx - 1)) SHELL_INPUT_BUFF_SIZE) m = rows_moved m (command_buff s) 24"
  (is "for_loop 0 ?n ?body m = _")
proof -
  have "for_loop 0 ?n ?body m = rows_moved m (command_buff s) (unat ?n)"
  proof (rule for_loop_invariant [where P = "\<lambda>i t. t = rows_moved m (command_buff s) (unat i)"])
    show "m = rows_moved m (command_buff s) (unat (0 :: u32))"
      by (rule ext) (auto simp: rows_moved_def)
    fix j t assume j: "j < ?n" and t: "t = rows_moved m (command_buff s) (unat j)"
    have k: "unat j < 24" using j by (simp add: MAX_NUM_COMMANDS_STORED_def word_less_nat_alt)
    have r: "cmd_row s (24 - j) = command_buff s + of_nat (256 * (24 - unat j))"
        "cmd_row s (23 - j) = command_buff s + of_nat (256 * (23 - unat j))"
      using k by (simp_all add: cmd_row_def SHELL_INPUT_BUFF_SIZE_def of_nat_diff algebra_simps)
    have "?body j t = rows_moved m (command_buff s) (Suc (unat j))"
      using rows_moved_step [OF k, of m "command_buff s"]
      by (simp add: MAX_NUM_COMMANDS_STORED_def SHELL_INPUT_BUFF_SIZE_def Let_def r t
          del: of_nat_mult of_nat_add)
    moreover have "unat (j + 1) = Suc (unat j)" using j by (rule unat_inc)
    ultimately show "?body j t = rows_moved m (command_buff s) (unat (j + 1))" by simp
  qed simp
  then show ?thesis by (simp add: MAX_NUM_COMMANDS_STORED_def)
qed

lemma log_and_reset_mem:
  "hmem (log_and_reset_input_buffers s) = (\<lambda>a.
     if a - temp_curr_command_buff s < 256 then 0
     else if hmem s (cmd_row s 0) = 0 then hmem s a
     else if unat (a - command_buff s) < 256 then 0
     else if unat (a - command_buff s) < 6400 then hmem s (a - 256) else hmem s a)"
  unfolding log_and_reset_input_buffers_def rows_moved_loop
  by (auto simp: memset_eq rows_moved_def SHELL_INPUT_BUFF_SIZE_def cmd_row_def word_less_nat_alt Let_def)


subsection \<open>The history as a list\<close>

text \<open>Rows 1 to 24 hold the older lines, the youngest first.\<close>

definition history_holds :: "'a console_scheme \<Rightarrow> u8 list list \<Rightarrow> bool" where
  "history_holds s hs \<longleftrightarrow> length hs = 24 \<and>
     (\<forall>i < 24. row_holds (hmem s) (cmd_row s (of_nat (Suc i))) (hs ! i))"

text \<open>The spare row is not in the command buffer.\<close>

definition spare_apart :: "'a line_editor_scheme \<Rightarrow> bool" where
  "spare_apart s \<longleftrightarrow> 6400 \<le> temp_curr_command_buff s - command_buff s \<and> 256 \<le> command_buff s - temp_curr_command_buff s"

lemma row_address: "cmd_row s (of_nat i) = command_buff s + of_nat (256 * i)"
  by (simp add: cmd_row_def SHELL_INPUT_BUFF_SIZE_def)

lemma row_offset:
  assumes "i < 25" and "j < 256"
  shows "unat (cmd_row s (of_nat i) + of_nat j - command_buff s) = 256 * i + j"
proof -
  have "cmd_row s (of_nat i) + of_nat j - command_buff s = of_nat (256 * i + j)"
    unfolding row_address by simp
  then show ?thesis using assms by (simp only:) (simp add: unat_of_nat_small del: of_nat_add of_nat_mult)
qed

lemma spare_offset:
  assumes "spare_apart s" and "unat (a - command_buff s) < 6400"
  shows "256 \<le> a - temp_curr_command_buff s"
proof -
  let ?c = "command_buff s" and ?t = "temp_curr_command_buff s"
  have d: "6400 \<le> unat (?t - ?c)" "256 \<le> unat (?c - ?t)"
    using assms(1) by (simp_all add: spare_apart_def word_le_nat_alt)
  have "a - ?t = (a - ?c) - (?t - ?c)" by simp
  then have "unat (a - ?t) = 4294967296 + unat (a - ?c) - unat (?t - ?c)"
    using unat_sub_of_nat [of "unat (?t - ?c)" "a - ?c"] d assms(2) unat_lt_2p32 [of "?t - ?c"] by simp
  moreover have "?c - ?t = - (?t - ?c)" by simp
  then have "unat (?c - ?t) = 4294967296 - unat (?t - ?c)"
    using unat_sub_of_nat [of "unat (?t - ?c)" 0] d unat_lt_2p32 [of "?t - ?c"] by simp
  ultimately have "256 \<le> unat (a - ?t)" using d(2) by linarith
  then show ?thesis by (simp add: word_le_nat_alt)
qed

lemma row_holds_cong:
  assumes "\<And>j. j < 256 \<Longrightarrow> m' (p' + of_nat j) = m (p + of_nat j)"
  shows "row_holds m' p' xs = row_holds m p xs"
  using assms by (simp add: row_holds_def)

text \<open>Logging a line moves every row, and with it every byte, by one row.\<close>

lemma logged_byte:
  assumes "spare_apart s" and "k < 25" and "j < 256"
  shows "hmem (log_and_reset_input_buffers s) (cmd_row s (of_nat k) + of_nat j) =
    (if hmem s (cmd_row s 0) = 0 then hmem s (cmd_row s (of_nat k) + of_nat j) else if k = 0 then 0
     else hmem s (cmd_row s (of_nat (k - 1)) + of_nat j))"
proof -
  let ?a = "cmd_row s (of_nat k) + of_nat j" and ?t = "log_and_reset_input_buffers s"
  have off: "unat (?a - command_buff s) = 256 * k + j" by (rule row_offset [OF assms(2,3)])
  have prev: "?a - 256 = cmd_row s (of_nat (k - 1)) + of_nat j" if "k \<noteq> 0"
    using that by (cases k) (simp_all add: cmd_row_def SHELL_INPUT_BUFF_SIZE_def algebra_simps)
  have "256 \<le> ?a - temp_curr_command_buff s" using assms by (intro spare_offset) (simp_all add: off)
  then have "\<not> ?a - temp_curr_command_buff s < 256" by simp
  then have "hmem ?t ?a = (if hmem s (cmd_row s 0) = 0 then hmem s ?a else if 256 * k + j < 256 then 0
      else if 256 * k + j < 6400 then hmem s (?a - 256) else hmem s ?a)"
    by (simp only: log_and_reset_mem off if_False)
  moreover have "256 * k + j < 256 \<longleftrightarrow> k = 0" "256 * k + j < 6400" using assms(2,3) by auto
  ultimately have "hmem ?t ?a = (if hmem s (cmd_row s 0) = 0 then hmem s ?a else if k = 0 then 0 else hmem s (?a - 256))"
    by (simp only: if_True)
  then show ?thesis using prev by (cases "k = 0") (simp_all only: if_True if_False simp_thms)
qed

lemma logged_fields:
  "cmd_row (log_and_reset_input_buffers s) = cmd_row s"
  "temp_curr_command_buff (log_and_reset_input_buffers s) = temp_curr_command_buff s"
  "command_buff (log_and_reset_input_buffers s) = command_buff s"
  by (simp_all add: log_and_reset_input_buffers_def fun_eq_iff cmd_row_def)

lemma first_byte:
  assumes "row_holds m p xs" and "0 \<notin> set xs"
  shows "m p = 0 \<longleftrightarrow> xs = []"
proof -
  have "m (p + of_nat 0) = (if 0 < length xs then xs ! 0 else 0)"
    using assms(1) unfolding row_holds_def by (metis zero_less_numeral)
  then show ?thesis using assms(2) by (cases xs) auto
qed

text \<open>The rows from the current one on, before and after.\<close>

lemma logged_rows:
  assumes "line_ok s xs i" and "history_holds s hs" and "spare_apart s" and "k < 25"
  shows "row_holds (hmem (log_and_reset_input_buffers s)) (cmd_row s (of_nat k))
    ((if xs = [] then [] # hs else [] # xs # butlast hs) ! k)"
proof -
  let ?t = "log_and_reset_input_buffers s"
  have row: "row_holds (hmem s) (cmd_row s 0) xs" and nz: "0 \<notin> set xs"
    using assms(1) by (simp_all add: line_ok_def)
  have moved: "row_holds (hmem ?t) (cmd_row s (of_nat k)) ys =
      (if xs = [] then row_holds (hmem s) (cmd_row s (of_nat k)) ys else if k = 0 then row_holds (\<lambda>_. 0) 0 ys
       else row_holds (hmem s) (cmd_row s (of_nat (k - 1))) ys)" for ys
    using logged_byte [OF assms(3,4)] first_byte [OF row nz] by (simp add: row_holds_def)
  have old: "row_holds (hmem s) (cmd_row s (of_nat (Suc i))) (hs ! i)" if "i < 24" for i
    using assms(2) that by (simp add: history_holds_def)
  have len: "length hs = 24" using assms(2) by (simp add: history_holds_def)
  show ?thesis
  proof (cases k)
    case 0
    then show ?thesis using moved [of "[]"] row by (cases "xs = []") (simp_all add: row_holds_def)
  next
    case (Suc j)
    then show ?thesis
      using moved [of "hs ! j"] moved [of "(xs # butlast hs) ! j"] old [of j] old [of "j - 1"] row assms(4) len
      by (cases j) (auto simp: nth_butlast simp del: of_nat_Suc)
  qed
qed

text \<open>
  C28. Logging a finished line: the line becomes the youngest entry of the history, the oldest of the
  24 entries is dropped and the others keep their order; an empty line is not logged. The current
  row and the spare row are empty afterwards, and no byte outside the command buffer and the spare
  row changes.
\<close>

theorem log_line_shifts_history:
  assumes "line_ok s xs i" and "history_holds s hs" and "spare_apart s"
  defines "t \<equiv> log_and_reset_input_buffers s"
  shows "history_holds t (if xs = [] then hs else xs # butlast hs) \<and>
    row_holds (hmem t) (cmd_row t 0) [] \<and> row_holds (hmem t) (temp_curr_command_buff t) [] \<and>
    (\<forall>a. 6400 \<le> a - command_buff s \<longrightarrow> 256 \<le> a - temp_curr_command_buff s \<longrightarrow> hmem t a = hmem s a)"
proof -
  note len = assms(2) [unfolded history_holds_def, THEN conjunct1]
  note rows = logged_rows [OF assms(1-3), folded t_def]
  note t = logged_fields [of s, folded t_def]
  have "history_holds t (if xs = [] then hs else xs # butlast hs)"
    unfolding history_holds_def t(1)
  proof (intro conjI allI impI)
    show "length (if xs = [] then hs else xs # butlast hs) = 24" using len by simp
    fix j :: nat assume "j < 24"
    then show "row_holds (hmem t) (cmd_row s (of_nat (Suc j))) ((if xs = [] then hs else xs # butlast hs) ! j)"
      using rows [of "Suc j"] by (cases "xs = []") (simp_all del: of_nat_Suc)
  qed
  moreover have "row_holds (hmem t) (cmd_row t 0) []" using rows [of 0] t(1) by (cases "xs = []") simp_all
  moreover have "row_holds (hmem t) (temp_curr_command_buff t) []"
    unfolding row_holds_def t(2) by (auto simp: t_def log_and_reset_mem word_less_nat_alt unat_of_nat_small)
  moreover have "hmem t a = hmem s a"
    if "6400 \<le> a - command_buff s" "256 \<le> a - temp_curr_command_buff s" for a
    using that by (simp add: t_def log_and_reset_mem word_le_nat_alt word_less_nat_alt)
  ultimately show ?thesis by blast
qed


text \<open>The line \<open>a\<close> is finished and an empty history gets its first entry.\<close>

definition ex_typed :: line_editor where
  "ex_typed = ex_editor\<lparr>hmem := (\<lambda>_. 0)(0x2000 := 0x61), end_idx := 1, cursor_pos_idx := 1\<rparr>"

lemma ex_typed_facts:
  "line_ok ex_typed [0x61] 1" "history_holds ex_typed (replicate 24 [])" "spare_apart ex_typed" "display_ok ex_typed"
proof -
  have c: "cmd_row ex_typed 0 = 0x2000" "command_buff ex_typed = 0x2000" "hmem ex_typed = (\<lambda>_. 0)(0x2000 := 0x61)"
    by (simp_all add: ex_typed_def ex_editor_def ex_console_def console.defs cmd_row_def)
  have "row_holds ((\<lambda>_. 0)(0x2000 := 0x61)) 0x2000 ([] @ [0x61])"
    using row_append [of "\<lambda>_. 0" "0x2000" "[]" "0x61"] by (simp add: row_holds_def)
  then show "line_ok ex_typed [0x61] 1"
    unfolding line_ok_def c by (simp add: ex_typed_def)
  have "hmem ex_typed (cmd_row ex_typed (of_nat (Suc i)) + of_nat j) = 0" if "i < 24" "j < 256" for i j
  proof -
    have "unat (cmd_row ex_typed (of_nat (Suc i)) + of_nat j - command_buff ex_typed) = 256 * Suc i + j"
      by (rule row_offset) (use that in simp_all)
    then have "cmd_row ex_typed (of_nat (Suc i)) + of_nat j \<noteq> 0x2000" unfolding c by auto
    then show ?thesis by (simp only: c fun_upd_apply if_False)
  qed
  then show "history_holds ex_typed (replicate 24 [])" by (simp add: history_holds_def row_holds_def)
  show "spare_apart ex_typed"
    by (simp add: spare_apart_def ex_typed_def ex_editor_def ex_console_def console.defs)
  show "display_ok ex_typed"
    using ex_editor_facts(2) by (simp add: ex_typed_def represents_def)
qed

theorem log_line_shifts_history_witness:
  "history_holds (log_and_reset_input_buffers ex_typed) ([0x61] # replicate 23 []) \<and>
    row_holds (hmem (log_and_reset_input_buffers ex_typed)) (cmd_row (log_and_reset_input_buffers ex_typed) 0) []"
proof -
  have "butlast (replicate 24 []) = replicate 23 ([] :: u8 list)" by (simp add: eval_nat_numeral)
  then show ?thesis using log_line_shifts_history [OF ex_typed_facts(1-3)] by simp
qed

subsection \<open>Walking through the history\<close>

lemma find_command_end_row:
  assumes "row_holds m p xs" and "length xs < 256" and "0 \<notin> set xs"
  shows "find_command_end m p 0 = Some (of_nat (length xs))"
proof -
  have "find_command_end m p (of_nat i) = Some (of_nat (length xs))" if "i \<le> length xs" for i
    using that
  proof (induction "length xs - i" arbitrary: i)
    case 0
    then have "i = length xs" by simp
    then show ?case using assms by (subst find_command_end.simps) (simp add: ucast_of_nat8 row_holds_def)
  next
    case (Suc n)
    then have i: "i < length xs" by simp
    then have "m (p + of_nat i) = xs ! i" using assms(1,2) by (simp add: row_holds_def)
    then have "m (p + of_nat i) \<noteq> 0" using assms(3) i by (metis nth_mem)
    then have "find_command_end m p (of_nat i) = find_command_end m p (of_nat (Suc i))"
      using i assms(2) by (subst find_command_end.simps) (simp add: ucast_of_nat8 add.commute)
    also have "\<dots> = Some (of_nat (length xs))" using Suc i by (intro Suc.hyps(1)) simp_all
    finally show ?case .
  qed
  from this [of 0] show ?thesis by simp
qed

lemma copied_row:
  assumes "row_holds m q xs"
  shows "row_holds (copied m p q 256) p xs"
  using assms by (simp add: row_holds_def copied_def word_less_nat_alt unat_of_nat_small)

text \<open>Showing row \<open>k\<close> of the command buffer as the current line.\<close>

lemma replace_cmd_edit:
  assumes "display_ok s" and "row_holds (hmem s) (cmd_row s (of_nat k)) ys" and "k < 25"
    and "length ys < 256" and "0 \<notin> set ys" and "unat (cmd_row s 0) + 256 \<le> 2 ^ 32"
  shows "\<exists>t. replace_curr_cmd_with_diff_cmd (of_nat k) s = Some t \<and> line_ok t ys (length ys) \<and> edited s t"
proof -
  let ?u = "unplot_text_cursor (char_at_cursor s) s"
  have u: "same_text s ?u" by simp
  obtain v where v: "clear_x_cells_at (input_start ?u) (ucast (end_idx ?u)) ?u = Some v" "same_text s v"
    using clear_at.after [OF assms(1) u] by blast
  define m where "m = copied (hmem s) (cmd_row s 0) (cmd_row s (of_nat k)) 256"
  have "cmd_row s 0 = cmd_row s (of_nat k) \<or> 256 \<le> cmd_row s 0 - cmd_row s (of_nat k)"
  proof (cases "k = 0")
    case False
    have "cmd_row s 0 - cmd_row s (of_nat k) = 0 - of_nat (256 * k)" by (simp add: row_address cmd_row_def SHELL_INPUT_BUFF_SIZE_def)
    moreover have "unat (0 - of_nat (256 * k) :: u32) = 4294967296 - 256 * k"
      using unat_sub_of_nat [of "256 * k" 0] assms(3) False by (simp del: of_nat_mult)
    ultimately have "256 \<le> cmd_row s 0 - cmd_row s (of_nat k)"
      using assms(3) by (simp only: word_le_nat_alt) simp
    then show ?thesis ..
  qed simp
  then have cp: "memcpy (hmem s) (cmd_row s 0) (cmd_row s (of_nat k)) 256 = m"
    unfolding m_def by (rule memcpy_copied)
  have row: "row_holds m (cmd_row s 0) ys" unfolding m_def by (rule copied_row [OF assms(2)])
  define w where "w = v\<lparr>hmem := m, cursor_pos_idx := of_nat (length ys), end_idx := of_nat (length ys)\<rparr>"
  have w: "same_text (s\<lparr>hmem := m, cursor_pos_idx := of_nat (length ys), end_idx := of_nat (length ys)\<rparr>) w"
    unfolding w_def by (rule same_text_updates [OF v(2)])
  have init: "init_inputBuffCursor (copy_diff_cmd_to_curr_cmd_buffer (of_nat k) v) = Some w"
  proof -
    have "ucast (of_nat k :: u16) = (of_nat k :: u32)" using assms(3) by (simp add: ucast_idx)
    then have "copy_diff_cmd_to_curr_cmd_buffer (of_nat k) v = v\<lparr>hmem := m\<rparr>"
      using cp same_text_fields [OF v(2)] same_text_row [OF v(2)]
      by (simp add: copy_diff_cmd_to_curr_cmd_buffer_def SHELL_INPUT_BUFF_SIZE_def)
    moreover have "find_command_end m (cmd_row s 0) 0 = Some (of_nat (length ys))"
      by (rule find_command_end_row [OF row assms(4,5)])
    moreover have "ucast (of_nat (length ys) :: u8) = (of_nat (length ys) :: u16)"
      using assms(4) by (simp add: word_unat_eq_iff unsigned_ucast_eq unat_of_nat take_bit_nat_eq_self)
    ultimately show ?thesis
      using same_text_row [OF v(2)] by (simp add: init_inputBuffCursor_def w_def update_order)
  qed
  let ?x = "w\<lparr>text_cursor := input_start w\<rparr>"
  have ok: "line_ok w ys (length ys)"
    unfolding line_ok_same [OF w] using row assms(4-6) by (simp add: line_ok_def)
  have "strlen (hmem w) (cmd_row w 0) = Some (of_nat (length ys))"
    using strlen_cstr [OF row_holds_cstr [OF _ assms(4,5), of "hmem w" "cmd_row w 0" 0]] ok
    by (simp add: line_ok_def)
  moreover obtain y where y: "print_str (cmd_row w 0) (of_nat (length ys)) ?x = Some y" "same_text w y"
    using print.after [of w ?x] same_text_display [OF w] assms(1) by auto
  ultimately have "replace_curr_cmd_with_diff_cmd (of_nat k) s = Some (plot_text_cursor (char_at_cursor y) y)"
    using v(1) init by (simp add: replace_curr_cmd_with_diff_cmd_def Let_def)
  moreover have t: "same_text w (plot_text_cursor (char_at_cursor y) y)" by (rule same_text_trans [OF y(2) plot_same(1)])
  moreover have "line_ok (plot_text_cursor (char_at_cursor y) y) ys (length ys)" using ok line_ok_same [OF t] by simp
  moreover have "edited s (plot_text_cursor (char_at_cursor y) y)"
  proof (rule editedI [OF same_text_refl, of s m])
    show "m a = hmem s a" if "256 \<le> a - cmd_row s 0" for a using that by (simp add: m_def copied_def leD)
  qed (rule same_text_trans [OF w t])
  ultimately show ?thesis by blast
qed


text \<open>A change outside the older rows, and one outside the spare row.\<close>

lemma rows_agree:
  assumes "\<And>a. 256 \<le> unat (a - command_buff s) \<Longrightarrow> unat (a - command_buff s) < 6400 \<Longrightarrow> m' a = m a"
    and "0 < k" and "k < 25"
  shows "row_holds m' (cmd_row s (of_nat k)) xs = row_holds m (cmd_row s (of_nat k)) xs"
proof (rule row_holds_cong)
  fix j :: nat assume "j < 256"
  then show "m' (cmd_row s (of_nat k) + of_nat j) = m (cmd_row s (of_nat k) + of_nat j)"
    using assms(2,3) row_offset [OF assms(3), of j s] by (intro assms(1)) linarith+
qed

lemma spare_agree:
  assumes "\<And>a. 6400 \<le> unat (a - command_buff s) \<Longrightarrow> m' a = m a" and "spare_apart s"
  shows "row_holds m' (temp_curr_command_buff s) xs = row_holds m (temp_curr_command_buff s) xs"
proof (rule row_holds_cong)
  fix j :: nat assume j: "j < 256"
  let ?a = "temp_curr_command_buff s + of_nat j"
  have "6400 \<le> unat (?a - command_buff s)"
  proof (rule ccontr)
    assume "\<not> 6400 \<le> unat (?a - command_buff s)"
    then have "256 \<le> ?a - temp_curr_command_buff s" by (intro spare_offset [OF assms(2)]) simp
    then show False using j unat_of_nat_small [of j] by (simp add: word_le_nat_alt)
  qed
  then show "m' ?a = m ?a" by (rule assms(1))
qed

lemma history_agree:
  assumes "\<And>a. 256 \<le> unat (a - command_buff s) \<Longrightarrow> unat (a - command_buff s) < 6400 \<Longrightarrow> hmem t a = hmem s a"
    and "command_buff t = command_buff s"
  shows "history_holds t hs = history_holds s hs"
proof -
  have "cmd_row t = cmd_row s" using assms(2) by (simp add: fun_eq_iff cmd_row_def)
  then show ?thesis using rows_agree [of s "hmem t" "hmem s", OF assms(1)]
    by (simp add: history_holds_def del: of_nat_Suc)
qed

lemma edited_agree:
  fixes s t :: "'a line_editor_scheme"
  assumes "edited s t" and "256 \<le> unat (a - command_buff s)"
  shows "hmem t a = hmem s a"
  using edited_facts(1) [OF assms(1)] assms(2) by (simp add: line_frame_def cmd_row_def word_le_nat_alt)

text \<open>The up arrow: the youngest entry is shown, the line goes to the spare row.\<close>

lemma spare_away:
  assumes "spare_apart s"
  shows "256 \<le> temp_curr_command_buff s - cmd_row s 0" and "256 \<le> cmd_row s 0 - temp_curr_command_buff s"
  using assms order_trans [of 256 6400 "temp_curr_command_buff s - command_buff s"]
  by (simp_all add: spare_apart_def cmd_row_def)

lemma up_arrow_shows:
  assumes "display_ok s" and "line_ok s xs i" and "history_holds s hs" and "spare_apart s"
    and "curr_command_idx s = 0" and "hs ! 0 = ys" and "ys \<noteq> []" and "length ys < 256" and "0 \<notin> set ys"
  shows "\<exists>t. handle_up_arrow s = Some t \<and> line_ok t ys (length ys) \<and> curr_command_idx t = 1 \<and>
    history_holds t hs \<and> row_holds (hmem t) (temp_curr_command_buff t) xs \<and> display_ok t \<and>
    cmd_row t = cmd_row s \<and> command_buff t = command_buff s \<and> temp_curr_command_buff t = temp_curr_command_buff s"
proof -
  let ?p = "cmd_row s 0" and ?q = "temp_curr_command_buff s" and ?cb = "command_buff s"
  have row: "row_holds (hmem s) ?p xs" and b: "unat ?p + 256 \<le> 2 ^ 32"
    using assms(2) by (simp_all add: line_ok_def)
  have row1: "row_holds (hmem s) (cmd_row s (of_nat 1)) ys"
    using assms(3,6) by (auto simp: history_holds_def dest: spec [of _ 0])
  define s1 where "s1 = (preserve_last_written_command s)\<lparr>curr_command_idx := 1\<rparr>"
  have s1: "hmem s1 = copied (hmem s) ?q ?p 256" "command_buff s1 = ?cb" "temp_curr_command_buff s1 = ?q"
      "cmd_row s1 = cmd_row s" "display_ok s1" "curr_command_idx s1 = 1"
    using memcpy_copied [of ?q ?p 256 "hmem s"] spare_away(1) [OF assms(4)] assms(1)
    by (simp_all add: s1_def preserve_last_written_command_def SHELL_INPUT_BUFF_SIZE_def)
  have in_rows: "hmem s1 a = hmem s a" if "unat (a - ?cb) < 6400" for a
    using spare_offset [OF assms(4) that] by (simp add: s1(1) copied_def leD)
  have r1: "row_holds (hmem s1) (cmd_row s1 (of_nat 1)) ys"
    using rows_agree [of s "hmem s1" "hmem s" 1 ys] in_rows row1 by (simp only: s1(4))
  have "unat (cmd_row s1 0) + 256 \<le> 2 ^ 32" using b by (simp only: s1(4))
  then obtain t where t: "replace_curr_cmd_with_diff_cmd (of_nat 1) s1 = Some t" "line_ok t ys (length ys)" "edited s1 t"
    using replace_cmd_edit [OF s1(5) r1 _ assms(8,9)] by auto
  note f = edited_facts [OF t(3)]
  have tf: "curr_command_idx t = 1" "cmd_row t = cmd_row s" "command_buff t = ?cb" "temp_curr_command_buff t = ?q"
    using f s1 by (simp_all add: line_frame_def)
  have "row_holds (hmem s1) ?q xs" unfolding s1(1) by (rule copied_row [OF row])
  then have spare: "row_holds (hmem t) ?q xs"
    using spare_agree [of s "hmem t" "hmem s1", OF _ assms(4)] edited_agree [OF t(3)] by (simp add: s1(2))
  have ht: "history_holds t hs"
    using history_agree [of s t] edited_agree [OF t(3)] in_rows assms(3) tf(3) by (simp add: s1(2))
  have "hmem s (cmd_row s 1) \<noteq> 0" using first_byte [OF row1 assms(9)] assms(7) by simp
  then have "handle_up_arrow s = Some t"
    using assms(5) t(1) by (simp add: handle_up_arrow_def cmd_exists_def MAX_NUM_COMMANDS_STORED_def s1_def Let_def
        preserve_last_written_command_def)
  then show ?thesis using t(2) tf ht spare f(2) s1(5) by auto
qed

text \<open>The down arrow from the first entry: the spare row is the current line again.\<close>

lemma down_arrow_restores:
  assumes "display_ok t" and "history_holds t hs" and "spare_apart t" and "curr_command_idx t = 1"
    and "row_holds (hmem t) (temp_curr_command_buff t) xs" and "length xs < 256" and "0 \<notin> set xs"
    and "unat (cmd_row t 0) + 256 \<le> 2 ^ 32"
  shows "\<exists>u. handle_down_arrow t = Some u \<and> line_ok u xs (length xs) \<and> curr_command_idx u = 0 \<and> history_holds u hs"
proof -
  let ?p = "cmd_row t 0" and ?q = "temp_curr_command_buff t" and ?cb = "command_buff t"
  define t1 where "t1 = t\<lparr>curr_command_idx := 0, hmem := copied (hmem t) ?p ?q 256\<rparr>"
  have t1: "cmd_row t1 = cmd_row t" "command_buff t1 = ?cb" "display_ok t1"
    using assms(1) by (simp_all add: t1_def fun_eq_iff cmd_row_def)
  have r0: "row_holds (hmem t1) (cmd_row t1 (of_nat 0)) xs" using copied_row [OF assms(5)] t1(1) by (simp add: t1_def)
  obtain u where u: "replace_curr_cmd_with_diff_cmd (of_nat 0) t1 = Some u" "line_ok u xs (length xs)" "edited t1 u"
    using replace_cmd_edit [OF t1(3) r0 _ assms(6,7)] assms(8) t1(1) by auto
  note g = edited_facts [OF u(3)]
  have p: "?p = ?cb" by (simp add: cmd_row_def)
  have "hmem u a = hmem t a" if "256 \<le> unat (a - ?cb)" for a
    using edited_agree [OF u(3)] that by (simp add: t1(2)) (simp add: t1_def copied_def p word_le_nat_alt word_less_nat_alt)
  then have "history_holds u hs" using history_agree [of t u] assms(2) g(8) by (simp add: t1(2))
  moreover have "memcpy (hmem t) ?p ?q 256 = copied (hmem t) ?p ?q 256"
    using spare_away(2) [OF assms(3)] by (intro memcpy_copied) simp
  then have "handle_down_arrow t = replace_curr_cmd_with_diff_cmd (of_nat 0) t1"
    using assms(4) by (simp add: handle_down_arrow_def Let_def SHELL_INPUT_BUFF_SIZE_def t1_def)
  moreover have "curr_command_idx u = 0" using g(1) by (simp add: line_frame_def t1_def)
  ultimately show ?thesis using u(1,2) by simp
qed

text \<open>
  C29. Up and down again: with a non-empty entry in the history, the up arrow shows the youngest entry
  with the cursor behind it, and the down arrow then brings back the unfinished line as it was, with
  the cursor at its end; neither changes the history.
\<close>

theorem up_down_restores_line:
  assumes "display_ok s" and "line_ok s xs i" and "history_holds s hs" and "spare_apart s"
    and "curr_command_idx s = 0" and "hs ! 0 = ys" and "ys \<noteq> []" and "length ys < 256" and "0 \<notin> set ys"
  shows "\<exists>t u. handle_up_arrow s = Some t \<and> line_ok t ys (length ys) \<and> curr_command_idx t = 1 \<and>
    history_holds t hs \<and>
    handle_down_arrow t = Some u \<and> line_ok u xs (length xs) \<and> curr_command_idx u = 0 \<and> history_holds u hs"
proof -
  obtain t where t: "handle_up_arrow s = Some t" "line_ok t ys (length ys)" "curr_command_idx t = 1"
      "history_holds t hs" "row_holds (hmem t) (temp_curr_command_buff t) xs" "display_ok t"
      "cmd_row t = cmd_row s" "command_buff t = command_buff s" "temp_curr_command_buff t = temp_curr_command_buff s"
    using up_arrow_shows [OF assms] by blast
  have "spare_apart t" using assms(4) t(8,9) by (simp add: spare_apart_def)
  moreover have "length xs < 256" "0 \<notin> set xs" "unat (cmd_row t 0) + 256 \<le> 2 ^ 32"
    using assms(2) t(7) by (simp_all add: line_ok_def)
  ultimately show ?thesis using down_arrow_restores [OF t(6,4) _ t(3,5)] t(1-4) by blast
qed


text \<open>The line \<open>a\<close> is being typed, and \<open>b\<close> is the only line in the history.\<close>

definition ex_history :: line_editor where
  "ex_history = ex_typed\<lparr>hmem := (hmem ex_typed)(cmd_row ex_typed 1 := 0x62)\<rparr>"

lemma ex_history_facts:
  "display_ok ex_history" "line_ok ex_history [0x61] 1" "history_holds ex_history ([0x62] # replicate 23 [])"
  "spare_apart ex_history" "curr_command_idx ex_history = 0"
proof -
  have r: "cmd_row ex_history = cmd_row ex_typed" "command_buff ex_history = command_buff ex_typed"
    by (simp_all add: ex_history_def)
  have old: "row_holds (hmem ex_typed) (cmd_row ex_typed (of_nat (Suc i))) []" if "i < 24" for i
    using ex_typed_facts(2) that by (simp add: history_holds_def)
  have other: "hmem ex_history a = hmem ex_typed a" if "unat (a - command_buff ex_typed) \<noteq> 256" for a
  proof -
    have "unat (cmd_row ex_typed (of_nat 1) + of_nat 0 - command_buff ex_typed) = 256 * 1 + 0"
      by (rule row_offset) simp_all
    then have "a \<noteq> cmd_row ex_typed 1" using that by auto
    then show ?thesis by (simp add: ex_history_def)
  qed
  have "row_holds (hmem ex_history) (cmd_row ex_history (of_nat (Suc i))) (([0x62] # replicate 23 []) ! i)"
    if i: "i < 24" for i
  proof (cases i)
    case 0
    then show ?thesis
      using row_append [OF old [of 0], of "0x62"] by (simp add: r ex_history_def)
  next
    case (Suc k)
    have "row_holds (hmem ex_history) (cmd_row ex_typed (of_nat (Suc i))) [] =
        row_holds (hmem ex_typed) (cmd_row ex_typed (of_nat (Suc i))) []"
    proof (rule row_holds_cong)
      fix j :: nat assume "j < 256"
      then have "unat (cmd_row ex_typed (of_nat (Suc i)) + of_nat j - command_buff ex_typed) = 256 * Suc i + j"
        using i by (intro row_offset) simp_all
      then show "hmem ex_history (cmd_row ex_typed (of_nat (Suc i)) + of_nat j) =
          hmem ex_typed (cmd_row ex_typed (of_nat (Suc i)) + of_nat j)"
        using Suc by (intro other) (simp del: of_nat_Suc)
    qed
    then show ?thesis using old [OF i] Suc i by (simp add: r del: of_nat_Suc)
  qed
  then show "history_holds ex_history ([0x62] # replicate 23 [])" by (simp add: history_holds_def)
  have "row_holds (hmem ex_history) (cmd_row ex_typed (of_nat 0)) [0x61] =
      row_holds (hmem ex_typed) (cmd_row ex_typed (of_nat 0)) [0x61]"
  proof (rule row_holds_cong)
    fix j :: nat assume j: "j < 256"
    have "unat (cmd_row ex_typed (of_nat 0) + of_nat j - command_buff ex_typed) = 256 * 0 + j"
      by (rule row_offset) (use j in simp_all)
    then have "unat (cmd_row ex_typed (of_nat 0) + of_nat j - command_buff ex_typed) < 256" using j by linarith
    then show "hmem ex_history (cmd_row ex_typed (of_nat 0) + of_nat j) = hmem ex_typed (cmd_row ex_typed (of_nat 0) + of_nat j)"
      by (intro other) linarith
  qed
  then show "line_ok ex_history [0x61] 1" using ex_typed_facts(1) by (simp add: line_ok_def r) (simp add: ex_history_def)
  show "display_ok ex_history" "spare_apart ex_history"
    using ex_typed_facts(3,4) by (simp_all add: ex_history_def spare_apart_def)
  show "curr_command_idx ex_history = 0"
    by (simp add: ex_history_def ex_typed_def ex_editor_def ex_console_def console.defs)
qed

theorem up_down_restores_line_witness:
  "\<exists>t u. handle_up_arrow ex_history = Some t \<and> line_ok t [0x62] 1 \<and> curr_command_idx t = 1 \<and>
    handle_down_arrow t = Some u \<and> line_ok u [0x61] 1 \<and> curr_command_idx u = 0"
  using up_down_restores_line [OF ex_history_facts, of "[0x62]"] by auto

end
