(* ===== verification/Serial.thy ===== *)
theory Serial
  imports Ps2
begin

text \<open>
  The serial port (\<^verbatim>\<open>src/drivers/serial/serial.c\<close>, \<^verbatim>\<open>src/include/drivers/serial/serial.h\<close>), over
  the same port events as the keyboard.
\<close>

unbundle bit_operations_syntax

named_theorems serial_defs

subsection \<open>Registers and commands\<close>

definition COM1 :: u16 where [serial_defs]: "COM1 = 0x3f8"
definition COM2 :: u16 where [serial_defs]: "COM2 = 0x2f8"
definition COM3 :: u16 where [serial_defs]: "COM3 = 0x3e8"
definition COM4 :: u16 where [serial_defs]: "COM4 = 0x2e8"
definition RECEIEVE_REG :: u16 where [serial_defs]: "RECEIEVE_REG = 0"
definition TRANSMIT_REG :: u16 where [serial_defs]: "TRANSMIT_REG = 0"
definition DLAB_SET_DIVIOR_LO_REG :: u16 where [serial_defs]: "DLAB_SET_DIVIOR_LO_REG = 0"
definition DLAB_SET_DIVIOR_HI_REG :: u16 where [serial_defs]: "DLAB_SET_DIVIOR_HI_REG = 1"
definition INTERRUPT_ENABLE_REG :: u16 where [serial_defs]: "INTERRUPT_ENABLE_REG = 1"
definition INTERRUPT_ID_REG :: u16 where [serial_defs]: "INTERRUPT_ID_REG = 2"
definition FIFO_CTL_REGS :: u16 where [serial_defs]: "FIFO_CTL_REGS = 2"
definition LINE_CTL_REG :: u16 where [serial_defs]: "LINE_CTL_REG = 3"
definition MODEM_CTL_REG :: u16 where [serial_defs]: "MODEM_CTL_REG = 4"
definition LINE_STATUS_REG :: u16 where [serial_defs]: "LINE_STATUS_REG = 5"
definition MODEM_STATUS_REG :: u16 where [serial_defs]: "MODEM_STATUS_REG = 6"
definition SCRATCH_REG :: u16 where [serial_defs]: "SCRATCH_REG = 7"
definition DISABLE_INTERRUPTS :: u8 where [serial_defs]: "DISABLE_INTERRUPTS = 0"
definition ENABLE_DLAB :: u8 where [serial_defs]: "ENABLE_DLAB = push_bit 7 1"
definition FRAME_8N1 :: u8 where [serial_defs]: "FRAME_8N1 = 0x3"
definition DEFAULT_BAUD_DIVISOR_LO :: u8 where [serial_defs]: "DEFAULT_BAUD_DIVISOR_LO = 3"
definition DEFAULT_BAUD_DIVISOR_HI :: u8 where [serial_defs]: "DEFAULT_BAUD_DIVISOR_HI = 0"
definition ENABLE_FIFO_BUFFERS :: u8 where [serial_defs]: "ENABLE_FIFO_BUFFERS = 1"
definition CLEAR_TRANSMIT_BUFFER :: u8 where [serial_defs]: "CLEAR_TRANSMIT_BUFFER = push_bit 2 1"
definition CLEAR_RECEIVE_BUFFER :: u8 where [serial_defs]: "CLEAR_RECEIVE_BUFFER = push_bit 1 1"
definition SET_NUM_BYTES_BEFORE_INTERRUPT_TRIGGERED :: u8 where
  [serial_defs]: "SET_NUM_BYTES_BEFORE_INTERRUPT_TRIGGERED = push_bit 6 3"
definition ENABLE_OUT1_PIN :: u8 where [serial_defs]: "ENABLE_OUT1_PIN = push_bit 2 1"
definition ENABLE_IRQ_LINE :: u8 where [serial_defs]: "ENABLE_IRQ_LINE = push_bit 3 1"
definition READY_TO_ESTABLISH_CONNECTION :: u8 where [serial_defs]: "READY_TO_ESTABLISH_CONNECTION = 1"
definition REQUEST_TO_SEND_DATA :: u8 where [serial_defs]: "REQUEST_TO_SEND_DATA = push_bit 1 1"
definition SET_LOOPBACK_MODE :: u8 where [serial_defs]: "SET_LOOPBACK_MODE = push_bit 4 1"

subsection \<open>Operations\<close>

definition init_serial_port :: "device \<Rightarrow> io_event list \<Rightarrow> bool \<times> io_event list" where
  "init_serial_port dev h =
     (let h = sendb_toport (COM1 + INTERRUPT_ENABLE_REG) DISABLE_INTERRUPTS h;
          h = sendb_toport (COM1 + LINE_CTL_REG) ENABLE_DLAB h;
          h = sendb_toport (COM1 + DLAB_SET_DIVIOR_LO_REG) DEFAULT_BAUD_DIVISOR_LO h;
          h = sendb_toport (COM1 + DLAB_SET_DIVIOR_HI_REG) DEFAULT_BAUD_DIVISOR_HI h;
          h = sendb_toport (COM1 + LINE_CTL_REG) FRAME_8N1 h;
          h = sendb_toport (COM1 + FIFO_CTL_REGS)
                (ENABLE_FIFO_BUFFERS OR CLEAR_TRANSMIT_BUFFER OR CLEAR_RECEIVE_BUFFER OR
                 SET_NUM_BYTES_BEFORE_INTERRUPT_TRIGGERED) h;
          h = sendb_toport (COM1 + MODEM_CTL_REG)
                (ENABLE_IRQ_LINE OR READY_TO_ESTABLISH_CONNECTION OR REQUEST_TO_SEND_DATA) h;
          h = sendb_toport (COM1 + MODEM_CTL_REG) SET_LOOPBACK_MODE h;
          h = sendb_toport (COM1 + TRANSMIT_REG) 0xAB h;
          (res, h) = recvb_fromport dev (COM1 + RECEIEVE_REG) h
      in if res \<noteq> 0xAB then (False, h)
         else
           (let h = sendb_toport (COM1 + MODEM_CTL_REG)
                  (ENABLE_IRQ_LINE OR READY_TO_ESTABLISH_CONNECTION OR REQUEST_TO_SEND_DATA OR ENABLE_OUT1_PIN) h
            in (True, h)))"

definition sendb_to_serial_port :: "u8 \<Rightarrow> io_event list \<Rightarrow> io_event list" where
  "sendb_to_serial_port byte h = sendb_toport (COM1 + TRANSMIT_REG) byte h"

definition send_string_to_serial_port :: "mem \<Rightarrow> u32 \<Rightarrow> io_event list \<Rightarrow> io_event list option" where
  "send_string_to_serial_port m str h =
     Option.bind (strlen m str) (\<lambda>str_size.
       Some (for_loop 0 str_size (\<lambda>letter h. sendb_to_serial_port (m (str + letter)) h) h))"

subsection \<open>The chip\<close>

text \<open>
  The registers of a 16550 at COM1, as far as the driver writes them, and the byte it loops back. With
  the divisor latch selected (bit 7 of the line control register) ports 0 and 1 reach the divisor.
\<close>

record uart =
  uart_line :: u8
  uart_modem :: u8
  uart_divisor :: u16
  uart_irqs :: u8
  uart_looped :: "u8 option"

definition uart_write :: "u16 \<Rightarrow> u8 \<Rightarrow> uart \<Rightarrow> uart" where
  "uart_write port b u =
     (if port = 0x3f8 then
        (if bit (uart_line u) 7 then u\<lparr>uart_divisor := (uart_divisor u AND 0xFF00) OR ucast b\<rparr>
         else if bit (uart_modem u) 4 then u\<lparr>uart_looped := Some b\<rparr> else u)
      else if port = 0x3f9 then
        (if bit (uart_line u) 7 then u\<lparr>uart_divisor := (uart_divisor u AND 0x00FF) OR push_bit 8 (ucast b)\<rparr>
         else u\<lparr>uart_irqs := b\<rparr>)
      else if port = 0x3fb then u\<lparr>uart_line := b\<rparr>
      else if port = 0x3fc then u\<lparr>uart_modem := b\<rparr>
      else u)"

primrec uart_event :: "io_event \<Rightarrow> uart \<Rightarrow> uart" where
  "uart_event (Out port b) u = uart_write port b u"
| "uart_event (In port b) u = u"

definition uart_after :: "uart \<Rightarrow> io_event list \<Rightarrow> uart" where
  "uart_after u h = fold uart_event h u"

text \<open>A device is a working chip at COM1 when in loopback it returns the byte sent last.\<close>

definition loops_back :: "uart \<Rightarrow> device \<Rightarrow> bool" where
  "loops_back u dev \<longleftrightarrow>
     (\<forall>h b. bit (uart_modem (uart_after u h)) 4 \<and> \<not> bit (uart_line (uart_after u h)) 7 \<and>
        uart_looped (uart_after u h) = Some b \<longrightarrow> dev h 0x3f8 = b)"

lemma send_string_cstr:
  assumes "is_cstr m str xs" and "length xs < 2 ^ 32"
  shows "send_string_to_serial_port m str h = Some (h @ map (Out 0x3f8) xs)"
proof -
  let ?n = "of_nat (length xs) :: u32"
  have n: "unat ?n = length xs" using assms(2) by (rule unat_of_nat_small)
  have "for_loop 0 ?n (\<lambda>letter h. sendb_to_serial_port (m (str + letter)) h) h =
      h @ map (Out 0x3f8) (take (unat ?n) xs)"
  proof (rule for_loop_invariant [where P = "\<lambda>i t. t = h @ map (Out 0x3f8) (take (unat i) xs)"])
    fix j t assume j: "j < ?n" and t: "t = h @ map (Out 0x3f8) (take (unat j) xs)"
    have k: "unat j < length xs" using j n by (simp add: word_less_nat_alt)
    have "m (str + of_nat (unat j)) = xs ! unat j" using is_cstr_nth [OF assms(1) k] ..
    moreover have "unat (j + 1) = Suc (unat j)" using j by (rule unat_inc)
    ultimately show "sendb_to_serial_port (m (str + j)) t = h @ map (Out 0x3f8) (take (unat (j + 1)) xs)"
      using k by (simp add: sendb_to_serial_port_def sendb_toport_def serial_defs t take_Suc_conv_app_nth)
  qed simp_all
  then show ?thesis using strlen_cstr [OF assms(1)] n by (simp add: send_string_to_serial_port_def)
qed

subsection \<open>Properties\<close>

text \<open>
  C33. On a working chip whose divisor latch is closed, as it is after a reset, the set-up succeeds and
  leaves it out of loopback, with the latch closed again, 8 data bits without parity, the divisor 3
  (38400 baud) and its interrupts off.
\<close>

theorem init_serial_port_ready:
  assumes "loops_back u dev" and "\<not> bit (uart_line u) 7"
  shows "\<exists>h. init_serial_port dev [] = (True, h) \<and> uart_line (uart_after u h) = 3 \<and>
    uart_modem (uart_after u h) = 0x0F \<and> uart_divisor (uart_after u h) = 3 \<and> uart_irqs (uart_after u h) = 0"
proof -
  let ?h = "[Out 0x3f9 0, Out 0x3fb 0x80, Out 0x3f8 3, Out 0x3f9 0, Out 0x3fb 3, Out 0x3fa 0xC7, Out 0x3fc 0x0B,
      Out 0x3fc 0x10, Out 0x3f8 0xAB]"
  have div: "((uart_divisor u AND 65280 OR 3) AND 255) = 3"
    by (simp add: bit.conj_disj_distrib2 and.assoc)
  have after: "uart_after u ?h = u\<lparr>uart_irqs := 0, uart_divisor := 3, uart_line := 3, uart_modem := 0x10, uart_looped := Some 0xAB\<rparr>"
    using assms(2) div by (cases u) (simp add: uart_after_def uart_write_def)
  then have echo: "dev ?h 0x3f8 = 0xAB" using assms(1) by (auto simp: loops_back_def dest: spec [of _ ?h])
  have "init_serial_port dev [] = (True, ?h @ [In 0x3f8 0xAB, Out 0x3fc 0x0F])"
    using echo by (simp add: init_serial_port_def serial_defs sendb_toport_def recvb_fromport_def)
  moreover have "uart_after u (?h @ [In 0x3f8 0xAB, Out 0x3fc 0x0F]) =
      uart_event (Out 0x3fc 0x0F) (uart_event (In 0x3f8 0xAB) (uart_after u ?h))"
    by (simp add: uart_after_def)
  ultimately show ?thesis unfolding after by (simp add: uart_write_def)
qed

definition ex_uart :: uart where
  "ex_uart = \<lparr>uart_line = 0, uart_modem = 0, uart_divisor = 12, uart_irqs = 1, uart_looped = None\<rparr>"

definition ex_uart_device :: device where
  "ex_uart_device = (\<lambda>h port. case uart_looped (uart_after ex_uart h) of Some b \<Rightarrow> b | None \<Rightarrow> 0)"

theorem init_serial_port_ready_witness:
  "\<exists>h. init_serial_port ex_uart_device [] = (True, h) \<and> uart_modem (uart_after ex_uart h) = 0x0F"
proof -
  have "loops_back ex_uart ex_uart_device" by (simp add: loops_back_def ex_uart_device_def)
  moreover have "\<not> bit (uart_line ex_uart) 7" by (simp add: ex_uart_def)
  ultimately show ?thesis using init_serial_port_ready by blast
qed

text \<open>
  A terminated string is sent completely and in order, one byte per write to the transmit
  register, without its terminator, and nothing else is sent.
\<close>

theorem send_string_in_order:
  assumes "is_cstr m str xs" and "length xs < 2 ^ 32"
  shows "send_string_to_serial_port m str h = Some (h @ map (Out 0x3f8) xs)"
  by (rule send_string_cstr [OF assms])

theorem send_string_in_order_witness:
  "send_string_to_serial_port ((\<lambda>_. 0)(0x100 := 0x6F, 0x101 := 0x6B)) 0x100 [] = Some [Out 0x3f8 0x6F, Out 0x3f8 0x6B]"
  using send_string_in_order [of "(\<lambda>_. 0)(0x100 := 0x6F, 0x101 := 0x6B)" "0x100" "[0x6F, 0x6B]" "[]"] by simp

end
