(* ===== verification/Acpi.thy ===== *)
theory Acpi
  imports Utils Memory
begin

text \<open>
  The ACPI tables (\<^verbatim>\<open>src/kernel/interrupts/acpi.c\<close>, \<^verbatim>\<open>acpi.h\<close>): finding the table of interrupt
  controllers by its signature, and the controllers of one type in it. The tables are packed, so the
  structures are offsets into byte memory.
\<close>

subsection \<open>Layout\<close>

named_theorems acpi_layout

text \<open>\<open>struct RootSystemDescriptorPointer_1\<close>: the address of the RSDT.\<close>

definition RSDtable_address :: u32 where [acpi_layout]: "RSDtable_address = 16"

text \<open>\<open>struct SystemDescriptionTable_Header\<close> and what follows it in the RSDT and in the MADT.\<close>

definition SDT_length :: u32 where [acpi_layout]: "SDT_length = 4"
definition sizeof_SDT_Header :: u32 where [acpi_layout]: "sizeof_SDT_Header = 36"
definition table_addresses :: u32 where [acpi_layout]: "table_addresses = 36"
definition sizeof_MADT :: u32 where [acpi_layout]: "sizeof_MADT = 44"
definition interrupt_controllers :: u32 where [acpi_layout]: "interrupt_controllers = 44"

text \<open>\<open>struct IOAPIC_Desc\<close>; the other descriptors share its first two fields.\<close>

definition interrupt_controller_type :: u32 where [acpi_layout]: "interrupt_controller_type = 0"
definition controller_length :: u32 where [acpi_layout]: "controller_length = 1"
definition physical_base_address :: u32 where [acpi_layout]: "physical_base_address = 4"

definition ACPI_MADT_IOAPIC :: u8 where "ACPI_MADT_IOAPIC = 1"
definition ACPI_MADT_ISO :: u8 where "ACPI_MADT_ISO = 2"
definition ACPI_MADT_SIG :: "u8 list" where "ACPI_MADT_SIG = [0x41, 0x50, 0x49, 0x43]"

datatype InterruptController = LAPIC | IOAPIC | ISO

record acpi =
  rsdp :: u32
  rsdt :: u32
  madt :: u32

subsection \<open>Finding a table\<close>

text \<open>
  \<open>sig\<close> is the address of the literal, \<open>buf\<close> the one of the local array \<open>currtable_sig\<close>.
\<close>

function find_table :: "u32 \<Rightarrow> u32 \<Rightarrow> u32 \<Rightarrow> u32 \<Rightarrow> u32 \<Rightarrow> mem \<Rightarrow> (u32 \<times> mem) option" where
  "find_table buf sig t num_tables table_counter m =
     (if table_counter < num_tables then
        (let entry = t + table_addresses + 4 * table_counter;
             m = strncpy m buf (read32 m entry) 4;
             m = m(buf + 4 := 0)
         in Option.bind (strcmp m buf sig) (\<lambda>r.
              if r = 0 then Some (read32 m entry, m)
              else find_table buf sig t num_tables (table_counter + 1) m))
      else Some (NULL, m))"
  by pat_completeness auto
termination
  by (relation "measure (\<lambda>(_, _, _, n, c, _). unat n - unat c)") (auto simp: unat_inc word_less_nat_alt)

declare find_table.simps [simp del]

definition get_system_descriptor_table :: "u32 \<Rightarrow> u32 \<Rightarrow> acpi \<Rightarrow> mem \<Rightarrow> (u32 \<times> mem) option" where
  "get_system_descriptor_table buf sig s m =
     (let num_tables = (read32 m (rsdt s + SDT_length) - sizeof_SDT_Header) div 4
      in find_table buf sig (rsdt s) num_tables 0 m)"

text \<open>\<open>tag\<close> is the address of the boot loader's ACPI tag, whose data follows its type and size.\<close>

definition process_acpi_info :: "u32 \<Rightarrow> u32 \<Rightarrow> u32 \<Rightarrow> acpi \<Rightarrow> mem \<Rightarrow> (acpi \<times> mem) option" where
  "process_acpi_info buf sig tag s m =
     (let s = s\<lparr>rsdp := tag + 8\<rparr>;
          s = s\<lparr>rsdt := read32 m (rsdp s + RSDtable_address)\<rparr>
      in map_option (\<lambda>(t, m). (s\<lparr>madt := t\<rparr>, m)) (get_system_descriptor_table buf sig s m))"

subsection \<open>Interrupt controllers\<close>

partial_function (option) scan_controllers ::
    "u32 \<Rightarrow> u32 \<Rightarrow> u8 \<Rightarrow> u32 \<Rightarrow> array_hdr \<Rightarrow> mem \<Rightarrow> (array_hdr \<times> mem) option" where
  "scan_controllers t entry_bytes target idx arr m =
     (if idx < entry_bytes then
        (let e = t + interrupt_controllers + idx;
             (arr, m) = (if m (e + interrupt_controller_type) = target then
                           (arr\<lparr>curr_size := curr_size arr + 1\<rparr>,
                            write32 m (array_data arr + 4 * curr_size arr) e)
                         else (arr, m))
         in scan_controllers t entry_bytes target (idx + ucast (m (e + controller_length))) arr m)
      else Some (arr, m))"

text \<open>\<open>uninit\<close> is the local array before \<open>init_array\<close>, which does not set its data pointer.\<close>

definition get_interruptcontroller :: "array_hdr \<Rightarrow> InterruptController \<Rightarrow> acpi \<Rightarrow> mem \<Rightarrow> (array_hdr \<times> mem) option" where
  "get_interruptcontroller uninit intr_ctlr s m =
     (let inter_ctlrs = init_array uninit;
          entry_bytes = read32 m (madt s + SDT_length) - sizeof_MADT;
          target = (case intr_ctlr of IOAPIC \<Rightarrow> ACPI_MADT_IOAPIC | ISO \<Rightarrow> ACPI_MADT_ISO | LAPIC \<Rightarrow> 0xFF)
      in scan_controllers (madt s) entry_bytes target 0 inter_ctlrs m)"


subsection \<open>Tables in memory\<close>

text \<open>
  A list of tables, each with its address and the string at its start: the signature and the bytes of
  the length field up to the first NUL byte, which lies inside the 36-byte header.
\<close>

definition table_header :: "mem \<Rightarrow> u32 \<times> u8 list \<Rightarrow> bool" where
  "table_header m tab \<longleftrightarrow> is_cstr m (fst tab) (snd tab) \<and> length (snd tab) < 36"

definition rsdt_holds :: "mem \<Rightarrow> u32 \<Rightarrow> (u32 \<times> u8 list) list \<Rightarrow> bool" where
  "rsdt_holds m t tabs \<longleftrightarrow> length tabs < 2 ^ 28 \<and> read32 m (t + 4) = of_nat (36 + 4 * length tabs) \<and>
     (\<forall>i < length tabs. read32 m (t + 36 + 4 * of_nat i) = fst (tabs ! i) \<and> table_header m (tabs ! i))"

text \<open>The buffer overlaps neither the RSDT nor a table header nor the literal.\<close>

definition buffer_apart :: "u32 \<Rightarrow> u32 \<Rightarrow> u32 \<Rightarrow> (u32 \<times> u8 list) list \<Rightarrow> bool" where
  "buffer_apart buf sig t tabs \<longleftrightarrow>
     of_nat (36 + 4 * length tabs) \<le> buf - t \<and> 5 \<le> t - buf \<and> 5 \<le> buf - sig \<and> 5 \<le> sig - buf \<and>
     (\<forall>tab \<in> set tabs. 36 \<le> buf - fst tab \<and> 5 \<le> fst tab - buf)"

text \<open>Memories that differ in the buffer only.\<close>

definition same_but_buffer :: "u32 \<Rightarrow> mem \<Rightarrow> mem \<Rightarrow> bool" where
  "same_but_buffer buf m m' \<longleftrightarrow> (\<forall>a. 5 \<le> a - buf \<longrightarrow> m' a = m a)"

lemma block_outside:
  assumes "n \<le> buf - p" and "k \<le> p - buf" and "i < n"
  shows "k \<le> p + i - (buf :: u32)"
proof -
  let ?e = "buf - p"
  have "?e \<noteq> 0" using assms(1,3) by auto
  then have "unat ?e \<noteq> 0" using unat_eq_0 [of ?e] by blast
  then have "unat (0 - ?e) = 4294967296 - unat ?e" unfolding unat_sub_if_size [of 0 ?e] by (simp add: word_size)
  moreover have "0 - ?e = p - buf" by simp
  ultimately have neg: "unat (p - buf) = 4294967296 - unat ?e" by simp
  have "unat i < unat ?e" using assms(1,3) by (simp only: word_le_nat_alt word_less_nat_alt)
  then have "unat (p - buf) + unat i < 4294967296" using neg unat_lt_2p32 [of ?e] by linarith
  then have "unat ((p - buf) + i) = unat (p - buf) + unat i" by (intro unat_add_small) simp
  moreover have "p + i - buf = (p - buf) + i" by simp
  ultimately show ?thesis using assms(2) by (simp only: word_le_nat_alt)
qed

lemmas outside_buffer = block_outside [where k = 5]

lemma same_but_buffer_string:
  assumes "same_but_buffer buf m m'" and "is_cstr m p xs" and "length xs < k" and "k < 2 ^ 32"
    and "of_nat k \<le> buf - p" and "5 \<le> p - buf"
  shows "is_cstr m' p xs"
proof (rule is_cstr_cong [OF assms(2)])
  fix i assume "i \<le> length xs"
  then have "(of_nat i :: u32) < of_nat k"
    using assms(3,4) by (simp add: word_less_nat_alt unat_of_nat_small)
  then have "5 \<le> p + of_nat i - buf" by (rule outside_buffer [OF assms(5,6)])
  then show "m' (p + of_nat i) = m (p + of_nat i)" using assms(1) by (simp add: same_but_buffer_def)
qed

lemma same_but_buffer_read:
  assumes "same_but_buffer buf m m'" and "n \<le> buf - p" and "5 \<le> p - buf" and "unat i + 3 < unat n"
  shows "read32 m' (p + i) = read32 m (p + i)"
proof -
  have "m' (p + i + k) = m (p + i + k)" if "k < 4" for k
  proof -
    have "unat k < 4" using that by (simp add: word_less_nat_alt)
    then have "unat (i + k) = unat i + unat k" "unat i + unat k < unat n"
      using assms(4) unat_lt_2p32 [of n] by (simp_all add: unat_add_small)
    then have "i + k < n" by (simp add: word_less_nat_alt)
    from outside_buffer [OF assms(2,3) this] show ?thesis
      using assms(1) by (simp add: same_but_buffer_def add.assoc)
  qed
  from this [of 0] this [of 1] this [of 2] this [of 3] show ?thesis by (simp add: read32_def)
qed

lemma same_but_buffer_trans: "same_but_buffer buf m m' \<Longrightarrow> same_but_buffer buf m' m'' \<Longrightarrow> same_but_buffer buf m m''"
  by (simp add: same_but_buffer_def)

text \<open>The signature in the buffer: the first four characters, or fewer when a NUL comes before.\<close>

lemma signature_copied:
  assumes "is_cstr m e xs" and "36 \<le> buf - e" and "length xs < 36"
  defines "m' \<equiv> (strncpy m buf e 4)(buf + 4 := 0)"
  shows "is_cstr m' buf (take 4 xs)" "same_but_buffer buf m m'"
proof -
  have "4 \<le> buf - e" using order_trans [OF _ assms(2), of 4] by simp
  then have m': "m' = (strncpy_spec m buf e (of_nat (length xs)) 4)(buf + 4 := 0)"
    unfolding m'_def by (simp only: strncpy_cstr [OF assms(1)])
  have len: "unat (of_nat (length xs) :: u32) = length xs" using assms(3) by (intro unat_of_nat_small) simp
  have at: "m' (buf + of_nat i) = (if i < length xs then xs ! i else 0)" if "i < 4" for i
  proof -
    have "unat (of_nat i :: u32) = i" using that by (intro unat_of_nat_small) simp
    moreover from this have "(of_nat i :: u32) \<noteq> 4" using that by (auto simp: word_unat_eq_iff)
    ultimately show ?thesis
      using that len is_cstr_nth [OF assms(1)] by (simp add: m' strncpy_spec_def word_less_nat_alt)
  qed
  show "is_cstr m' buf (take 4 xs)"
  proof (rule is_cstr_nthI)
    show "m' (buf + of_nat i) = take 4 xs ! i" if "i < length (take 4 xs)" for i
      using that at [of i] by simp
    show "m' (buf + of_nat (length (take 4 xs))) = 0"
      using at [of "length xs"] by (cases "length xs < 4") (simp_all add: min_def m')
    show "0 \<notin> set (take 4 xs)" using is_cstr_nonzero [OF assms(1)] by (auto dest: in_set_takeD)
  qed
  show "same_but_buffer buf m m'"
    unfolding same_but_buffer_def
  proof (intro allI impI)
    fix a assume "5 \<le> a - buf"
    then have "\<not> a - buf < 4" "a \<noteq> buf + 4" by (auto simp: word_le_nat_alt word_less_nat_alt)
    then show "m' a = m a" by (simp add: m' strncpy_spec_def)
  qed
qed

text \<open>The search from table \<open>i\<close> on.\<close>

definition table_with :: "u8 list \<Rightarrow> (u32 \<times> u8 list) list \<Rightarrow> u32" where
  "table_with s tabs = (case List.find (\<lambda>tab. take 4 (snd tab) = s) tabs of Some tab \<Rightarrow> fst tab | None \<Rightarrow> NULL)"


lemma table_entry_inside:
  assumes "i < length tabs" and "rsdt_holds m t tabs"
  shows "unat (36 + 4 * of_nat i :: u32) + 3 < unat (of_nat (36 + 4 * length tabs) :: u32)"
proof -
  have n: "36 + 4 * length tabs < 2 ^ 32" using assms(2) by (simp add: rsdt_holds_def)
  have "36 + 4 * of_nat i = (of_nat (36 + 4 * i) :: u32)" by simp
  then have "unat (36 + 4 * of_nat i :: u32) = 36 + 4 * i"
    using assms(1) n by (simp only:) (rule unat_of_nat_small, simp)
  moreover have "unat (of_nat (36 + 4 * length tabs) :: u32) = 36 + 4 * length tabs"
    by (rule unat_of_nat_small) (use n in simp)
  ultimately show ?thesis using assms(1) by simp
qed

text \<open>One turn of the loop copies the signature of a table and compares it.\<close>

lemma find_table_step:
  assumes "same_but_buffer buf m0 m" and "rsdt_holds m0 t tabs" and "buffer_apart buf sig t tabs"
    and "is_cstr m0 sig s" and "length s < 5" and "i < length tabs"
  shows "\<exists>m1. same_but_buffer buf m0 m1 \<and> find_table buf sig t (of_nat (length tabs)) (of_nat i) m =
      (if take 4 (snd (tabs ! i)) = s then Some (fst (tabs ! i), m1)
       else find_table buf sig t (of_nat (length tabs)) (of_nat (Suc i)) m1)"
proof -
  let ?p = "fst (tabs ! i)" and ?xs = "snd (tabs ! i)"
  have n: "length tabs < 2 ^ 28" using assms(2) by (simp add: rsdt_holds_def)
  have hdr: "is_cstr m0 ?p ?xs" "length ?xs < 36" and entry: "read32 m0 (t + (36 + 4 * of_nat i)) = ?p"
    using assms(2,6) by (auto simp: rsdt_holds_def table_header_def add.assoc)
  have ap: "36 \<le> buf - ?p" "5 \<le> ?p - buf" "of_nat (36 + 4 * length tabs) \<le> buf - t" "5 \<le> t - buf" "5 \<le> buf - sig" "5 \<le> sig - buf"
    using assms(3,6) nth_mem [OF assms(6)] unfolding buffer_apart_def by fastforce+
  have lt: "(of_nat i :: u32) < of_nat (length tabs)"
    using assms(6) n by (simp add: word_less_nat_alt unat_of_nat_small)
  have e: "read32 m' (t + (36 + 4 * of_nat i)) = ?p" if "same_but_buffer buf m0 m'" for m'
    using same_but_buffer_read [OF that ap(3,4) table_entry_inside [OF assms(6,2)]] entry by simp
  have str: "is_cstr m ?p ?xs"
    using same_but_buffer_string [OF assms(1) hdr(1,2), of] ap by simp
  define m1 where "m1 = (strncpy m buf ?p 4)(buf + 4 := 0)"
  note c = signature_copied [OF str ap(1) hdr(2), folded m1_def]
  have m1: "same_but_buffer buf m0 m1" using same_but_buffer_trans [OF assms(1) c(2)] .
  have "is_cstr m1 sig s"
    using same_but_buffer_string [OF m1 assms(4,5)] ap by simp
  then have cmp: "strcmp m1 buf sig = Some (strcmp_spec (take 4 ?xs) s)" by (rule strcmp_cstr [OF c(1)])
  have ea: "t + table_addresses + 4 * of_nat i = t + (36 + 4 * of_nat i)" by (simp add: acpi_layout add.assoc)
  have rd: "read32 m (t + table_addresses + 4 * of_nat i) = ?p" "read32 m1 (t + table_addresses + 4 * of_nat i) = ?p"
    unfolding ea by (rule e [OF assms(1)], rule e [OF m1])
  have "find_table buf sig t (of_nat (length tabs)) (of_nat i) m =
      (if take 4 ?xs = s then Some (?p, m1) else find_table buf sig t (of_nat (length tabs)) (of_nat (Suc i)) m1)"
    using lt rd(2) cmp
    by (subst find_table.simps)
      (simp add: rd(1) Let_def m1_def [symmetric] strcmp_spec_0_iff add.commute [of 1])
  then show ?thesis using m1 by blast
qed

lemma find_table_search:
  assumes "same_but_buffer buf m0 m" and "rsdt_holds m0 t tabs" and "buffer_apart buf sig t tabs"
    and "is_cstr m0 sig s" and "length s < 5" and "i \<le> length tabs"
  shows "\<exists>m'. find_table buf sig t (of_nat (length tabs)) (of_nat i) m = Some (table_with s (drop i tabs), m') \<and>
    same_but_buffer buf m0 m'"
  using assms(1,6)
proof (induction "length tabs - i" arbitrary: i m)
  case 0
  then show ?case by (subst find_table.simps) (auto simp: table_with_def)
next
  case (Suc k)
  then have i: "i < length tabs" by simp
  obtain m1 where m1: "same_but_buffer buf m0 m1" "find_table buf sig t (of_nat (length tabs)) (of_nat i) m =
      (if take 4 (snd (tabs ! i)) = s then Some (fst (tabs ! i), m1)
       else find_table buf sig t (of_nat (length tabs)) (of_nat (Suc i)) m1)"
    using find_table_step [OF Suc.prems(1) assms(2-5) i] by blast
  have drop: "drop i tabs = tabs ! i # drop (Suc i) tabs" using i by (simp add: Cons_nth_drop_Suc)
  show ?case
  proof (cases "take 4 (snd (tabs ! i)) = s")
    case True
    then show ?thesis using m1 by (simp add: drop table_with_def split_beta)
  next
    case False
    then show ?thesis
      using Suc.hyps(1) [of "Suc i" m1] Suc.hyps(2) i m1 by (simp add: drop table_with_def split_beta del: of_nat_Suc)
  qed
qed

lemma get_table_search:
  assumes "rsdt_holds m (rsdt s) tabs" and "buffer_apart buf sig (rsdt s) tabs" and "is_cstr m sig ACPI_MADT_SIG"
  shows "\<exists>m'. get_system_descriptor_table buf sig s m = Some (table_with ACPI_MADT_SIG tabs, m') \<and>
    same_but_buffer buf m m'"
proof -
  have n: "length tabs < 2 ^ 28" and len: "read32 m (rsdt s + 4) = of_nat (36 + 4 * length tabs)"
    using assms(1) by (simp_all add: rsdt_holds_def)
  have "unat (4 * of_nat (length tabs) :: u32) = 4 * length tabs"
    using n unat_mult_small [of 4 "of_nat (length tabs)"] by (simp add: unat_of_nat_small)
  then have "(4 * of_nat (length tabs)) div 4 = (of_nat (length tabs) :: u32)"
    using n by (simp add: word_unat_eq_iff unat_div unat_of_nat_small)
  moreover have "read32 m (rsdt s + SDT_length) - sizeof_SDT_Header = 4 * of_nat (length tabs)"
    using len by (simp add: acpi_layout)
  ultimately show ?thesis
    using find_table_search [OF _ assms(1,2,3), of m 0]
    by (simp add: get_system_descriptor_table_def same_but_buffer_def ACPI_MADT_SIG_def Let_def)
qed

subsection \<open>Controllers in memory\<close>

text \<open>Entries of a type and a length each, one after the other, and the addresses of those of a type.\<close>

primrec entries :: "mem \<Rightarrow> u32 \<Rightarrow> (u8 \<times> u8) list \<Rightarrow> bool" where
  "entries m p [] \<longleftrightarrow> True"
| "entries m p (e # es) \<longleftrightarrow> m p = fst e \<and> m (p + 1) = snd e \<and> 2 \<le> snd e \<and> entries m (p + ucast (snd e)) es"

primrec entries_size :: "(u8 \<times> u8) list \<Rightarrow> nat" where
  "entries_size [] = 0"
| "entries_size (e # es) = unat (snd e) + entries_size es"

primrec matching :: "u8 \<Rightarrow> u32 \<Rightarrow> (u8 \<times> u8) list \<Rightarrow> u32 list" where
  "matching target p [] = []"
| "matching target p (e # es) =
     (if fst e = target then [p] else []) @ matching target (p + ucast (snd e)) es"

lemma entries_cong:
  assumes "entries m p es" and "\<And>i. i < of_nat (entries_size es) \<Longrightarrow> m' (p + i) = m (p + i)" and "entries_size es < 2 ^ 32"
  shows "entries m' p es"
  using assms
proof (induction es arbitrary: p)
  case (Cons e es)
  have l: "2 \<le> unat (snd e)" using Cons.prems(1) by (simp add: word_le_nat_alt)
  have sz: "unat (of_nat (entries_size (e # es)) :: u32) = entries_size (e # es)"
    "unat (of_nat (entries_size es) :: u32) = entries_size es"
    using Cons.prems(3) by (simp_all only: entries_size.simps unat_of_nat_small)
  have *: "m' (p + i) = m (p + i)" if "unat i < entries_size (e # es)" for i
    using that sz(1) by (intro Cons.prems(2)) (simp only: word_less_nat_alt)
  have "entries m' (p + ucast (snd e)) es"
  proof (rule Cons.IH)
    fix i :: u32 assume i: "i < of_nat (entries_size es)"
    then have "unat i < entries_size es" using sz(2) by (simp add: word_less_nat_alt)
    moreover have "unat (ucast (snd e) :: u32) = unat (snd e)" by (rule unat_ucast8)
    ultimately have "unat (ucast (snd e) + i) < entries_size (e # es)"
      using Cons.prems(3) by (subst unat_add_small) simp_all
    then show "m' (p + ucast (snd e) + i) = m (p + ucast (snd e) + i)" using * by (simp add: add.assoc)
  qed (use Cons.prems in simp_all)
  then show ?case using Cons.prems(1) * [of 0] * [of 1] l by simp
qed simp


text \<open>Element \<open>j\<close> of the data array, seen from a block of \<open>N\<close> elements.\<close>

lemma element_offset:
  assumes "j < N" and "N < 2 ^ 29" and "i < 4"
  shows "unat (d + 4 * of_nat j + i - (d :: u32)) = 4 * j + unat i"
proof -
  have "unat i < 4" using assms(3) by (simp add: word_less_nat_alt)
  moreover have "4 * of_nat j = (of_nat (4 * j) :: u32)" by simp
  then have "unat (4 * of_nat j :: u32) = 4 * j"
    using assms by (simp only:) (rule unat_of_nat_small, simp)
  moreover have "d + 4 * of_nat j + i - d = 4 * of_nat j + i" by simp
  ultimately show ?thesis using assms(1,2) by (simp only:) (subst unat_add_small; simp)
qed

lemma write_element:
  assumes "j < N" and "N < 2 ^ 29" and "of_nat (4 * N) \<le> a - d \<or> a - d < 4 * of_nat j"
  shows "write32 m (d + 4 * of_nat j) v a = m a"
proof (rule write32_other)
  fix i :: u32 assume i: "i < 4"
  have n: "unat (of_nat (4 * N) :: u32) = 4 * N" "unat (of_nat (4 * j) :: u32) = 4 * j"
    by (rule unat_of_nat_small, use assms in simp)+
  have "4 * of_nat j = (of_nat (4 * j) :: u32)" by simp
  then have "4 * N \<le> unat (a - d) \<or> unat (a - d) < 4 * j"
    using assms(3) n by (simp only: word_le_nat_alt word_less_nat_alt)
  moreover have "unat i < 4" using i by (simp add: word_less_nat_alt)
  ultimately have "unat (d + 4 * of_nat j + i - d) \<noteq> unat (a - d)"
    using element_offset [OF assms(1,2) i, of d] assms(1) by linarith
  then show "d + 4 * of_nat j + i \<noteq> a" by blast
qed

text \<open>
  The scan from entry \<open>es\<close> on, with \<open>j\<close> addresses found: \<open>d\<close> is the data array, \<open>N\<close> a bound on what is
  written to it.
\<close>

definition scanned :: "u32 \<Rightarrow> nat \<Rightarrow> u32 list \<Rightarrow> mem \<Rightarrow> array_hdr \<Rightarrow> mem \<Rightarrow> nat \<Rightarrow> bool" where
  "scanned d j found m arr' m' N \<longleftrightarrow>
     array_data arr' = d \<and> curr_size arr' = of_nat (j + length found) \<and>
     (\<forall>i < length found. read32 m' (d + 4 * of_nat (j + i)) = found ! i) \<and>
     (\<forall>a. a - d < 4 * of_nat j \<or> of_nat (4 * N) \<le> a - d \<longrightarrow> m' a = m a)"

lemma scanned_Cons:
  assumes "scanned d (Suc j) found (write32 m (d + 4 * of_nat j) p) arr' m' N" and "j < N" and "N < 2 ^ 29"
  shows "scanned d j (p # found) m arr' m' N"
proof -
  let ?m1 = "write32 m (d + 4 * of_nat j) p"
  have lt: "(4 * of_nat j :: u32) < 4 * of_nat (Suc j)"
  proof -
    have "4 * of_nat j = (of_nat (4 * j) :: u32)" "4 * of_nat (Suc j) = (of_nat (4 * Suc j) :: u32)" by simp_all
    moreover have "unat (of_nat (4 * j) :: u32) = 4 * j" "unat (of_nat (4 * Suc j) :: u32) = 4 * Suc j"
      by (rule unat_of_nat_small, use assms in simp)+
    moreover have "4 * j < 4 * Suc j" by simp
    ultimately show ?thesis by (simp only: word_less_nat_alt)
  qed
  have frame: "m' a = ?m1 a" if "a - d < 4 * of_nat (Suc j) \<or> of_nat (4 * N) \<le> a - d" for a
    using assms(1) that unfolding scanned_def by blast
  have "m' (d + 4 * of_nat j + i) = ?m1 (d + 4 * of_nat j + i)" if i: "i < 4" for i
  proof (rule frame)
    have "unat (d + 4 * of_nat j + i - d) = 4 * j + unat i" by (rule element_offset [OF assms(2,3) i])
    moreover have "unat (4 * of_nat (Suc j) :: u32) = 4 * Suc j"
    proof -
      have "4 * of_nat (Suc j) = (of_nat (4 * Suc j) :: u32)" by simp
      moreover have "unat (of_nat (4 * Suc j) :: u32) = 4 * Suc j" by (rule unat_of_nat_small) (use assms in simp)
      ultimately show ?thesis by (simp only:)
    qed
    moreover have "unat i < 4" using i by (simp add: word_less_nat_alt)
    then have "4 * j + unat i < 4 * Suc j" by simp
    ultimately have "d + 4 * of_nat j + i - d < 4 * of_nat (Suc j)" by (simp only: word_less_nat_alt)
    then show "d + 4 * of_nat j + i - d < 4 * of_nat (Suc j) \<or> of_nat (4 * N) \<le> d + 4 * of_nat j + i - d" ..
  qed
  from this [of 0] this [of 1] this [of 2] this [of 3]
  have first: "read32 m' (d + 4 * of_nat j) = p"
    using read32_write32_same [of m "d + 4 * of_nat j" p] by (simp add: read32_def)
  have "read32 m' (d + 4 * of_nat (j + i)) = (p # found) ! i" if "i < Suc (length found)" for i
  proof (cases i)
    case (Suc k)
    then show ?thesis using assms(1) that by (auto simp: scanned_def)
  qed (use first in simp)
  moreover have "m' a = m a" if "a - d < 4 * of_nat j \<or> of_nat (4 * N) \<le> a - d" for a
    using that frame [of a] write_element [OF assms(2,3), of a d m p] less_trans [OF _ lt] by auto
  ultimately show ?thesis using assms(1) by (simp add: scanned_def)
qed

text \<open>The entries from offset \<open>k\<close> on are clear of the array that collects the controllers.\<close>

lemma entry_outside:
  assumes "of_nat (44 + sz) \<le> d - t" and "of_nat (4 * N) \<le> t - d" and "44 + sz < 2 ^ 32"
    and "k + unat i < sz"
  shows "of_nat (4 * N) \<le> t + 44 + of_nat k + i - (d :: u32)"
proof -
  have c: "44 + of_nat k = (of_nat (44 + k) :: u32)" by simp
  have "unat (of_nat (44 + k) :: u32) = 44 + k" by (rule unat_of_nat_small) (use assms(3,4) in simp)
  then have u: "unat (44 + of_nat k + i) = 44 + k + unat i"
    unfolding c using assms(3,4) by (subst unat_add_small) simp_all
  have "unat (of_nat (44 + sz) :: u32) = 44 + sz" by (rule unat_of_nat_small) (use assms(3) in simp)
  then have "44 + of_nat k + i < of_nat (44 + sz)"
    using assms(4) u by (simp only: word_less_nat_alt)
  from block_outside [OF assms(1,2) this] show ?thesis by (simp add: add.assoc)
qed

text \<open>One turn of the loop: an entry of the wanted type is collected.\<close>

definition collect :: "u32 \<Rightarrow> u8 \<Rightarrow> nat \<Rightarrow> u32 \<Rightarrow> mem \<Rightarrow> mem" where
  "collect d target j p m = (if m p = target then write32 m (d + 4 * of_nat j) p else m)"

lemma scan_step:
  assumes "k + unat l \<le> sz" and "2 \<le> unat l" and "44 + sz < 2 ^ 32" and "m (t + 44 + of_nat k + 1) = l"
    and "array_data arr = d" and "curr_size arr = of_nat j"
    and "collect d target j (t + 44 + of_nat k) m (t + 44 + of_nat k + 1) = l"
  shows "scan_controllers t (of_nat sz) target (of_nat k) arr m =
    scan_controllers t (of_nat sz) target (of_nat (k + unat l))
      (if m (t + 44 + of_nat k) = target then arr\<lparr>curr_size := curr_size arr + 1\<rparr> else arr)
      (collect d target j (t + 44 + of_nat k) m)"
proof -
  have "(of_nat k :: u32) < of_nat sz"
    using assms(1-3) by (simp add: word_less_nat_alt unat_of_nat_small)
  moreover have "of_nat k + ucast l = (of_nat (k + unat l) :: u32)" by simp
  ultimately show ?thesis
    using assms(4-7) by (subst scan_controllers.simps) (simp add: acpi_layout Let_def collect_def split: if_splits)
qed

lemma scan_prefix:
  assumes "entries m (t + 44 + of_nat k) es" and "k + entries_size es \<le> sz" and "44 + sz < 2 ^ 32"
    and "array_data arr = d" and "curr_size arr = of_nat j" and "j + length es \<le> N" and "N < 2 ^ 29"
    and "of_nat (44 + sz) \<le> d - t" and "of_nat (4 * N) \<le> t - d"
  shows "\<exists>arr' m'. scan_controllers t (of_nat sz) target (of_nat k) arr m =
      scan_controllers t (of_nat sz) target (of_nat (k + entries_size es)) arr' m' \<and>
    scanned d j (matching target (t + 44 + of_nat k) es) m arr' m' N"
  using assms(1,2,4-6)
proof (induction es arbitrary: k j arr m)
  case Nil
  then show ?case by (intro exI [of _ arr] exI [of _ m]) (simp add: scanned_def)
next
  case (Cons e es)
  let ?p = "t + 44 + of_nat k" and ?k = "k + unat (snd e)"
  let ?m1 = "collect d target j ?p m" and ?hit = "fst e = target"
  let ?arr1 = "if m ?p = target then arr\<lparr>curr_size := curr_size arr + 1\<rparr> else arr"
  have l: "2 \<le> unat (snd e)" using Cons.prems(1) by (simp add: word_le_nat_alt)
  have k: "?k + entries_size es \<le> sz" using Cons.prems(2) by simp
  have next_addr: "?p + ucast (snd e) = t + 44 + of_nat ?k" by (simp add: add.assoc)
  have here: "m ?p = fst e" "m (?p + 1) = snd e" "entries m (t + 44 + of_nat ?k) es"
    using Cons.prems(1) next_addr by simp_all
  have jN: "j < N" using Cons.prems(5) by simp
  have m1: "?m1 (?p + i) = m (?p + i)" if "unat i < unat (snd e) + entries_size es" for i
    using write_element [OF jN assms(7)] entry_outside [OF assms(8,9,3), of k i] that k by (simp add: collect_def)
  have step: "scan_controllers t (of_nat sz) target (of_nat k) arr m =
      scan_controllers t (of_nat sz) target (of_nat ?k) ?arr1 ?m1"
    using m1 [of 1] l k here(2) assms(3) Cons.prems(3,4)
    by (intro scan_step [where l = "snd e" and d = d and j = j]) simp_all
  have "entries ?m1 (t + 44 + of_nat ?k) es"
  proof (rule entries_cong [OF here(3)])
    fix i :: u32 assume "i < of_nat (entries_size es)"
    then have i: "unat i < entries_size es" using k assms(3) by (simp add: word_less_nat_alt unat_of_nat_small)
    then have "unat (ucast (snd e) + i) = unat (snd e) + unat i"
      using k assms(3) by (subst unat_add_small) (simp_all add: unat_ucast8)
    then show "?m1 (t + 44 + of_nat ?k + i) = m (t + 44 + of_nat ?k + i)"
      using m1 [of "ucast (snd e) + i"] i next_addr by (simp add: add.assoc)
  qed (use k assms(3) in simp)
  moreover have "array_data ?arr1 = d" "curr_size ?arr1 = of_nat (j + of_bool ?hit)"
    using Cons.prems(3,4) here(1) by simp_all
  moreover have "j + of_bool ?hit + length es \<le> N" using Cons.prems(5) by simp
  ultimately obtain arr' m' where r: "scan_controllers t (of_nat sz) target (of_nat ?k) ?arr1 ?m1 =
        scan_controllers t (of_nat sz) target (of_nat (?k + entries_size es)) arr' m'"
      "scanned d (j + of_bool ?hit) (matching target (t + 44 + of_nat ?k) es) ?m1 arr' m' N"
    using Cons.IH [OF _ k, of ?m1 ?arr1 "j + of_bool ?hit"] by blast
  have "scanned d j (matching target ?p (e # es)) m arr' m' N"
    using r(2) scanned_Cons [OF _ jN assms(7), of d "matching target (t + 44 + of_nat ?k) es" m ?p arr' m']
    unfolding matching.simps next_addr by (cases ?hit) (simp_all add: collect_def here(1))
  then show ?case using step r(1) by (metis add.assoc entries_size.simps(2))
qed

lemma scan_entries:
  assumes "entries m (t + 44) es" and "entries_size es = sz" and "44 + sz < 2 ^ 32"
    and "array_data arr = d" and "curr_size arr = 0" and "length es \<le> N" and "N < 2 ^ 29"
    and "of_nat (44 + sz) \<le> d - t" and "of_nat (4 * N) \<le> t - d"
  shows "\<exists>arr' m'. scan_controllers t (of_nat sz) target 0 arr m = Some (arr', m') \<and>
    scanned d 0 (matching target (t + 44) es) m arr' m' N"
  using scan_prefix [of m t 0 es sz arr d 0 N target] assms by (auto simp: scan_controllers.simps)


text \<open>At an entry of length 0 the scan stays where it is.\<close>

lemma scan_stuck:
  assumes "scan_controllers t eb target idx arr m = Some r" and "m (t + interrupt_controllers + idx + controller_length) = 0"
    and "m (t + interrupt_controllers + idx) \<noteq> target"
  shows "\<not> idx < eb"
proof -
  have "m (t + interrupt_controllers + idx + controller_length) = 0 \<longrightarrow>
      m (t + interrupt_controllers + idx) \<noteq> target \<longrightarrow> \<not> idx < eb"
  proof (rule scan_controllers.raw_induct [where P = "\<lambda>t eb target idx arr m r.
      m (t + interrupt_controllers + idx + controller_length) = 0 \<longrightarrow>
      m (t + interrupt_controllers + idx) \<noteq> target \<longrightarrow> \<not> idx < eb", OF _ assms(1)], intro impI notI)
    fix f t eb target idx arr m and r :: "array_hdr \<times> mem"
    assume IH: "\<And>t eb target idx arr m r. f t eb target idx arr m = Some r \<Longrightarrow>
        m (t + interrupt_controllers + idx + controller_length) = 0 \<longrightarrow>
        m (t + interrupt_controllers + idx) \<noteq> target \<longrightarrow> \<not> idx < eb"
      and run: "(if idx < eb then
          (let e = t + interrupt_controllers + idx;
               (arr, m) = (if m (e + interrupt_controller_type) = target then
                             (arr\<lparr>curr_size := curr_size arr + 1\<rparr>,
                              write32 m (array_data arr + 4 * curr_size arr) e)
                           else (arr, m))
           in f t eb target (idx + ucast (m (e + controller_length))) arr m)
        else Some (arr, m)) = Some r"
      and z: "m (t + interrupt_controllers + idx + controller_length) = 0" "m (t + interrupt_controllers + idx) \<noteq> target"
      and lt: "idx < eb"
    have "f t eb target idx arr m = Some r"
      using run z lt by (simp add: Let_def interrupt_controller_type_def)
    then show False using IH z lt by blast
  qed
  then show ?thesis using assms(2,3) by blast
qed

subsection \<open>Properties\<close>

text \<open>
  C34. The search for the MADT returns, with the address of the first table of the RSDT whose signature
  is \<open>APIC\<close>, or with NULL when there is none, whatever the tables in front of it are; it changes no
  memory but its local buffer.
\<close>

theorem get_system_descriptor_table_finds:
  assumes "rsdt_holds m (rsdt s) tabs" and "buffer_apart buf sig (rsdt s) tabs" and "is_cstr m sig ACPI_MADT_SIG"
  shows "\<exists>m'. get_system_descriptor_table buf sig s m = Some (table_with ACPI_MADT_SIG tabs, m') \<and>
    (\<forall>a. 5 \<le> a - buf \<longrightarrow> m' a = m a)"
  using get_table_search [OF assms] by (simp add: same_but_buffer_def)

text \<open>An RSDT at \<open>0x1000\<close> with one table, the MADT at \<open>0x2000\<close>, and the literal at \<open>0x3000\<close>.\<close>

definition ex_tables :: mem where
  "ex_tables = (\<lambda>_. 0)(0x1004 := 40, 0x1025 := 0x20, 0x2000 := 0x41, 0x2001 := 0x50, 0x2002 := 0x49, 0x2003 := 0x43,
     0x2004 := 66, 0x202C := 1, 0x202D := 12, 0x2038 := 2, 0x2039 := 10,
     0x3000 := 0x41, 0x3001 := 0x50, 0x3002 := 0x49, 0x3003 := 0x43)"

definition ex_acpi :: acpi where "ex_acpi = \<lparr>rsdp = 0, rsdt = 0x1000, madt = 0x2000\<rparr>"

lemma ex_tables_rsdt:
  "rsdt_holds ex_tables (rsdt ex_acpi) [(0x2000, [0x41, 0x50, 0x49, 0x43, 66])]"
  "buffer_apart 0x4000 0x3000 (rsdt ex_acpi) [(0x2000, [0x41, 0x50, 0x49, 0x43, 66])]"
  "is_cstr ex_tables 0x3000 ACPI_MADT_SIG"
  by (simp_all add: rsdt_holds_def buffer_apart_def table_header_def ex_tables_def ex_acpi_def read32_def
      ACPI_MADT_SIG_def)

theorem get_system_descriptor_table_finds_witness:
  "\<exists>m'. get_system_descriptor_table 0x4000 0x3000 ex_acpi ex_tables = Some (0x2000, m')"
  using get_system_descriptor_table_finds [OF ex_tables_rsdt]
  by (auto simp: table_with_def ACPI_MADT_SIG_def)

text \<open>
  C35. The code builds the array of controllers behind a data pointer that it never sets (its own
  comment calls the function bugged). Assume that this pointer happens to point to enough memory that
  does not overlap the table, and that the entries of the table give their true lengths, at least 2,
  and fill it. Then the search for one type returns, and the array holds the addresses of exactly the
  entries of this type, in the order of the table; nothing outside the array's memory is changed.
\<close>

theorem get_interruptcontroller_collects:
  assumes "entries m (madt s + 44) es" and "read32 m (madt s + 4) = of_nat (44 + entries_size es)"
    and "44 + entries_size es < 2 ^ 32" and "length es < 2 ^ 29"
    and "d = array_data uninit" and "of_nat (44 + entries_size es) \<le> d - madt s" and "of_nat (4 * length es) \<le> madt s - d"
    and "target = (case ctl of IOAPIC \<Rightarrow> 1 | ISO \<Rightarrow> 2 | LAPIC \<Rightarrow> 0xFF)"
  defines "found \<equiv> matching target (madt s + 44) es"
  shows "\<exists>arr m'. get_interruptcontroller uninit ctl s m = Some (arr, m') \<and>
    array_data arr = d \<and> curr_size arr = of_nat (length found) \<and>
    (\<forall>i < length found. read32 m' (d + 4 * of_nat i) = found ! i) \<and>
    (\<forall>a. of_nat (4 * length es) \<le> a - d \<longrightarrow> m' a = m a)"
proof -
  have "\<exists>arr m'. scan_controllers (madt s) (of_nat (entries_size es)) target 0 (init_array uninit) m = Some (arr, m') \<and>
      scanned d 0 (matching target (madt s + 44) es) m arr m' (length es)"
    by (rule scan_entries) (use assms in \<open>simp_all add: init_array_def\<close>)
  moreover have "get_interruptcontroller uninit ctl s m =
      scan_controllers (madt s) (of_nat (entries_size es)) target 0 (init_array uninit) m"
    using assms(2,8)
    by (cases ctl)
      (simp_all add: get_interruptcontroller_def acpi_layout ACPI_MADT_IOAPIC_def ACPI_MADT_ISO_def Let_def)
  ultimately show ?thesis unfolding found_def scanned_def by auto
qed

text \<open>One I/O APIC and one interrupt source override, with the data pointer at \<open>0x8000\<close>.\<close>

theorem get_interruptcontroller_collects_witness:
  "\<exists>arr m'. get_interruptcontroller \<lparr>array_data = 0x8000, curr_size = 7, max_capacity = 0\<rparr> IOAPIC ex_acpi ex_tables =
      Some (arr, m') \<and> curr_size arr = 1 \<and> read32 m' 0x8000 = 0x202C"
proof -
  let ?un = "\<lparr>array_data = 0x8000, curr_size = 7, max_capacity = 0\<rparr>" and ?es = "[(1, 12), (2, 10)] :: (u8 \<times> u8) list"
  have "entries ex_tables (madt ex_acpi + 44) ?es" by (simp add: ex_tables_def ex_acpi_def)
  moreover have "read32 ex_tables (madt ex_acpi + 4) = of_nat (44 + entries_size ?es)"
    by (simp add: ex_tables_def ex_acpi_def read32_def)
  ultimately show ?thesis
    using get_interruptcontroller_collects [of ex_tables ex_acpi ?es "0x8000" ?un 1 IOAPIC]
    by (auto simp: ex_acpi_def)
qed

text \<open>
  C36. An entry that gives its length as 0 stops the walk from ever ending: when the entries \<open>es\<close> before
  it give their true lengths and it is not of the type looked for, the search does not return. As for
  a table in order, this assumes that the uninitialised data pointer of the array happens to point to
  enough memory apart from the table; with no entry before the bad one nothing is written and the pointer
  does not matter.
\<close>

theorem get_interruptcontroller_stuck:
  assumes "entries m (madt s + 44) es" and "entries_size es + 2 \<le> n"
    and "read32 m (madt s + 4) = of_nat (44 + n)" and "44 + n < 2 ^ 32" and "length es < 2 ^ 29"
    and "es = [] \<or> of_nat (44 + n) \<le> array_data uninit - madt s \<and>
      of_nat (4 * length es) \<le> madt s - array_data uninit"
    and "m (madt s + 44 + of_nat (entries_size es)) = ty" and "m (madt s + 44 + of_nat (entries_size es) + 1) = 0"
    and "ty \<noteq> (case ctl of IOAPIC \<Rightarrow> 1 | ISO \<Rightarrow> 2 | LAPIC \<Rightarrow> 0xFF)"
  shows "get_interruptcontroller uninit ctl s m = None"
proof -
  let ?target = "case ctl of IOAPIC \<Rightarrow> (1 :: u8) | ISO \<Rightarrow> 2 | LAPIC \<Rightarrow> 0xFF"
  let ?k = "entries_size es" and ?d = "array_data uninit" and ?t = "madt s"
  let ?p = "?t + 44 + of_nat ?k"
  have start: "get_interruptcontroller uninit ctl s m =
      scan_controllers ?t (of_nat n) ?target 0 (init_array uninit) m"
    using assms(3)
    by (cases ctl)
      (simp_all add: get_interruptcontroller_def acpi_layout ACPI_MADT_IOAPIC_def ACPI_MADT_ISO_def Let_def)
  obtain arr' m' where run: "scan_controllers ?t (of_nat n) ?target 0 (init_array uninit) m =
      scan_controllers ?t (of_nat n) ?target (of_nat ?k) arr' m'"
    and same: "m' ?p = m ?p" "m' (?p + 1) = m (?p + 1)"
  proof (cases "es = []")
    case True
    then show ?thesis using that [of "init_array uninit" m] by simp
  next
    case False
    then have sep: "of_nat (44 + n) \<le> ?d - ?t" "of_nat (4 * length es) \<le> ?t - ?d" using assms(6) by auto
    obtain arr' m' where r: "scan_controllers ?t (of_nat n) ?target 0 (init_array uninit) m =
        scan_controllers ?t (of_nat n) ?target (of_nat ?k) arr' m'"
      "scanned ?d 0 (matching ?target (?t + 44) es) m arr' m' (length es)"
      using scan_prefix [of m ?t 0 es n "init_array uninit" ?d 0 "length es" ?target] assms(1,2,4,5) sep
      by (auto simp: init_array_def)
    have out: "m' (?p + i) = m (?p + i)" if "?k + unat i < n" for i
      using entry_outside [OF sep assms(4) that] r(2) by (auto simp: scanned_def)
    have "m' ?p = m ?p" "m' (?p + 1) = m (?p + 1)" using out [of 0] out [of 1] assms(2) by simp_all
    then show ?thesis using that r(1) by blast
  qed
  have "scan_controllers ?t (of_nat n) ?target (of_nat ?k) arr' m' = None"
  proof (cases "scan_controllers ?t (of_nat n) ?target (of_nat ?k) arr' m'")
    case (Some r)
    have "(of_nat ?k :: u32) < of_nat n"
      using assms(2,4) by (simp add: word_less_nat_alt unat_of_nat_small)
    then show ?thesis
      using scan_stuck [OF Some] same assms(7-9) by (simp add: acpi_layout add.assoc)
  qed
  then show ?thesis using start run by simp
qed

text \<open>An I/O APIC, then a non-maskable interrupt source whose length is 0.\<close>

theorem get_interruptcontroller_stuck_witness:
  "get_interruptcontroller \<lparr>array_data = 0x8000, curr_size = 7, max_capacity = 0\<rparr> IOAPIC ex_acpi
     (ex_tables(0x2038 := 3, 0x2039 := 0)) = None"
  by (rule get_interruptcontroller_stuck [where es = "[(1, 12)]" and n = 22 and ty = 3])
    (simp_all add: ex_tables_def ex_acpi_def read32_def)

end
