(* ===== verification/Apic.thy ===== *)
theory Apic
  imports Acpi Boot_Mem "HOL-Library.Numeral_Type"
begin

text \<open>
  The local APIC (\<^verbatim>\<open>src/kernel/interrupts/lapic.c\<close>, \<^verbatim>\<open>lapic.h\<close>) and the I/O APIC
  (\<^verbatim>\<open>src/kernel/interrupts/apic.c\<close>, \<^verbatim>\<open>apic.h\<close>). Their registers are memory mapped: as with ports, an
  access is an event of a history (\<open>mmio\<close>) and the device (\<open>dev\<close>) answers a read from the history.
  A write to a model-specific register is an event too, because one of them moves the registers of
  the local APIC.
\<close>

unbundle bit_operations_syntax

subsection \<open>Device memory\<close>

datatype mmio_event = MWrite u32 u32 | MRead u32 u32 | WrMsr u32 u64

type_synonym mmio_device = "mmio_event list \<Rightarrow> u32 \<Rightarrow> u32"

subsection \<open>State\<close>

text \<open>\<open>struct LAPIC_Registers\<close>: every field is 32 bits wide and aligned to 16 bytes.\<close>

definition LAPIC_Registers :: "string list" where
  "LAPIC_Registers =
    [''reserved1'', ''reserved2'', ''ID'', ''version'', ''reserved3'', ''reserved4'', ''reserved5'', ''reserved6'',
     ''tpr'', ''apr'', ''ppr'', ''eoi'', ''rrd'', ''ldr'', ''dfr'', ''svr'',
     ''isr1'', ''isr2'', ''isr3'', ''isr4'', ''isr5'', ''isr6'', ''isr7'', ''isr8'',
     ''tmr1'', ''tmr2'', ''tmr3'', ''tmr4'', ''tmr5'', ''tmr6'', ''tmr7'', ''tmr8'',
     ''irr1'', ''irr2'', ''irr3'', ''irr4'', ''irr5'', ''irr6'', ''irr7'', ''irr8'',
     ''esr'', ''reserved7'', ''reserved8'', ''reserved9'', ''reserved10'', ''reserved11'', ''reserved12'', ''lvt_cmci'',
     ''icr_low'', ''icr_high'', ''lvt_timer'', ''lvt_thermal'', ''lvt_performance'', ''lvt_lint0'', ''lvt_lint1'', ''lvt_error'',
     ''timer_initial_count'', ''timer_current_count'', ''reserved13'', ''reserved14'', ''reserved15'', ''reserved16'',
     ''timer_divide_config'', ''reserved17'']"

definition lapic_field :: "string \<Rightarrow> u32" where
  "lapic_field f = 16 * of_nat (length (takeWhile (\<lambda>g. g \<noteq> f) LAPIC_Registers))"

record IA32_APIC_MSR =
  reserved_low :: u8
  is_bsp :: "1 word"
  reserved_mid :: "2 word"
  APIC_global_enable :: "1 word"
  LAPIC_base_inunitsofpages :: "24 word"
  reserved_high :: "28 word"

record LVT_standard =
  lvt_interrupt_vector :: u8
  lvt_flags :: u8
  lvt_mask :: u8
  lvt_reserved :: u8

text \<open>
  The union is packed, the structure in it is not: the bit-fields end in byte 2, byte 3 is padding
  (\<open>irt_padding\<close>), \<open>irt_reserved_high\<close> takes bytes 4 to 7 and \<open>destination\<close> is byte 8, behind the
  eight bytes of \<open>bits\<close>.
\<close>

record Interrupt_Redirection_Table_Entry =
  interrupt_vector_num :: u8
  delivery_mode :: "3 word"
  dest_mode :: "1 word"
  delivery_status :: "1 word"
  pin_polarity :: "1 word"
  remote_irr :: "1 word"
  trigger_mode :: "1 word"
  interrupt_mask :: "1 word"
  irt_reserved_low :: "7 word"
  irt_padding :: u8
  irt_reserved_high :: u32
  destination :: u8

definition irt_bits :: "Interrupt_Redirection_Table_Entry \<Rightarrow> u64" where
  "irt_bits e = ucast (interrupt_vector_num e) OR push_bit 8 (ucast (delivery_mode e)) OR
     push_bit 11 (ucast (dest_mode e)) OR push_bit 12 (ucast (delivery_status e)) OR
     push_bit 13 (ucast (pin_polarity e)) OR push_bit 14 (ucast (remote_irr e)) OR
     push_bit 15 (ucast (trigger_mode e)) OR push_bit 16 (ucast (interrupt_mask e)) OR
     push_bit 17 (ucast (irt_reserved_low e)) OR push_bit 24 (ucast (irt_padding e)) OR
     push_bit 32 (ucast (irt_reserved_high e))"

record IOAPIC_regs =
  IO_Register_Selector :: u32
  IO_Window_Register :: u32
  irt :: "Interrupt_Redirection_Table_Entry list"

text \<open>
  The machine: the state of the software (\<open>mm\<close>, of which the APIC code uses the memory manager), ACPI pointers, the feature flags \<open>cpuid\<close> gives in EDX for leaf 1, the
  model-specific registers, the pointers of both files, and the accesses to device memory so far.
\<close>

record 'm machine =
  mm :: 'm
  acpi_tables :: acpi
  cpuid_edx :: u32
  msr :: "u32 \<Rightarrow> u64"
  lapic_base_address :: u32
  lapic :: u32
  ioapic :: IOAPIC_regs
  mmio :: "mmio_event list"

definition mmio_write :: "u32 \<Rightarrow> u32 \<Rightarrow> 'm machine \<Rightarrow> 'm machine" where
  "mmio_write a v s = s\<lparr>mmio := mmio s @ [MWrite a v]\<rparr>"

definition mmio_read :: "mmio_device \<Rightarrow> u32 \<Rightarrow> 'm machine \<Rightarrow> u32 \<times> 'm machine" where
  "mmio_read dev a s = (dev (mmio s) a, s\<lparr>mmio := mmio s @ [MRead a (dev (mmio s) a)]\<rparr>)"

subsection \<open>Local APIC\<close>

named_theorems apic_defs

definition IA32_LAPIC_MSR_NUM :: u32 where [apic_defs]: "IA32_LAPIC_MSR_NUM = 0x1B"
definition SPUR_VEC_REG_APIC_ENABLE_BIT_OFFSET :: nat where [apic_defs]: "SPUR_VEC_REG_APIC_ENABLE_BIT_OFFSET = 8"
definition APIC_MSR_GLOBALENABLE_BIT_OFFSET :: nat where [apic_defs]: "APIC_MSR_GLOBALENABLE_BIT_OFFSET = 11"
definition LAPIC_MMIO_LENGTH :: u32 where [apic_defs]: "LAPIC_MMIO_LENGTH = 0x1000"
definition LVT_ENTRY_DELIV_MODE_FIXED :: u32 where [apic_defs]: "LVT_ENTRY_DELIV_MODE_FIXED = push_bit 8 0"
definition LVT_ENTRY_DELIV_STATUS_IDLE :: u32 where [apic_defs]: "LVT_ENTRY_DELIV_STATUS_IDLE = push_bit 12 0"
definition LVT_ENTRY_DELIV_STATUS_PENDING :: u32 where [apic_defs]: "LVT_ENTRY_DELIV_STATUS_PENDING = push_bit 12 1"
definition LVT_ENTRY_EDGE_SENSITIVE :: u32 where [apic_defs]: "LVT_ENTRY_EDGE_SENSITIVE = push_bit 13 0"
definition LVT_ENTRY_LEVEL_SENSITIVE :: u32 where [apic_defs]: "LVT_ENTRY_LEVEL_SENSITIVE = push_bit 13 1"
definition LVT_ENTRY_ACTIVE_HIGH :: u32 where [apic_defs]: "LVT_ENTRY_ACTIVE_HIGH = push_bit 15 0"
definition LVT_ENTRY_ACTIVE_LOW :: u32 where [apic_defs]: "LVT_ENTRY_ACTIVE_LOW = push_bit 15 1"
definition LVT_ENTRY_UNMASKED :: u32 where [apic_defs]: "LVT_ENTRY_UNMASKED = push_bit 16 0"
definition LVT_ENTRY_MASKED :: u32 where [apic_defs]: "LVT_ENTRY_MASKED = push_bit 16 1"

definition is_lapic_present :: "'m machine \<Rightarrow> bool" where
  "is_lapic_present s = (let res = cpuid_edx s AND 0x100 in res > 1)"

text \<open>The eight bytes copied into the structure, and its packed bit-fields.\<close>

definition msr_fields :: "u64 \<Rightarrow> IA32_APIC_MSR" where
  "msr_fields w = \<lparr>reserved_low = ucast w, is_bsp = ucast (drop_bit 8 w), reserved_mid = ucast (drop_bit 9 w),
     APIC_global_enable = ucast (drop_bit 11 w), LAPIC_base_inunitsofpages = ucast (drop_bit 12 w),
     reserved_high = ucast (drop_bit 36 w)\<rparr>"

definition get_lapic_msr :: "u32 \<Rightarrow> 'm machine \<Rightarrow> IA32_APIC_MSR" where
  "get_lapic_msr msr_num s =
     (let lowbits = (ucast (msr s msr_num) :: u32);
          highbits = (ucast (drop_bit 32 (msr s msr_num)) :: u32)
      in msr_fields (ucast lowbits OR push_bit 32 (ucast highbits)))"

definition write_lapic_msr :: "u32 \<Rightarrow> u32 \<Rightarrow> 'm machine \<Rightarrow> 'm machine" where
  "write_lapic_msr msr_num lowerbits_data s =
     s\<lparr>msr := (msr s)(msr_num := ucast lowerbits_data), mmio := mmio s @ [WrMsr msr_num (ucast lowerbits_data)]\<rparr>"

definition build_lvt_entry :: "u8 \<Rightarrow> bool \<Rightarrow> LVT_standard" where
  "build_lvt_entry vector masked =
     \<lparr>lvt_interrupt_vector = vector,
      lvt_flags = ucast (0 OR LVT_ENTRY_DELIV_MODE_FIXED OR LVT_ENTRY_DELIV_STATUS_IDLE OR LVT_ENTRY_ACTIVE_HIGH OR
        LVT_ENTRY_EDGE_SENSITIVE),
      lvt_mask = of_bool masked, lvt_reserved = 0\<rparr>"

text \<open>\<open>*(uint32_t*) &lint0\<close>\<close>

definition lvt_word :: "LVT_standard \<Rightarrow> u32" where
  "lvt_word e = ucast (lvt_interrupt_vector e) OR push_bit 8 (ucast (lvt_flags e)) OR
     push_bit 16 (ucast (lvt_mask e)) OR push_bit 24 (ucast (lvt_reserved e))"

definition disable_pic :: "'m machine \<Rightarrow> 'm machine" where
  "disable_pic s =
     (let lint0 = build_lvt_entry 0 (LVT_ENTRY_MASKED \<noteq> 0);
          lint1 = build_lvt_entry 0 (LVT_ENTRY_MASKED \<noteq> 0);
          s = mmio_write (lapic s + lapic_field ''lvt_lint0'') (lvt_word lint0) s
      in mmio_write (lapic s + lapic_field ''lvt_lint1'') (lvt_word lint1) s)"

definition enable_lapic :: "mmio_device \<Rightarrow> 'm machine \<Rightarrow> 'm machine" where
  "enable_lapic dev s =
     (let s = write_lapic_msr IA32_LAPIC_MSR_NUM (push_bit APIC_MSR_GLOBALENABLE_BIT_OFFSET 1) s;
          enable_apic_bit = push_bit SPUR_VEC_REG_APIC_ENABLE_BIT_OFFSET 1;
          (v, s) = mmio_read dev (lapic s + lapic_field ''svr'') s
      in mmio_write (lapic s + lapic_field ''svr'') (v OR enable_apic_bit) s)"

definition assign_spurious_interrupt_vector_num :: "mmio_device \<Rightarrow> u8 \<Rightarrow> 'm machine \<Rightarrow> 'm machine" where
  "assign_spurious_interrupt_vector_num dev vector_num s =
     (let (v, s) = mmio_read dev (lapic s + lapic_field ''svr'') s
      in mmio_write (lapic s + lapic_field ''svr'') (v OR ucast vector_num) s)"

definition write_EOI :: "'m machine \<Rightarrow> 'm machine" where
  "write_EOI s = mmio_write (lapic s + lapic_field ''eoi'') 0 s"

definition initialize_lapic :: "nat \<Rightarrow> ('a vmm_scheme \<Rightarrow> u32) \<Rightarrow> mmio_device \<Rightarrow> 'a vmm_scheme machine \<Rightarrow> 'a vmm_scheme machine option" where
  "initialize_lapic fuel noflags dev s =
     (let have_lapic = is_lapic_present s in
      if have_lapic then
        (let lapic_msr = get_lapic_msr IA32_LAPIC_MSR_NUM s;
             s = s\<lparr>lapic_base_address := push_bit 12 (ucast (LAPIC_base_inunitsofpages lapic_msr))\<rparr>;
             s = s\<lparr>lapic := lapic_base_address s\<rparr>
         in map_option (\<lambda>(_, v).
              let s = s\<lparr>mm := v\<rparr>;
                  s = disable_pic s;
                  s = enable_lapic dev s;
                  spur_vec = 0xFF
              in assign_spurious_interrupt_vector_num dev spur_vec s)
            (init_MMIO_device fuel noflags (lapic_base_address s) LAPIC_MMIO_LENGTH (mm s)))
      else Some s)"

subsection \<open>I/O APIC\<close>

definition IOAPIC_IRT_BASE_REG :: u8 where [apic_defs]: "IOAPIC_IRT_BASE_REG = 0x10"
definition IOAPIC_FIXED_DELIV_MODE :: u32 where [apic_defs]: "IOAPIC_FIXED_DELIV_MODE = 0x0"
definition IOAPIC_DEST_SINGLE_LAPIC :: u32 where [apic_defs]: "IOAPIC_DEST_SINGLE_LAPIC = 0"
definition IOAPIC_DEST_MULTIPLE_LAPICS :: u32 where [apic_defs]: "IOAPIC_DEST_MULTIPLE_LAPICS = 1"
definition IOAPIC_PIN_ACTIVE_HIGH :: u32 where [apic_defs]: "IOAPIC_PIN_ACTIVE_HIGH = 0"
definition IOAPIC_PIN_ACTIVE_LOW :: u32 where [apic_defs]: "IOAPIC_PIN_ACTIVE_LOW = 1"
definition IOAPIC_INTERRUPT_TRIGGER_ON_EDGE :: u32 where [apic_defs]: "IOAPIC_INTERRUPT_TRIGGER_ON_EDGE = 0"
definition IOAPIC_INTERRUPT_TRIGGER_ON_LEVEL :: u32 where [apic_defs]: "IOAPIC_INTERRUPT_TRIGGER_ON_LEVEL = 1"
definition IOAPIC_INTERRUPT_UNMASKED :: u32 where [apic_defs]: "IOAPIC_INTERRUPT_UNMASKED = 0"
definition IOAPIC_INTERRUPT_MASKED :: u32 where [apic_defs]: "IOAPIC_INTERRUPT_MASKED = 1"
definition USER_INTERRUPT_VECTOR_BEGIN :: u32 where [apic_defs]: "USER_INTERRUPT_VECTOR_BEGIN = 0x20"
definition IOAPIC_MMIO_LENGTH :: u32 where [apic_defs]: "IOAPIC_MMIO_LENGTH = 0x20"

text \<open>\<open>uninit\<close> is the local entry before its fields are set; three of them never are.\<close>

definition build_irt_entry :: "Interrupt_Redirection_Table_Entry \<Rightarrow> u32 \<Rightarrow> u8 \<Rightarrow> Interrupt_Redirection_Table_Entry" where
  "build_irt_entry uninit irq_idx dest_lapic =
     uninit\<lparr>interrupt_vector_num := ucast (USER_INTERRUPT_VECTOR_BEGIN + irq_idx),
       delivery_mode := ucast IOAPIC_FIXED_DELIV_MODE,
       dest_mode := ucast IOAPIC_DEST_SINGLE_LAPIC,
       pin_polarity := ucast IOAPIC_PIN_ACTIVE_HIGH,
       trigger_mode := ucast IOAPIC_INTERRUPT_TRIGGER_ON_EDGE,
       interrupt_mask := ucast IOAPIC_INTERRUPT_UNMASKED,
       destination := dest_lapic,
       irt_reserved_low := 0,
       irt_reserved_high := 0\<rparr>"

definition select_ioapic_reg :: "u8 \<Rightarrow> 'm machine \<Rightarrow> 'm machine" where
  "select_ioapic_reg reg_num s = mmio_write (IO_Register_Selector (ioapic s)) (ucast reg_num) s"

definition write_ioapic_reg :: "u32 \<Rightarrow> 'm machine \<Rightarrow> 'm machine" where
  "write_ioapic_reg data s = mmio_write (IO_Window_Register (ioapic s)) data s"

definition read_ioapic_reg :: "mmio_device \<Rightarrow> u8 \<Rightarrow> 'm machine \<Rightarrow> u32 \<times> 'm machine" where
  "read_ioapic_reg dev reg_num s =
     (let s = select_ioapic_reg reg_num s in mmio_read dev (IO_Window_Register (ioapic s)) s)"

definition set_irt_entry :: "mmio_device \<Rightarrow> u8 \<Rightarrow> Interrupt_Redirection_Table_Entry \<Rightarrow> 'm machine \<Rightarrow> 'm machine" where
  "set_irt_entry dev irq_idx new_irq_irt_entry s =
     (let lowbits_reg = IOAPIC_IRT_BASE_REG + irq_idx * 2;
          highbits_reg = lowbits_reg + 1;
          (res_low, s) = read_ioapic_reg dev lowbits_reg s;
          (res_high, s) = read_ioapic_reg dev highbits_reg s;
          s = select_ioapic_reg lowbits_reg s;
          s = write_ioapic_reg (ucast (irt_bits new_irq_irt_entry)) s;
          (res_low, s) = read_ioapic_reg dev lowbits_reg s;
          s = select_ioapic_reg highbits_reg s;
          irt_upper_bits = ucast (drop_bit 32 (irt_bits new_irq_irt_entry));
          s = write_ioapic_reg irt_upper_bits s;
          (res_high, s) = read_ioapic_reg dev highbits_reg s
      in s)"

definition initialize_irt :: "Interrupt_Redirection_Table_Entry \<Rightarrow> mmio_device \<Rightarrow> 'm machine \<Rightarrow> 'm machine" where
  "initialize_irt uninit dev s =
     (let (lapic_id, s) = mmio_read dev (lapic s + lapic_field ''ID'') s;
          keyboard_irq = 1;
          irq_irt_entry = build_irt_entry uninit (ucast keyboard_irq) (ucast lapic_id)
      in set_irt_entry dev keyboard_irq irq_irt_entry s)"

definition initialize_ioapic ::
    "nat \<Rightarrow> ('a vmm_scheme \<Rightarrow> u32) \<Rightarrow> array_hdr \<Rightarrow> Interrupt_Redirection_Table_Entry \<Rightarrow> mmio_device \<Rightarrow> 'a vmm_scheme machine \<Rightarrow> 'a vmm_scheme machine option" where
  "initialize_ioapic fuel noflags uninit_array uninit_entry dev s =
     Option.bind (get_interruptcontroller uninit_array IOAPIC (acpi_tables s) (hmem (mm s))) (\<lambda>(descs, m).
       let s = s\<lparr>mm := (mm s)\<lparr>hmem := m\<rparr>\<rparr>;
           ioapic_desc = read32 m (array_data descs);
           base = read32 m (ioapic_desc + physical_base_address);
           s = s\<lparr>ioapic := (ioapic s)\<lparr>IO_Register_Selector := base, IO_Window_Register := base + 0x10\<rparr>\<rparr>
       in map_option (\<lambda>(_, v). initialize_irt uninit_entry dev (s\<lparr>mm := v\<rparr>))
            (init_MMIO_device fuel noflags base IOAPIC_MMIO_LENGTH (mm s)))"

text \<open>The copies \<open>initialize_interrupt_source_overrides\<close> makes are local: nothing is done with them.\<close>

record InterruptSourceOverride_Desc =
  iso_type :: u8
  iso_length :: u8
  iso_bus :: u8
  iso_source :: u8
  global_system_interrupt :: u32
  iso_flags :: u16

definition read_iso :: "mem \<Rightarrow> u32 \<Rightarrow> InterruptSourceOverride_Desc" where
  "read_iso m p = \<lparr>iso_type = m p, iso_length = m (p + 1), iso_bus = m (p + 2), iso_source = m (p + 3),
     global_system_interrupt = read32 m (p + 4), iso_flags = ucast (m (p + 8)) OR push_bit 8 (ucast (m (p + 9)))\<rparr>"

definition initialize_interrupt_source_overrides ::
    "array_hdr \<Rightarrow> 'a vmm_scheme machine \<Rightarrow> (InterruptSourceOverride_Desc list \<times> 'a vmm_scheme machine) option" where
  "initialize_interrupt_source_overrides uninit_array s =
     map_option (\<lambda>(iso_array, m).
         (map (\<lambda>iso_idx. read_iso m (read32 m (array_data iso_array + 4 * of_nat iso_idx))) [0..<unat (curr_size iso_array)],
          s\<lparr>mm := (mm s)\<lparr>hmem := m\<rparr>\<rparr>))
       (get_interruptcontroller uninit_array ISO (acpi_tables s) (hmem (mm s)))"


subsection \<open>The chips\<close>

text \<open>
  The I/O APIC at \<open>base\<close>: the selector names the register that the window, 16 bytes behind it,
  accesses.
\<close>

record ioapic_chip =
  chip_select :: u32
  chip_regs :: "u32 \<Rightarrow> u32"

primrec chip_event :: "u32 \<Rightarrow> mmio_event \<Rightarrow> ioapic_chip \<Rightarrow> ioapic_chip" where
  "chip_event base (MWrite a v) c =
     (if a = base then c\<lparr>chip_select := v\<rparr>
      else if a = base + 0x10 then c\<lparr>chip_regs := (chip_regs c)(chip_select c := v)\<rparr>
      else c)"
| "chip_event base (MRead a v) c = c"
| "chip_event base (WrMsr n w) c = c"

text \<open>
  The local APIC: a page of registers that keep what is written to them. The base field of the
  machine register \<open>0x1B\<close> says where the page is, as the manuals document it (\<open>moves\<close>), but there are
  emulators on which the page stays where it was.
\<close>

record lapic_chip =
  lapic_page :: u32
  lapic_regs :: "u32 \<Rightarrow> u32"

primrec lapic_event :: "bool \<Rightarrow> mmio_event \<Rightarrow> lapic_chip \<Rightarrow> lapic_chip" where
  "lapic_event moves (MWrite a v) c =
     (if a - lapic_page c < 0x1000 then c\<lparr>lapic_regs := (lapic_regs c)(a - lapic_page c := v)\<rparr> else c)"
| "lapic_event moves (MRead a v) c = c"
| "lapic_event moves (WrMsr n w) c =
     (if moves \<and> n = 0x1B then c\<lparr>lapic_page := ucast w AND 0xFFFFF000\<rparr> else c)"

text \<open>A device that answers from these registers, from \<open>c\<close> on.\<close>

definition lapic_device :: "bool \<Rightarrow> lapic_chip \<Rightarrow> mmio_device \<Rightarrow> bool" where
  "lapic_device moves c dev \<longleftrightarrow>
     (\<forall>h a. let d = fold (lapic_event moves) h c in
       a - lapic_page d < 0x1000 \<longrightarrow> dev h a = lapic_regs d (a - lapic_page d))"

lemma lapic_fields:
  "lapic_field ''ID'' = 0x20" "lapic_field ''eoi'' = 0xB0" "lapic_field ''svr'' = 0xF0"
  "lapic_field ''lvt_lint0'' = 0x350" "lapic_field ''lvt_lint1'' = 0x360"
  by (simp_all add: lapic_field_def LAPIC_Registers_def)

lemma irt_low:
  "ucast (irt_bits (build_irt_entry u 1 d)) =
     (0x21 OR push_bit 12 (ucast (delivery_status u)) OR push_bit 14 (ucast (remote_irr u)) OR
      push_bit 24 (ucast (irt_padding u)) :: u32)"
  by (rule bit_word_eqI) (auto simp: irt_bits_def build_irt_entry_def apic_defs bit_simps)

lemma irt_high: "ucast (drop_bit 32 (irt_bits (build_irt_entry u 1 d))) = (0 :: u32)"
  by (rule bit_word_eqI) (auto simp: irt_bits_def build_irt_entry_def apic_defs bit_simps dest: bit_imp_le_length)

lemma msr_base:
  "push_bit 12 (ucast (LAPIC_base_inunitsofpages (get_lapic_msr n s))) = (ucast (msr s n) AND 0xFFFFF000 :: u32)"
proof -
  have base: "LAPIC_base_inunitsofpages (get_lapic_msr n s) =
      ucast (drop_bit 12 ((ucast (ucast (msr s n) :: u32) :: u64) OR push_bit 32 (ucast (ucast (drop_bit 32 (msr s n)) :: u32))))"
    by (simp add: get_lapic_msr_def msr_fields_def Let_def)
  have mask: "(0xFFFFF000 :: u32) = NOT (mask 12)" by (simp add: mask_eq_exp_minus_1)
  show ?thesis unfolding base mask by (rule bit_word_eqI) (auto simp: bit_simps)
qed

lemma lapic_present_iff: "is_lapic_present s \<longleftrightarrow> bit (cpuid_edx s) 8"
proof -
  have "bit (2 ^ 8 :: u32) n \<longleftrightarrow> n = 8" for n by (simp only: bit_exp_iff) auto
  then have flag: "bit (0x100 :: u32) n \<longleftrightarrow> n = 8" for n by simp
  have "cpuid_edx s AND 0x100 = (if bit (cpuid_edx s) 8 then 0x100 else 0)"
    by (rule bit_word_eqI) (auto simp: bit_and_iff flag simp del: bit_numeral_word_iff)
  then show ?thesis by (simp add: is_lapic_present_def)
qed

subsection \<open>Set-up\<close>

text \<open>The accesses of the keyboard's redirection entry to the I/O APIC.\<close>

lemma initialize_irt_chip:
  assumes "IO_Register_Selector (ioapic s) = base" and "IO_Window_Register (ioapic s) = base + 0x10"
  shows "\<exists>h. mmio (initialize_irt u dev s) = mmio s @ h \<and>
    chip_regs (fold (chip_event base) h c) =
      (chip_regs c)(0x12 := 0x21 OR push_bit 12 (ucast (delivery_status u)) OR push_bit 14 (ucast (remote_irr u)) OR
                      push_bit 24 (ucast (irt_padding u)), 0x13 := 0)"
proof -
  have regs: "IOAPIC_IRT_BASE_REG = 0x10" by (simp add: apic_defs)
  have win: "base + 0x10 \<noteq> base" by simp
  show ?thesis
    by (rule exI [of _ "drop (length (mmio s)) (mmio (initialize_irt u dev s))"])
      (simp add: initialize_irt_def set_irt_entry_def read_ioapic_reg_def select_ioapic_reg_def write_ioapic_reg_def
        mmio_write_def mmio_read_def assms regs win irt_low irt_high Let_def)
qed

text \<open>Every access of the set-up, whatever the device answers.\<close>

definition lapic_accesses :: "mmio_device \<Rightarrow> u32 \<Rightarrow> mmio_event list \<Rightarrow> mmio_event list" where
  "lapic_accesses dev base h =
     (let h1 = [MWrite (base + 0x350) 0x10000, MWrite (base + 0x360) 0x10000, WrMsr 0x1B 0x800];
          v1 = dev (h @ h1) (base + 0xF0);
          h2 = h1 @ [MRead (base + 0xF0) v1, MWrite (base + 0xF0) (v1 OR 0x100)];
          v2 = dev (h @ h2) (base + 0xF0)
      in h2 @ [MRead (base + 0xF0) v2, MWrite (base + 0xF0) (v2 OR 0xFF)])"

lemma lapic_setup:
  assumes "bit (cpuid_edx s) 8" and "base = ucast (msr s 0x1B) AND 0xFFFFF000"
    and "init_MMIO_device fuel noflags base 0x1000 (mm s) = Some (r, v)"
  shows "initialize_lapic fuel noflags dev s =
    Some (s\<lparr>lapic_base_address := base, lapic := base, mm := v, msr := (msr s)(0x1B := 0x800),
      mmio := mmio s @ lapic_accesses dev base (mmio s)\<rparr>)"
proof -
  have lvt: "lvt_word (build_lvt_entry 0 True) = 0x10000"
    by (simp add: lvt_word_def build_lvt_entry_def apic_defs)
  have base: "push_bit 12 (ucast (LAPIC_base_inunitsofpages (get_lapic_msr 0x1B s))) = base"
    using assms(2) by (simp add: msr_base)
  have "initialize_lapic fuel noflags dev s =
      Some (assign_spurious_interrupt_vector_num dev 0xFF (enable_lapic dev (disable_pic
        (s\<lparr>lapic_base_address := base, lapic := base, mm := v\<rparr>))))"
    using assms(1,3) by (simp add: initialize_lapic_def lapic_present_iff apic_defs Let_def base)
  then show ?thesis
    by (simp add: disable_pic_def enable_lapic_def assign_spurious_interrupt_vector_num_def lapic_accesses_def
        write_lapic_msr_def mmio_write_def mmio_read_def lapic_fields lvt apic_defs Let_def)
qed

lemma page_above:
  fixes base w :: u32
  assumes "base = w AND 0xFFFFF000" and "base \<noteq> 0"
  shows "\<not> base + 0xF0 < 0x1000"
proof -
  have "(0xFFFFF000 :: u32) AND 0xfff = 0" by simp
  then have "page_aligned base" using assms(1) by (simp add: page_aligned_def and.assoc)
  then obtain x where x: "unat base = 4096 * x" "x \<le> 1048575" unfolding page_aligned_unat by blast
  then have "unat (base + 0xF0) = 4096 * x + 0xF0" by (subst unat_add_small) simp_all
  moreover have "x \<noteq> 0" using assms(2) x(1) by (metis mult_0_right unat_eq_0)
  ultimately show ?thesis by (simp add: word_less_nat_alt)
qed

text \<open>What a local APIC makes of them, when its page is at \<open>base\<close> at the start.\<close>

lemma lapic_chip_stays:
  assumes "lapic_device False c dev" and "lapic_page (fold (lapic_event False) h c) = base"
  shows "lapic_regs (fold (lapic_event False) (h @ lapic_accesses dev base h) c) =
    (let r = lapic_regs (fold (lapic_event False) h c) in
     r(0x350 := 0x10000, 0x360 := 0x10000, 0xF0 := r 0xF0 OR 0x1FF))"
proof -
  have or: "(w OR 0x100) OR 0xFF = w OR (0x1FF :: u32)" for w by (simp add: or.assoc)
  have dev: "dev k a = (let d = fold (lapic_event False) k c in lapic_regs d (a - lapic_page d))"
    if "a - lapic_page (fold (lapic_event False) k c) < 0x1000" for k a
    using assms(1) that by (simp add: lapic_device_def Let_def)
  show ?thesis by (simp add: lapic_accesses_def dev assms(2) Let_def or fun_upd_twist)
qed

lemma lapic_chip_moves:
  assumes "lapic_page (fold (lapic_event True) h c) = base" and "base = w AND 0xFFFFF000" and "base \<noteq> 0"
  shows "fold (lapic_event True) (h @ lapic_accesses dev base h) c =
    (let d = fold (lapic_event True) h c in
     \<lparr>lapic_page = 0, lapic_regs = (lapic_regs d)(0x350 := 0x10000, 0x360 := 0x10000)\<rparr>)"
  using page_above [OF assms(2,3)] by (simp add: lapic_accesses_def assms(1) Let_def)

lemma keyboard_entry:
  fixes u :: Interrupt_Redirection_Table_Entry
  defines "e \<equiv> 0x21 OR push_bit 12 (ucast (delivery_status u)) OR push_bit 14 (ucast (remote_irr u)) OR
      push_bit 24 (ucast (irt_padding u)) :: u32"
  shows "take_bit 8 e = 0x21" "take_bit 4 (drop_bit 8 e) = 0" "\<not> bit e 13" "\<not> bit e 15" "\<not> bit e 16"
  unfolding e_def
  by ((rule bit_word_eqI)?, auto simp: bit_simps dest: bit_imp_le_length)+

subsection \<open>Properties\<close>

text \<open>An area of device memory from \<open>0xFE000000\<close> on is tracked; the I/O APIC's descriptor names \<open>0xFEC00000\<close>.\<close>

definition ex_apic_mem :: mem where
  "ex_apic_mem = ex_tables(0x2032 := 0xC0, 0x2033 := 0xFE, 0x5003 := 0xFE, 0x5007 := 0x01)"

definition ex_machine :: "vmm machine" where
  "ex_machine =
     \<lparr>mm = \<lparr>hmem = ex_apic_mem, heap_ranges = 0, paging = ex_paging, dynamic_alloc_area_bottom = 0,
        dynamic_alloc_area_top = 0, allocated_areas_list = 0x5000\<rparr>,
      acpi_tables = ex_acpi, cpuid_edx = 0x100, msr = (\<lambda>_. 0xFEE00900), lapic_base_address = 0, lapic = 0xFEE00000,
      ioapic = \<lparr>IO_Register_Selector = 0, IO_Window_Register = 0, irt = []\<rparr>, mmio = []\<rparr>"

lemma ex_region:
  assumes "a_start = 0xFE000000" "read32 m 0x5000 = a_start" and "read32 m 0x5004 = 0x01000000"
    and "a_start \<le> a" and "a < 0xFF000000"
  shows "virt_region_exists_in_area m a sz 0x5000 = Some 0x5000"
  using assms by (subst virt_region_exists_in_area.simps)
    (simp add: Let_def area_start_def area_length_def virtyAddyIsInArea_def)

lemma ex_regions_mapped:
  assumes "read32 (hmem v) 0x5000 = 0xFE000000" and "read32 (hmem v) 0x5004 = 0x01000000"
    and "allocated_areas_list v = 0x5000" and "0xFE000000 \<le> a" and "a < 0xFF000000"
  shows "init_MMIO_device fuel noflags a sz v = Some (True, v)"
proof -
  have "virt_region_exists_in_area (hmem v) a sz 0x5000 = Some 0x5000" by (rule ex_region [OF refl]) (use assms in simp_all)
  moreover have "(VM_AREA_MMIO OR VM_AREA_WRITE) AND VM_AREA_MMIO \<noteq> 0" by (simp add: VM_AREA_MMIO_def VM_AREA_WRITE_def)
  moreover have "a \<noteq> 0" using assms(4) by auto
  ultimately show ?thesis using assms(3) by (simp add: init_MMIO_device_def vmalloc_request_virtual_address_def)
qed

text \<open>
  C37. Without bit 8 of the feature flags the set-up of the local APIC does nothing (the processor reports
  an APIC in bit 9). With it, once the memory manager has let the page of the registers be used, it
  returns after exactly these accesses, whatever the device answers: the two lines of the PIC are masked
  in the vector table, the machine register is written with its enable bit alone, and bit 8 and then
  the spurious vector 255 are set in the spurious vector register. So on an APIC whose registers stay
  where they are it ends up switched on, and no other register changes. But the write of the machine
  register also clears the base address in it: on one that moves its registers as documented, they are
  at address 0 from then on, and the spurious vector register keeps its value.
\<close>

theorem initialize_lapic_enables:
  assumes "base = ucast (msr s 0x1B) AND 0xFFFFF000"
    and "init_MMIO_device fuel noflags base 0x1000 (mm s) = Some (r, v)"
  shows "if bit (cpuid_edx s) 8
    then \<exists>s' h. initialize_lapic fuel noflags dev s = Some s' \<and> mm s' = v \<and> lapic s' = base \<and>
      msr s' = (msr s)(0x1B := 0x800) \<and> mmio s' = mmio s @ h \<and>
      (let h1 = [MWrite (base + 0x350) 0x10000, MWrite (base + 0x360) 0x10000, WrMsr 0x1B 0x800];
           v1 = dev (mmio s @ h1) (base + 0xF0);
           h2 = h1 @ [MRead (base + 0xF0) v1, MWrite (base + 0xF0) (v1 OR 0x100)];
           v2 = dev (mmio s @ h2) (base + 0xF0)
       in h = h2 @ [MRead (base + 0xF0) v2, MWrite (base + 0xF0) (v2 OR 0xFF)]) \<and>
      (\<forall>moves c d. d = fold (lapic_event moves) (mmio s) c \<and> lapic_page d = base \<longrightarrow>
        (moves \<and> base \<noteq> 0 \<longrightarrow> fold (lapic_event moves) (mmio s') c =
          \<lparr>lapic_page = 0, lapic_regs = (lapic_regs d)(0x350 := 0x10000, 0x360 := 0x10000)\<rparr>) \<and>
        (\<not> moves \<and> lapic_device moves c dev \<longrightarrow> lapic_regs (fold (lapic_event moves) (mmio s') c) =
          (lapic_regs d)(0x350 := 0x10000, 0x360 := 0x10000, 0xF0 := lapic_regs d 0xF0 OR 0x1FF)))
    else initialize_lapic fuel noflags dev s = Some s"
proof (cases "bit (cpuid_edx s) 8")
  case True
  have acc: "h = lapic_accesses dev base (mmio s) \<longleftrightarrow>
      (let h1 = [MWrite (base + 0x350) 0x10000, MWrite (base + 0x360) 0x10000, WrMsr 0x1B 0x800];
           v1 = dev (mmio s @ h1) (base + 0xF0);
           h2 = h1 @ [MRead (base + 0xF0) v1, MWrite (base + 0xF0) (v1 OR 0x100)];
           v2 = dev (mmio s @ h2) (base + 0xF0)
       in h = h2 @ [MRead (base + 0xF0) v2, MWrite (base + 0xF0) (v2 OR 0xFF)])" for h
    by (simp only: lapic_accesses_def Let_def)
  show ?thesis
    unfolding if_P [OF True] acc [symmetric] lapic_setup [OF True assms]
  proof (intro exI conjI allI impI, rule refl)
    show "fold (lapic_event moves) (mmio (s\<lparr>lapic_base_address := base, lapic := base, mm := v,
          msr := (msr s)(0x1B := 0x800), mmio := mmio s @ lapic_accesses dev base (mmio s)\<rparr>)) c =
        \<lparr>lapic_page = 0, lapic_regs = (lapic_regs d)(0x350 := 0x10000, 0x360 := 0x10000)\<rparr>"
      if "d = fold (lapic_event moves) (mmio s) c \<and> lapic_page d = base" "moves \<and> base \<noteq> 0" for moves c d
      using that lapic_chip_moves [of "mmio s" c base _ dev, OF _ assms(1)] by (auto simp: Let_def)
    show "lapic_regs (fold (lapic_event moves) (mmio (s\<lparr>lapic_base_address := base, lapic := base, mm := v,
          msr := (msr s)(0x1B := 0x800), mmio := mmio s @ lapic_accesses dev base (mmio s)\<rparr>)) c) =
        (lapic_regs d)(0x350 := 0x10000, 0x360 := 0x10000, 0xF0 := lapic_regs d 0xF0 OR 0x1FF)"
      if "d = fold (lapic_event moves) (mmio s) c \<and> lapic_page d = base" "\<not> moves \<and> lapic_device moves c dev" for moves c d
      using that lapic_chip_stays [of c dev "mmio s" base] by (auto simp: Let_def)
  qed simp_all
next
  case False
  then show ?thesis by (simp add: initialize_lapic_def lapic_present_iff)
qed

text \<open>A machine whose registers start as 0, at \<open>0xFEE00000\<close>, and stay there.\<close>

definition ex_lapic :: lapic_chip where "ex_lapic = \<lparr>lapic_page = 0xFEE00000, lapic_regs = \<lambda>_. 0\<rparr>"

definition ex_lapic_device :: mmio_device where
  "ex_lapic_device h a = (let d = fold (lapic_event False) h ex_lapic in lapic_regs d (a - lapic_page d))"

theorem initialize_lapic_enables_witness:
  "\<exists>s'. initialize_lapic 0 (\<lambda>_. 0) ex_lapic_device ex_machine = Some s' \<and> lapic s' = 0xFEE00000 \<and> msr s' 0x1B = 0x800 \<and>
     lapic_regs (fold (lapic_event False) (mmio s') ex_lapic) 0xF0 = 0x1FF \<and>
     lapic_regs (fold (lapic_event True) (mmio s') ex_lapic) 0xF0 = 0"
proof -
  have init: "init_MMIO_device 0 (\<lambda>_. 0) 0xFEE00000 0x1000 (mm ex_machine) = Some (True, mm ex_machine)"
    by (rule ex_regions_mapped) (simp_all add: ex_machine_def ex_apic_mem_def ex_tables_def read32_def)
  have cpu: "bit (cpuid_edx ex_machine) 8" by (simp add: ex_machine_def)
  have base: "0xFEE00000 = (ucast (msr ex_machine 0x1B) AND 0xFFFFF000 :: u32)" by (simp add: ex_machine_def)
  have dev: "lapic_device False ex_lapic ex_lapic_device" by (simp add: lapic_device_def ex_lapic_device_def Let_def)
  have start: "fold (lapic_event moves) (mmio ex_machine) ex_lapic = ex_lapic" for moves by (simp add: ex_machine_def)
  obtain s' where s': "initialize_lapic 0 (\<lambda>_. 0) ex_lapic_device ex_machine = Some s'"
      "lapic s' = 0xFEE00000" "msr s' = (msr ex_machine)(0x1B := 0x800)"
    and chip: "\<forall>moves c d. d = fold (lapic_event moves) (mmio ex_machine) c \<and> lapic_page d = 0xFEE00000 \<longrightarrow>
        (moves \<and> (0xFEE00000 :: u32) \<noteq> 0 \<longrightarrow> fold (lapic_event moves) (mmio s') c =
          \<lparr>lapic_page = 0, lapic_regs = (lapic_regs d)(0x350 := 0x10000, 0x360 := 0x10000)\<rparr>) \<and>
        (\<not> moves \<and> lapic_device moves c ex_lapic_device \<longrightarrow> lapic_regs (fold (lapic_event moves) (mmio s') c) =
          (lapic_regs d)(0x350 := 0x10000, 0x360 := 0x10000, 0xF0 := lapic_regs d 0xF0 OR 0x1FF))"
    using initialize_lapic_enables [OF base init, of ex_lapic_device, unfolded if_P [OF cpu]] by blast
  from chip [rule_format, of ex_lapic True ex_lapic] chip [rule_format, of ex_lapic False ex_lapic]
  show ?thesis using s' dev start by (intro exI [of _ s']) (simp add: ex_lapic_def)
qed

text \<open>
  C38. The set-up of the I/O APIC at the address the first descriptor found gives routes the keyboard's
  line to vector 0x21, fixed, edge triggered, active high and unmasked; the upper half of the entry,
  with the destination, is always 0, whatever the number of the local APIC is. No other register of
  the chip is changed.
\<close>

theorem initialize_ioapic_routes_keyboard:
  assumes "get_interruptcontroller arr IOAPIC (acpi_tables s) (hmem (mm s)) = Some (descs, m)"
    and "base = read32 m (read32 m (array_data descs) + 4)"
    and "init_MMIO_device fuel noflags base 0x20 ((mm s)\<lparr>hmem := m\<rparr>) = Some (r, v)"
  shows "\<exists>s' h. initialize_ioapic fuel noflags arr u dev s = Some s' \<and> mm s' = v \<and> mmio s' = mmio s @ h \<and>
    (let regs = chip_regs (fold (chip_event base) h c) in
     take_bit 8 (regs 0x12) = 0x21 \<and> take_bit 4 (drop_bit 8 (regs 0x12)) = 0 \<and> \<not> bit (regs 0x12) 13 \<and>
     \<not> bit (regs 0x12) 15 \<and> \<not> bit (regs 0x12) 16 \<and> regs 0x13 = 0 \<and>
     regs(0x12 := chip_regs c 0x12, 0x13 := chip_regs c 0x13) = chip_regs c)"
proof -
  let ?s = "s\<lparr>ioapic := (ioapic s)\<lparr>IO_Register_Selector := base, IO_Window_Register := base + 0x10\<rparr>, mm := v\<rparr>"
  have init: "initialize_ioapic fuel noflags arr u dev s = Some (initialize_irt u dev ?s)"
    using assms by (simp add: initialize_ioapic_def acpi_layout apic_defs Let_def)
  define e :: u32 where "e = 0x21 OR push_bit 12 (ucast (delivery_status u)) OR
      push_bit 14 (ucast (remote_irr u)) OR push_bit 24 (ucast (irt_padding u))"
  have "mm (initialize_irt u dev ?s) = v"
    by (simp add: initialize_irt_def set_irt_entry_def read_ioapic_reg_def select_ioapic_reg_def write_ioapic_reg_def
        mmio_write_def mmio_read_def Let_def)
  moreover obtain h where h: "mmio (initialize_irt u dev ?s) = mmio ?s @ h"
      "chip_regs (fold (chip_event base) h c) = (chip_regs c)(0x12 := e, 0x13 := 0)"
    using initialize_irt_chip [of ?s base u dev c] unfolding e_def by auto
  ultimately show ?thesis unfolding init
    by (intro exI [of _ "initialize_irt u dev ?s"] exI [of _ h] conjI refl)
      (simp_all add: h keyboard_entry [of u, folded e_def] Let_def fun_upd_twist)
qed

definition ex_entry :: Interrupt_Redirection_Table_Entry where
  "ex_entry = \<lparr>interrupt_vector_num = 0, delivery_mode = 0, dest_mode = 0, delivery_status = 0, pin_polarity = 0,
     remote_irr = 1, trigger_mode = 0, interrupt_mask = 1, irt_reserved_low = 0, irt_padding = 0xAA,
     irt_reserved_high = 0, destination = 1\<rparr>"

text \<open>The tables name one I/O APIC, at \<open>0xFEC00000\<close>, and the array's data pointer happens to be \<open>0x8000\<close>.\<close>

theorem initialize_ioapic_routes_keyboard_witness:
  "\<exists>s' h. initialize_ioapic 0 (\<lambda>_. 0) \<lparr>array_data = 0x8000, curr_size = 7, max_capacity = 0\<rparr> ex_entry (\<lambda>_ _. 0) ex_machine = Some s' \<and>
    mmio s' = h \<and> take_bit 8 (chip_regs (fold (chip_event 0xFEC00000) h \<lparr>chip_select = 0, chip_regs = (\<lambda>_. 0)\<rparr>) 0x12) = 0x21"
proof -
  let ?arr = "\<lparr>array_data = 0x8000, curr_size = 7, max_capacity = 0\<rparr>"
  let ?m = "write32 ex_apic_mem 0x8000 0x202C"
  let ?d = "\<lparr>array_data = 0x8000, curr_size = 1, max_capacity = 0x7FFFFFFF\<rparr>"
  have "get_interruptcontroller ?arr IOAPIC ex_acpi ex_apic_mem = Some (?d, ?m)"
    by (simp add: get_interruptcontroller_def init_array_def acpi_layout ACPI_MADT_IOAPIC_def ex_acpi_def
        ex_apic_mem_def ex_tables_def read32_def write32_def scan_controllers.simps Let_def)
  moreover have "read32 ?m (read32 ?m (array_data ?d) + 4) = 0xFEC00000"
    by (simp add: ex_apic_mem_def ex_tables_def read32_def write32_def)
  moreover have "init_MMIO_device 0 (\<lambda>_. 0) 0xFEC00000 0x20 ((mm ex_machine)\<lparr>hmem := ?m\<rparr>) =
      Some (True, (mm ex_machine)\<lparr>hmem := ?m\<rparr>)"
    by (rule ex_regions_mapped) (simp_all add: ex_machine_def ex_apic_mem_def ex_tables_def read32_def write32_def)
  ultimately show ?thesis
    using initialize_ioapic_routes_keyboard [of ?arr ex_machine ?d ?m "0xFEC00000" 0 "\<lambda>_. 0" True
        "(mm ex_machine)\<lparr>hmem := ?m\<rparr>" ex_entry "\<lambda>_ _. 0" "\<lparr>chip_select = 0, chip_regs = (\<lambda>_. 0)\<rparr>"]
    by (auto simp: ex_machine_def Let_def)
qed

end
