(* ===== verification/Interrupts.thy ===== *)
theory Interrupts
  imports Apic Serial
begin

text \<open>
  \<^verbatim>\<open>src/kernel/interrupts/isr.c\<close>: what happens on an interrupt. The keyboard's is handled; every
  other one sends a report over the serial port and stops the machine.
\<close>

subsection \<open>Constants and frames\<close>

definition DIVIDE_ERROR :: u32 where "DIVIDE_ERROR = 0"
definition DOUBLE_FAULT :: u32 where "DOUBLE_FAULT = 8"
definition GENERAL_PROTECTION_EXCEPTION :: u32 where "GENERAL_PROTECTION_EXCEPTION = 13"
definition TIMER_IRQ :: u32 where "TIMER_IRQ = 0x20"
definition KEYBOARD_IRQ :: u32 where "KEYBOARD_IRQ = 0x21"
definition DUMMY_ERROR_CODE :: u32 where "DUMMY_ERROR_CODE = 0xDEADBEEF"
definition MAX_HEX_ADDRESS_STR_LEN :: u32 where "MAX_HEX_ADDRESS_STR_LEN = 19"
definition MAX_MESSAGE_SIZE :: u32 where "MAX_MESSAGE_SIZE = 1024"

record process_context_t =
  edi :: u32
  esi :: u32
  ebp :: u32
  esp :: u32
  ebx :: u32
  edx :: u32
  ecx :: u32
  eax :: u32
  vector_num :: u32
  error_code :: u32
  iret_eip :: u32
  iret_cs :: u32
  iret_eflags :: u32
  iret_esp :: u32
  iret_ss :: u32

text \<open>Where the compiler put the local arrays of \<open>dump_state\<close>.\<close>

record dump_locals =
  eip_str :: u32
  eflags_str :: u32
  vec_num :: u32
  eip_msg :: u32
  eflags_msg :: u32
  vec_msg :: u32
  full_msg :: u32
  error_code_str :: u32
  error_msg :: u32

text \<open>\<open>char x[n] = "..."\<close>: the characters, and zeros up to the end of the array.\<close>

definition char_array :: "u32 \<Rightarrow> u8 list \<Rightarrow> u32 \<Rightarrow> mem \<Rightarrow> mem" where
  "char_array p xs n m =
     (\<lambda>a. if a - p < n then (if unat (a - p) < length xs then xs ! unat (a - p) else 0) else m a)"

definition EIP_text :: "u8 list" where "EIP_text = map of_char (CHR 0x0A # ''EIP: '')"
definition Eflags_text :: "u8 list" where "Eflags_text = map of_char (CHR 0x0A # ''Eflags: '')"
definition Vector_text :: "u8 list" where "Vector_text = map of_char (CHR 0x0A # ''Interrupt Vector: '')"
definition Error_text :: "u8 list" where "Error_text = map of_char (CHR 0x0A # ''Error code: '')"

subsection \<open>The report\<close>

text \<open>The numbers as text and the three labelled lines.\<close>

definition dump_lines :: "(u8 \<Rightarrow> u8) \<Rightarrow> dump_locals \<Rightarrow> process_context_t \<Rightarrow> mem \<Rightarrow> mem option" where
  "dump_lines noret l process_frame m =
     Option.bind (num_to_hex_string noret (iret_eip process_frame) (eip_str l) m) (\<lambda>m.
     Option.bind (num_to_hex_string noret (iret_eflags process_frame) (eflags_str l) m) (\<lambda>m.
     Option.bind (num_to_hex_string noret (vector_num process_frame) (vec_num l) m) (\<lambda>m.
       let m = char_array (eip_msg l) EIP_text MAX_MESSAGE_SIZE m;
           m = char_array (eflags_msg l) Eflags_text MAX_MESSAGE_SIZE m;
           m = char_array (vec_msg l) Vector_text MAX_MESSAGE_SIZE m
       in Option.bind (strcat m (eip_msg l) (eip_str l)) (\<lambda>m.
          Option.bind (strcat m (eflags_msg l) (eflags_str l)) (\<lambda>m. strcat m (vec_msg l) (vec_num l))))))"

text \<open>The line with the error code, when the processor or the stub pushed a real one.\<close>

definition dump_error :: "(u8 \<Rightarrow> u8) \<Rightarrow> dump_locals \<Rightarrow> process_context_t \<Rightarrow> mem \<Rightarrow> mem option" where
  "dump_error noret l process_frame m =
     (if error_code process_frame \<noteq> DUMMY_ERROR_CODE then
        Option.bind (num_to_hex_string noret (error_code process_frame) (error_code_str l) m) (\<lambda>m.
          let m = char_array (error_msg l) Error_text MAX_MESSAGE_SIZE m in
          Option.bind (strcat m (error_msg l) (error_code_str l)) (\<lambda>m. strcat m (full_msg l) (error_msg l)))
      else Some m)"

text \<open>\<open>full_msg\<close> has no initialiser: the first \<open>strcat\<close> appends to whatever the array holds.\<close>

definition dump_state ::
    "(u8 \<Rightarrow> u8) \<Rightarrow> dump_locals \<Rightarrow> process_context_t \<Rightarrow> mem \<times> io_event list \<Rightarrow> (mem \<times> io_event list) option" where
  "dump_state noret l process_frame s =
     (let (m, h) = s in
      Option.bind (dump_lines noret l process_frame m) (\<lambda>m.
      Option.bind (strcat m (full_msg l) (eip_msg l)) (\<lambda>m.
      Option.bind (strcat m (full_msg l) (eflags_msg l)) (\<lambda>m.
      Option.bind (strcat m (full_msg l) (vec_msg l)) (\<lambda>m.
      Option.bind (dump_error noret l process_frame m) (\<lambda>m.
        map_option (\<lambda>h. (m, h)) (send_string_to_serial_port m (full_msg l) h)))))))"

subsection \<open>Dispatch\<close>

text \<open>
  The machine with the state the handler of completed keys works on, the stack the handlers run on,
  the port history and the decoder's flags.
\<close>

record 's os =
  mach :: "'s machine"
  stack :: mem
  ports :: "io_event list"
  kbd :: ps2

text \<open>With interrupts cleared \<open>hlt\<close> stops the processor for good.\<close>

datatype 's outcome = Resumes 's | Halts 's

definition interrupt_handler_dispatcher ::
    "u32 \<Rightarrow> (u8 \<Rightarrow> u16) \<Rightarrow> (u16 \<Rightarrow> bool \<Rightarrow> 's \<Rightarrow> 's option) \<Rightarrow> (u8 \<Rightarrow> u8) \<Rightarrow> dump_locals \<Rightarrow> device \<Rightarrow>
     process_context_t \<Rightarrow> 's os \<Rightarrow> 's os outcome option" where
  "interrupt_handler_dispatcher utility_at oob handle_keycode noret l dev process_frame s =
     (if vector_num process_frame = KEYBOARD_IRQ then
        (let (resp1, h) = readb_from_keyboard dev (ports s) in
         map_option (\<lambda>(k, t). Resumes (s\<lparr>ports := h, kbd := k, mach := write_EOI ((mach s)\<lparr>mm := t\<rparr>)\<rparr>))
           (handle_kbd_irq utility_at oob handle_keycode resp1 (kbd s, mm (mach s))))
      else
        map_option (\<lambda>(m, h). Halts (s\<lparr>stack := m, ports := h\<rparr>)) (dump_state noret l process_frame (stack s, ports s)))"

text \<open>A sequence of interrupts, until one halts the machine.\<close>

fun take_interrupts ::
    "(process_context_t \<Rightarrow> 's os \<Rightarrow> 's os outcome option) \<Rightarrow> process_context_t list \<Rightarrow> 's os \<Rightarrow> 's os outcome option" where
  "take_interrupts handler [] s = Some (Resumes s)"
| "take_interrupts handler (f # fs) s =
     Option.bind (handler f s) (\<lambda>r. case r of Resumes s \<Rightarrow> take_interrupts handler fs s | Halts s \<Rightarrow> Some (Halts s))"

subsection \<open>Strings in separate arrays\<close>

text \<open>
  \<open>N\<close> arrays with address \<open>adr i\<close> and size \<open>cap i\<close>, no two of them overlapping, and what strings they
  hold: \<open>f i\<close> is the string in array \<open>i\<close>, as far as it is known.
\<close>

definition apart :: "nat \<Rightarrow> (nat \<Rightarrow> u32) \<Rightarrow> (nat \<Rightarrow> u32) \<Rightarrow> bool" where
  "apart N adr cap \<longleftrightarrow> (\<forall>i < N. \<forall>j < N. i \<noteq> j \<longrightarrow> cap i \<le> adr j - adr i)"

definition strings :: "nat \<Rightarrow> (nat \<Rightarrow> u32) \<Rightarrow> (nat \<Rightarrow> u32) \<Rightarrow> (nat \<rightharpoonup> u8 list) \<Rightarrow> mem \<Rightarrow> bool" where
  "strings N adr cap f m \<longleftrightarrow>
     (\<forall>i xs. f i = Some xs \<longrightarrow> i < N \<and> is_cstr m (adr i) xs \<and> length xs < unat (cap i))"

lemma strings_update:
  assumes "apart N adr cap" and "strings N adr cap f m" and "j < N"
    and "\<And>a. cap j \<le> a - adr j \<Longrightarrow> m' a = m a" and "is_cstr m' (adr j) ys" and "length ys < unat (cap j)"
  shows "strings N adr cap (f(j \<mapsto> ys)) m'"
  unfolding strings_def
proof (intro allI impI)
  fix i xs assume i: "(f(j \<mapsto> ys)) i = Some xs"
  show "i < N \<and> is_cstr m' (adr i) xs \<and> length xs < unat (cap i)"
  proof (cases "i = j")
    case False
    then have s: "i < N" "is_cstr m (adr i) xs" "length xs < unat (cap i)"
      using i assms(2) by (auto simp: strings_def)
    have "is_cstr m' (adr i) xs"
    proof (rule is_cstr_cong [OF s(2)])
      fix k assume "k \<le> length xs"
      then have "(of_nat k :: u32) < cap i"
        using s(3) unat_lt_2p32 [of "cap i"] by (simp add: word_less_nat_alt unat_of_nat_small)
      moreover have "cap i \<le> adr j - adr i" "cap j \<le> adr i - adr j"
        using assms(1,3) s(1) False by (auto simp: apart_def)
      ultimately have "cap j \<le> adr i + of_nat k - adr j"
        by (intro block_outside [where n = "cap i"])
      then show "m' (adr i + of_nat k) = m (adr i + of_nat k)" by (rule assms(4))
    qed
    then show ?thesis using s by blast
  qed (use i assms(3,5,6) in auto)
qed

lemma strings_hex:
  assumes "apart N adr cap" and "strings N adr cap f m" and "j < N" and "19 \<le> cap j"
  shows "\<exists>m'. num_to_hex_string noret num (adr j) m = Some m' \<and> strings N adr cap (f(j \<mapsto> hex_string num)) m'"
proof -
  have d: "unat (of_nat (hex_digits num) + 3 :: u32) = hex_digits num + 3"
    using hex_digits(2) [of num] unat_of_nat_small [of "hex_digits num + 3"] by simp
  have "strings N adr cap (f(j \<mapsto> hex_string num)) (hex_written num (adr j) m)"
  proof (rule strings_update [OF assms(1-3)])
    show "hex_written num (adr j) m a = m a" if "cap j \<le> a - adr j" for a
    proof (rule hex_written_frame)
      have "unat (of_nat (hex_digits num) + 3 :: u32) \<le> unat (19 :: u32)" using d hex_digits(2) [of num] by simp
      then show "of_nat (hex_digits num) + 3 \<le> a - adr j"
        using assms(4) that order_trans unfolding word_le_nat_alt by blast
    qed
    show "length (hex_string num) < unat (cap j)"
      using hex_string_length [of num] assms(4) by (simp add: word_le_nat_alt)
  qed (rule hex_written_cstr)
  then show ?thesis by (simp add: num_to_hex_string_returns)
qed

lemma strings_array:
  assumes "apart N adr cap" and "strings N adr cap f m" and "j < N"
    and "length xs < unat (cap j)" and "0 \<notin> set xs"
  shows "strings N adr cap (f(j \<mapsto> xs)) (char_array (adr j) xs (cap j) m)"
proof (rule strings_update [OF assms(1-3)])
  have at: "char_array (adr j) xs (cap j) m (adr j + of_nat i) = (if i < length xs then xs ! i else 0)"
    if "i \<le> length xs" for i
    using that assms(4) unat_lt_2p32 [of "cap j"] by (simp add: char_array_def word_less_nat_alt unat_of_nat_small)
  show "is_cstr (char_array (adr j) xs (cap j) m) (adr j) xs"
    by (rule is_cstr_nthI) (use at assms(5) in simp_all)
qed (use assms(4) in \<open>auto simp: char_array_def\<close>)

lemma strings_cat:
  assumes ap: "apart N adr cap" and st: "strings N adr cap f m" and "f i = Some xs" and "f j = Some ys" and "i \<noteq> j"
    and fit: "length xs + length ys < unat (cap i)"
  shows "\<exists>m'. strcat m (adr i) (adr j) = Some m' \<and> strings N adr cap (f(i \<mapsto> xs @ ys)) m'"
proof -
  have s: "i < N" "is_cstr m (adr i) xs" "j < N" "is_cstr m (adr j) ys" "length ys < unat (cap j)"
    using st assms(3,4) by (auto simp: strings_def)
  have ij: "cap i \<le> adr j - adr i" "cap j \<le> adr i - adr j" using ap s(1,3) assms(5) by (auto simp: apart_def)
  let ?x = "of_nat (length xs) :: u32" and ?y = "of_nat (length ys) :: u32"
  have u: "unat ?x = length xs" "unat ?y = length ys" "unat (?y + 1) = length ys + 1"
    using fit unat_lt_2p32 [of "cap i"] unat_of_nat_small [of "length xs"] unat_of_nat_small [of "length ys"]
      unat_of_nat_small [of "length ys + 1"] by (simp_all add: add.commute)
  have y: "?y + 1 \<le> cap j" using s(5) u(3) by (simp only: word_le_nat_alt)
  have x: "?x < cap i" using fit u(1) by (simp add: word_less_nat_alt)
  have far: "cap j \<le> adr i + ?x - adr j" using block_outside [OF ij x] .
  define d where "d = adr i + ?x"
  have e: "unat (adr j - adr i) = unat (adr j - adr i - ?x) + length xs"
    using ij(1) x u(1) unat_sub_le [of ?x "adr j - adr i"] by (simp add: word_le_nat_alt word_less_nat_alt)
  have "unat (cap i) \<le> unat (adr j - adr i)" using ij(1) by (simp only: word_le_nat_alt)
  then have "length ys + 1 \<le> unat (adr j - d)" using e fit by (simp add: d_def algebra_simps)
  then have near: "?y + 1 \<le> adr j - d" using u(3) by (simp only: word_le_nat_alt)
  have "?y \<noteq> MINUS_ONE" using u(3) by auto
  then have cat: "strcat m (adr i) (adr j) = Some (copied m d (adr j) (?y + 1))"
    using strcat_cstr [OF s(2,4)] order_trans [OF y far] near by (simp add: d_def)
  have out: "copied m d (adr j) (?y + 1) a = m a" if "\<not> a - d < ?y + 1" for a using copied_outside that .
  have "strings N adr cap (f(i \<mapsto> xs @ ys)) (copied m d (adr j) (?y + 1))"
  proof (rule strings_update [OF ap st s(1)])
    fix a assume a: "cap i \<le> a - adr i"
    have "unat (a - adr i - ?x) = unat (a - adr i) - length xs"
      using a x u(1) unat_sub_le [of ?x "a - adr i"] by (simp add: word_le_nat_alt word_less_nat_alt)
    then have "unat (?y + 1) \<le> unat (a - d)"
      using a fit u(3) by (simp add: d_def word_le_nat_alt algebra_simps)
    then show "copied m d (adr j) (?y + 1) a = m a" by (intro out) (simp add: word_less_nat_alt)
  next
    have "copied m d (adr j) (?y + 1) (adr i + of_nat k) = xs ! k \<and> xs ! k \<noteq> 0" if k: "k < length xs" for k
    proof -
      have uk: "unat (of_nat k :: u32) = k" using k fit unat_lt_2p32 [of "cap i"] by (intro unat_of_nat_small) simp
      have "adr i + of_nat k - d = 0 - (?x - of_nat k)" by (simp add: d_def)
      moreover have xk: "unat (?x - of_nat k) = length xs - k" using k u(1) uk by (subst unat_sub_le) (simp_all add: word_le_nat_alt)
      moreover have "unat (0 - (?x - of_nat k)) = 4294967296 - (length xs - k)"
        using xk k unat_sub_if_size [of 0 "?x - of_nat k"] by (simp add: word_size)
      ultimately have "unat (adr i + of_nat k - d) = 4294967296 - (length xs - k)" by metis
      then have "\<not> adr i + of_nat k - d < ?y + 1"
        using fit u(3) k unat_lt_2p32 [of "cap i"] by (simp add: word_less_nat_alt)
      then show ?thesis using out is_cstr_nth [OF s(2) k] by simp
    qed
    moreover have "is_cstr (copied m d (adr j) (?y + 1)) d ys"
      by (rule copied_cstr [OF s(4)]) (use fit unat_lt_2p32 [of "cap i"] in simp)
    ultimately show "is_cstr (copied m d (adr j) (?y + 1)) (adr i) (xs @ ys)"
      by (simp add: is_cstr_append_iff d_def)
  qed (use fit in simp)
  then show ?thesis using cat by blast
qed

subsection \<open>The text of a report\<close>

definition crash_report :: "process_context_t \<Rightarrow> u8 list" where
  "crash_report pf =
     EIP_text @ hex_string (iret_eip pf) @ Eflags_text @ hex_string (iret_eflags pf) @
     Vector_text @ hex_string (vector_num pf) @
     (if error_code pf \<noteq> DUMMY_ERROR_CODE then Error_text @ hex_string (error_code pf) else [])"

text \<open>The arrays of \<open>dump_state\<close> and their sizes.\<close>

definition dump_adr :: "dump_locals \<Rightarrow> nat \<Rightarrow> u32" where
  "dump_adr l i = [eip_str l, eflags_str l, vec_num l, eip_msg l, eflags_msg l, vec_msg l, full_msg l,
     error_code_str l, error_msg l] ! i"

definition dump_cap :: "nat \<Rightarrow> u32" where
  "dump_cap i = (if i \<in> {0, 1, 2, 7} then MAX_HEX_ADDRESS_STR_LEN else MAX_MESSAGE_SIZE)"

lemma dump_arrays:
  "eip_str l = dump_adr l 0" "eflags_str l = dump_adr l 1" "vec_num l = dump_adr l 2" "eip_msg l = dump_adr l 3"
  "eflags_msg l = dump_adr l 4" "vec_msg l = dump_adr l 5" "full_msg l = dump_adr l 6"
  "error_code_str l = dump_adr l 7" "error_msg l = dump_adr l 8"
  by (simp_all add: dump_adr_def)

lemma dump_caps:
  "dump_cap 0 = 19" "dump_cap 1 = 19" "dump_cap 2 = 19" "dump_cap 7 = 19"
  "dump_cap 3 = 1024" "dump_cap 4 = 1024" "dump_cap 5 = 1024" "dump_cap 6 = 1024" "dump_cap 8 = 1024"
  by (simp_all add: dump_cap_def MAX_HEX_ADDRESS_STR_LEN_def MAX_MESSAGE_SIZE_def)

lemma dump_texts:
  "0 \<notin> set EIP_text" "0 \<notin> set Eflags_text" "0 \<notin> set Vector_text" "0 \<notin> set Error_text"
  "length EIP_text = 6" "length Eflags_text = 9" "length Vector_text = 19" "length Error_text = 13"
  by (simp_all add: EIP_text_def Eflags_text_def Vector_text_def Error_text_def)

abbreviation dump_strings :: "dump_locals \<Rightarrow> (nat \<rightharpoonup> u8 list) \<Rightarrow> mem \<Rightarrow> bool" where
  "dump_strings l \<equiv> strings 9 (dump_adr l) dump_cap"

lemma dump_hex:
  assumes "apart 9 (dump_adr l) dump_cap" and "dump_strings l f m" and "j \<in> {0, 1, 2, 7}"
  obtains m' where "num_to_hex_string noret num (dump_adr l j) m = Some m'" "dump_strings l (f(j \<mapsto> hex_string num)) m'"
proof -
  have "j < 9" "19 \<le> dump_cap j" using assms(3) dump_caps by auto
  from strings_hex [OF assms(1,2) this, of noret num] show ?thesis using that by blast
qed

lemma dump_array:
  assumes "apart 9 (dump_adr l) dump_cap" and "dump_strings l f m" and "j \<in> {3, 4, 5, 6, 8}"
    and "length xs < 1024" and "0 \<notin> set xs"
  shows "dump_strings l (f(j \<mapsto> xs)) (char_array (dump_adr l j) xs MAX_MESSAGE_SIZE m)"
proof -
  have "j < 9" "dump_cap j = 1024" using assms(3) dump_caps by auto
  with strings_array [OF assms(1,2) this(1) _ assms(5)] assms(4) show ?thesis by (simp add: MAX_MESSAGE_SIZE_def)
qed

lemma dump_cat:
  assumes "apart 9 (dump_adr l) dump_cap" and "dump_strings l f m" and "i \<in> {3, 4, 5, 6, 8}" and "i \<noteq> j"
    and "f i = Some xs" and "f j = Some ys" and "length xs + length ys < 1024"
  obtains m' where "strcat m (dump_adr l i) (dump_adr l j) = Some m'" "dump_strings l (f(i \<mapsto> xs @ ys)) m'"
proof -
  have "dump_cap i = 1024" using assms(3) dump_caps by auto
  then have "length xs + length ys < unat (dump_cap i)" using assms(7) by simp
  from strings_cat [OF assms(1,2,5,6,4) this] show ?thesis using that by blast
qed

lemma dump_lines_written:
  assumes ap: "apart 9 (dump_adr l) dump_cap" and st: "dump_strings l f m"
  obtains m' f' where "dump_lines noret l pf m = Some m'" "dump_strings l f' m'" "f' 6 = f 6"
    "f' 3 = Some (EIP_text @ hex_string (iret_eip pf))" "f' 4 = Some (Eflags_text @ hex_string (iret_eflags pf))"
    "f' 5 = Some (Vector_text @ hex_string (vector_num pf))"
proof -
  note len = hex_string_length [of "iret_eip pf"] hex_string_length [of "iret_eflags pf"] hex_string_length [of "vector_num pf"]
  obtain m1 where 1: "num_to_hex_string noret (iret_eip pf) (dump_adr l 0) m = Some m1"
      "dump_strings l (f(0 \<mapsto> hex_string (iret_eip pf))) m1"
    using dump_hex [OF ap st, of 0] by blast
  obtain m2 where 2: "num_to_hex_string noret (iret_eflags pf) (dump_adr l 1) m1 = Some m2"
      "dump_strings l (f(0 \<mapsto> hex_string (iret_eip pf), 1 \<mapsto> hex_string (iret_eflags pf))) m2"
    using dump_hex [OF ap 1(2), of 1] by blast
  obtain m3 where 3: "num_to_hex_string noret (vector_num pf) (dump_adr l 2) m2 = Some m3"
      "dump_strings l (f(0 \<mapsto> hex_string (iret_eip pf), 1 \<mapsto> hex_string (iret_eflags pf), 2 \<mapsto> hex_string (vector_num pf))) m3"
    using dump_hex [OF ap 2(2), of 2] by blast
  define m4 where "m4 = char_array (dump_adr l 5) Vector_text MAX_MESSAGE_SIZE
      (char_array (dump_adr l 4) Eflags_text MAX_MESSAGE_SIZE (char_array (dump_adr l 3) EIP_text MAX_MESSAGE_SIZE m3))"
  define f4 where "f4 = f(0 \<mapsto> hex_string (iret_eip pf), 1 \<mapsto> hex_string (iret_eflags pf), 2 \<mapsto> hex_string (vector_num pf),
      3 \<mapsto> EIP_text, 4 \<mapsto> Eflags_text, 5 \<mapsto> Vector_text)"
  have "dump_strings l f4 m4" unfolding m4_def f4_def
    by (intro dump_array ap 3(2)) (simp_all add: dump_texts)
  then obtain m5 where 5: "strcat m4 (dump_adr l 3) (dump_adr l 0) = Some m5"
      "dump_strings l (f4(3 \<mapsto> EIP_text @ hex_string (iret_eip pf))) m5"
    by (rule dump_cat [OF ap, where i = 3 and j = 0 and xs = EIP_text and ys = "hex_string (iret_eip pf)"]) (use len in \<open>simp_all add: f4_def dump_texts\<close>)
  obtain m6 where 6: "strcat m5 (dump_adr l 4) (dump_adr l 1) = Some m6"
      "dump_strings l (f4(3 \<mapsto> EIP_text @ hex_string (iret_eip pf), 4 \<mapsto> Eflags_text @ hex_string (iret_eflags pf))) m6"
    by (rule dump_cat [OF ap 5(2), where i = 4 and j = 1 and xs = Eflags_text and ys = "hex_string (iret_eflags pf)"]) (use len in \<open>simp_all add: f4_def dump_texts\<close>)
  obtain m7 where 7: "strcat m6 (dump_adr l 5) (dump_adr l 2) = Some m7"
      "dump_strings l (f4(3 \<mapsto> EIP_text @ hex_string (iret_eip pf), 4 \<mapsto> Eflags_text @ hex_string (iret_eflags pf),
         5 \<mapsto> Vector_text @ hex_string (vector_num pf))) m7"
    by (rule dump_cat [OF ap 6(2), where i = 5 and j = 2 and xs = Vector_text and ys = "hex_string (vector_num pf)"]) (use len in \<open>simp_all add: f4_def dump_texts\<close>)
  have "dump_lines noret l pf m = Some m7"
    using 1(1) 2(1) 3(1) 5(1) 6(1) 7(1) by (simp add: dump_lines_def dump_arrays m4_def Let_def)
  then show ?thesis using that [OF _ 7(2)] by (simp add: f4_def)
qed

lemma dump_error_written:
  assumes ap: "apart 9 (dump_adr l) dump_cap" and st: "dump_strings l f m" and "f 6 = Some xs" and "length xs < 1000"
  obtains m' f' where "dump_error noret l pf m = Some m'" "dump_strings l f' m'"
    "f' 6 = Some (xs @ (if error_code pf \<noteq> DUMMY_ERROR_CODE then Error_text @ hex_string (error_code pf) else []))"
proof (cases "error_code pf = DUMMY_ERROR_CODE")
  case True
  then show ?thesis using that [of m f] assms(2,3) by (simp add: dump_error_def)
next
  case False
  let ?e = "hex_string (error_code pf)"
  have len: "length ?e \<le> 10" by (rule hex_string_length)
  obtain m1 where 1: "num_to_hex_string noret (error_code pf) (dump_adr l 7) m = Some m1" "dump_strings l (f(7 \<mapsto> ?e)) m1"
    using dump_hex [OF ap st, of 7] by blast
  have 2: "dump_strings l (f(7 \<mapsto> ?e, 8 \<mapsto> Error_text)) (char_array (dump_adr l 8) Error_text MAX_MESSAGE_SIZE m1)"
    by (intro dump_array ap 1(2)) (simp_all add: dump_texts)
  obtain m3 where 3: "strcat (char_array (dump_adr l 8) Error_text MAX_MESSAGE_SIZE m1) (dump_adr l 8) (dump_adr l 7) = Some m3"
      "dump_strings l (f(7 \<mapsto> ?e, 8 \<mapsto> Error_text, 8 \<mapsto> Error_text @ ?e)) m3"
    by (rule dump_cat [OF ap 2, where i = 8 and j = 7 and xs = Error_text and ys = ?e]) (use len in \<open>simp_all add: dump_texts\<close>)
  obtain m4 where 4: "strcat m3 (dump_adr l 6) (dump_adr l 8) = Some m4"
      "dump_strings l (f(7 \<mapsto> ?e, 8 \<mapsto> Error_text, 8 \<mapsto> Error_text @ ?e, 6 \<mapsto> xs @ Error_text @ ?e)) m4"
    by (rule dump_cat [OF ap 3(2), where i = 6 and j = 8 and xs = xs and ys = "Error_text @ ?e"]) (use len assms(3,4) in \<open>simp_all add: dump_texts\<close>)
  have "dump_error noret l pf m = Some m4"
    using False 1(1) 3(1) 4(1) by (simp add: dump_error_def dump_arrays Let_def)
  then show ?thesis using that [OF _ 4(2)] False by simp
qed

lemma dump_state_sends:
  assumes ap: "apart 9 (dump_adr l) dump_cap" and "is_cstr m (full_msg l) junk" and "length junk \<le> 900"
  shows "\<exists>m'. dump_state noret l pf (m, h) = Some (m', h @ map (Out 0x3f8) (junk @ crash_report pf))"
proof -
  let ?a = "EIP_text @ hex_string (iret_eip pf)" and ?b = "Eflags_text @ hex_string (iret_eflags pf)"
    and ?c = "Vector_text @ hex_string (vector_num pf)"
  note len = hex_string_length [of "iret_eip pf"] hex_string_length [of "iret_eflags pf"]
    hex_string_length [of "vector_num pf"] hex_string_length [of "error_code pf"] assms(3)
  have "dump_strings l [6 \<mapsto> junk] m" using assms(2,3) by (simp add: strings_def dump_arrays dump_caps)
  then obtain m1 f where 1: "dump_lines noret l pf m = Some m1" "dump_strings l f m1" "f 6 = Some junk"
      "f 3 = Some ?a" "f 4 = Some ?b" "f 5 = Some ?c"
    using dump_lines_written [OF ap, of "[6 \<mapsto> junk]" m noret pf] by auto
  obtain m2 where 2: "strcat m1 (dump_adr l 6) (dump_adr l 3) = Some m2" "dump_strings l (f(6 \<mapsto> junk @ ?a)) m2"
    by (rule dump_cat [OF ap 1(2), where i = 6 and j = 3 and xs = junk and ys = ?a]) (use len 1 in \<open>simp_all add: dump_texts\<close>)
  obtain m3 where 3: "strcat m2 (dump_adr l 6) (dump_adr l 4) = Some m3"
      "dump_strings l (f(6 \<mapsto> junk @ ?a, 6 \<mapsto> (junk @ ?a) @ ?b)) m3"
    by (rule dump_cat [OF ap 2(2), where i = 6 and j = 4 and xs = "junk @ ?a" and ys = ?b]) (use len 1 in \<open>simp_all add: dump_texts\<close>)
  obtain m4 where 4: "strcat m3 (dump_adr l 6) (dump_adr l 5) = Some m4"
      "dump_strings l (f(6 \<mapsto> junk @ ?a, 6 \<mapsto> (junk @ ?a) @ ?b, 6 \<mapsto> ((junk @ ?a) @ ?b) @ ?c)) m4"
    by (rule dump_cat [OF ap 3(2), where i = 6 and j = 5 and xs = "(junk @ ?a) @ ?b" and ys = ?c]) (use len 1 in \<open>simp_all add: dump_texts\<close>)
  obtain m5 f5 where 5: "dump_error noret l pf m4 = Some m5" "dump_strings l f5 m5" "f5 6 = Some (junk @ crash_report pf)"
    by (rule dump_error_written [OF ap 4(2), of "((junk @ ?a) @ ?b) @ ?c" noret pf])
      (use len in \<open>auto simp: dump_texts crash_report_def\<close>)
  have "is_cstr m5 (full_msg l) (junk @ crash_report pf)" using 5(2,3) by (auto simp: strings_def dump_arrays)
  from send_string_cstr [OF this is_cstr_length [OF this], of h] show ?thesis
    using 1(1) 2(1) 3(1) 4(1) 5(1) by (simp add: dump_state_def dump_arrays)
qed

subsection \<open>Keyboard interrupts\<close>

text \<open>The keyboard answers successive reads of its port with \<open>bs\<close>.\<close>

definition delivers :: "device \<Rightarrow> io_event list \<Rightarrow> u8 list \<Rightarrow> bool" where
  "delivers dev h bs \<longleftrightarrow> (\<forall>k < length bs. dev (h @ map (In 0x60) (take k bs)) 0x60 = bs ! k)"

lemma delivers_Cons:
  "delivers dev h (b # bs) \<longleftrightarrow> dev h 0x60 = b \<and> delivers dev (h @ [In 0x60 b]) bs"
  by (simp add: delivers_def All_less_Suc2)

lemma keyboard_interrupts:
  assumes "\<forall>f \<in> set fs. vector_num f = KEYBOARD_IRQ" and "length fs = length bs"
    and "delivers dev (ports s) bs" and "kbd_run ua oob hk bs (kbd s, mm (mach s)) = Some (k, t)"
  shows "take_interrupts (interrupt_handler_dispatcher ua oob hk noret l dev) fs s =
    Some (Resumes (s\<lparr>ports := ports s @ map (In 0x60) bs, kbd := k,
      mach := (mach s)\<lparr>mm := t, mmio := mmio (mach s) @ replicate (length bs) (MWrite (lapic (mach s) + 0xB0) 0)\<rparr>\<rparr>))"
  using assms
proof (induction bs arbitrary: fs s)
  case Nil
  then show ?case by simp
next
  case (Cons b bs)
  then obtain f fs' where fs: "fs = f # fs'" by (cases fs) auto
  from Cons.prems(4) obtain ks where ks: "handle_kbd_irq ua oob hk b (kbd s, mm (mach s)) = Some ks"
      "kbd_run ua oob hk bs ks = Some (k, t)"
    by (auto split: bind_splits)
  let ?s = "s\<lparr>ports := ports s @ [In 0x60 b], kbd := fst ks, mach := write_EOI ((mach s)\<lparr>mm := snd ks\<rparr>)\<rparr>"
  have b: "dev (ports s) 0x60 = b" "delivers dev (ports ?s) bs" using Cons.prems(3) by (simp_all add: delivers_Cons)
  have "interrupt_handler_dispatcher ua oob hk noret l dev f s = Some (Resumes ?s)"
    using Cons.prems(1) fs b(1) ks(1)
    by (simp add: interrupt_handler_dispatcher_def readb_from_keyboard_def recvb_fromport_def port_consts split_def)
  moreover have "take_interrupts (interrupt_handler_dispatcher ua oob hk noret l dev) fs' ?s = Some (Resumes (?s\<lparr>ports := ports ?s @ map (In 0x60) bs,
      kbd := k, mach := (mach ?s)\<lparr>mm := t, mmio := mmio (mach ?s) @ replicate (length bs) (MWrite (lapic (mach ?s) + 0xB0) 0)\<rparr>\<rparr>))"
    by (rule Cons.IH) (use Cons.prems(1,2) fs b(2) ks(2) in \<open>simp_all add: write_EOI_def mmio_write_def\<close>)
  ultimately show ?case
    using fs by (simp add: write_EOI_def mmio_write_def lapic_fields)
qed

subsection \<open>Properties\<close>

text \<open>
  C39. The message array of the crash report is never initialised before text is appended to it. Assume
  that it happens to hold a terminated string of at most 900 bytes, so that what is appended stays
  inside the array, and that the local arrays of the dump do not overlap. Then any interrupt but the
  keyboard's stops the machine, so that no later one is taken, after that string and a report with
  the instruction pointer, the flags, the vector and, when there is one, the error code have been
  sent over the serial port. For any other content of the array nothing is shown: the appends may run
  past its end, or past every string in memory.
\<close>

theorem crash_report_sent:
  assumes "vector_num f \<noteq> 0x21" and "apart 9 (dump_adr l) dump_cap"
    and "is_cstr (stack s) (full_msg l) junk" and "length junk \<le> 900"
  shows "\<exists>s'. take_interrupts (interrupt_handler_dispatcher ua oob hk noret l dev) (f # fs) s = Some (Halts s') \<and>
    ports s' = ports s @ map (Out 0x3f8) (junk @ crash_report f) \<and> mach s' = mach s"
proof -
  obtain m' where "dump_state noret l f (stack s, ports s) =
      Some (m', ports s @ map (Out 0x3f8) (junk @ crash_report f))"
    using dump_state_sends [OF assms(2-4)] by blast
  then show ?thesis using assms(1) by (simp add: interrupt_handler_dispatcher_def KEYBOARD_IRQ_def)
qed

text \<open>A division error at \<open>0xC0101234\<close>, with a left-over question mark in the message array.\<close>

definition ex_locals :: dump_locals where
  "ex_locals = \<lparr>eip_str = 0x1000, eflags_str = 0x1020, vec_num = 0x1040, eip_msg = 0x2000, eflags_msg = 0x2400,
     vec_msg = 0x2800, full_msg = 0x2C00, error_code_str = 0x1060, error_msg = 0x3000\<rparr>"

definition ex_frame :: process_context_t where
  "ex_frame = \<lparr>edi = 0, esi = 0, ebp = 0, esp = 0, ebx = 0, edx = 0, ecx = 0, eax = 0, vector_num = 0,
     error_code = 0xDEADBEEF, iret_eip = 0xC0101234, iret_cs = 8, iret_eflags = 0x2, iret_esp = 0, iret_ss = 0\<rparr>"

definition ex_os :: "vmm os" where
  "ex_os = \<lparr>mach = ex_machine, stack = (\<lambda>_. 0)(0x2C00 := 0x3F), ports = [], kbd = kbd_idle\<rparr>"

lemma ex_locals_apart: "apart 9 (dump_adr ex_locals) dump_cap"
proof -
  have nine: "(\<forall>i < 9. P i) \<longleftrightarrow> (P 0 \<and> P 1 \<and> P 2 \<and> P 3 \<and> P 4 \<and> P 5 \<and> P 6 \<and> P 7 \<and> P 8)" for P :: "nat \<Rightarrow> bool"
    by (auto simp: numeral_eq_Suc All_less_Suc)
  show ?thesis unfolding apart_def nine dump_caps by (simp add: dump_adr_def ex_locals_def)
qed

theorem crash_report_sent_witness:
  "\<exists>s'. take_interrupts (interrupt_handler_dispatcher 0x1000 (\<lambda>_. 0) (\<lambda>_ _. Some) (\<lambda>_. 0) ex_locals (\<lambda>_ _. 0x20)) [ex_frame, ex_frame] ex_os = Some (Halts s') \<and>
    ports s' = map (Out 0x3f8) (0x3F # EIP_text @ hex_string 0xC0101234 @ Eflags_text @ hex_string 2 @ Vector_text @ hex_string 0)"
proof -
  have "is_cstr (stack ex_os) (full_msg ex_locals) [0x3F]" by (simp add: ex_os_def ex_locals_def)
  moreover have "vector_num ex_frame \<noteq> 0x21" "length [0x3F :: u8] \<le> 900" by (simp_all add: ex_frame_def)
  ultimately obtain s' where "take_interrupts (interrupt_handler_dispatcher 0x1000 (\<lambda>_. 0) (\<lambda>_ _. Some) (\<lambda>_. 0) ex_locals (\<lambda>_ _. 0x20)) [ex_frame, ex_frame] ex_os = Some (Halts s')"
      "ports s' = ports ex_os @ map (Out 0x3f8) ([0x3F] @ crash_report ex_frame)"
    using crash_report_sent [OF _ ex_locals_apart] by blast
  then show ?thesis by (simp add: ex_os_def crash_report_def ex_frame_def DUMMY_ERROR_CODE_def)
qed

end
