(* ===== verification/Descriptors.thy ===== *)
theory Descriptors
  imports Memory Addresses "HOL-Library.Numeral_Type"
begin

text \<open>
  Segment descriptors (\<^verbatim>\<open>src/boot/gdt.c\<close>, \<^verbatim>\<open>src/include/boot/gdt.h\<close>) and interrupt gates
  (\<^verbatim>\<open>src/kernel/interrupts/idt.c\<close>, \<open>init_idt\<close> of \<^verbatim>\<open>src/boot/finish_booting.c\<close>): how the kernel packs
  them, and what the processor reads out of the packed bytes.
\<close>

unbundle bit_operations_syntax

named_theorems gdt_flags

subsection \<open>Flags of a segment descriptor\<close>

definition REGULAR_SEGMENT_LIMIT :: u8 where [gdt_flags]: "REGULAR_SEGMENT_LIMIT = push_bit 7 0"
definition EXTENDED_SEGMENT_LIMIT :: u8 where [gdt_flags]: "EXTENDED_SEGMENT_LIMIT = push_bit 7 1"
definition DEFAULT_16BIT_INSTR_SIZE :: u8 where [gdt_flags]: "DEFAULT_16BIT_INSTR_SIZE = push_bit 6 0"
definition DEFAULT_32BIT_INSTR_SIZE :: u8 where [gdt_flags]: "DEFAULT_32BIT_INSTR_SIZE = push_bit 6 1"
definition ON_16BIT_PLATFORM :: u8 where [gdt_flags]: "ON_16BIT_PLATFORM = push_bit 6 0"
definition ON_32BIT_PLATFORM :: u8 where [gdt_flags]: "ON_32BIT_PLATFORM = push_bit 6 1"
definition NATIVELY_32BIT :: u8 where [gdt_flags]: "NATIVELY_32BIT = push_bit 5 0"
definition NATIVELY_64BIT :: u8 where [gdt_flags]: "NATIVELY_64BIT = push_bit 5 1"
definition AVAILBLE_FLAG_NOT_USED :: u8 where [gdt_flags]: "AVAILBLE_FLAG_NOT_USED = push_bit 4 0"
definition SEGMENT_IS_NOT_IN_MEMORY :: u8 where [gdt_flags]: "SEGMENT_IS_NOT_IN_MEMORY = push_bit 7 0"
definition SEGMENT_IS_IN_MEMORY :: u8 where [gdt_flags]: "SEGMENT_IS_IN_MEMORY = push_bit 7 1"
definition KERNEL_SEGMENT :: u8 where [gdt_flags]: "KERNEL_SEGMENT = push_bit 5 0"
definition USERSPACE_SEGMENT :: u8 where [gdt_flags]: "USERSPACE_SEGMENT = push_bit 5 3"
definition SYSTEM_SEGMENT :: u8 where [gdt_flags]: "SYSTEM_SEGMENT = push_bit 4 0"
definition PROCESS_SEGMENT :: u8 where [gdt_flags]: "PROCESS_SEGMENT = push_bit 4 1"
definition DATA_SEGMENT :: u8 where [gdt_flags]: "DATA_SEGMENT = push_bit 3 0"
definition CODE_SEGMENT :: u8 where [gdt_flags]: "CODE_SEGMENT = push_bit 3 1"
definition EXPAND_UP :: u8 where [gdt_flags]: "EXPAND_UP = push_bit 2 0"
definition EXPAND_DOWN :: u8 where [gdt_flags]: "EXPAND_DOWN = push_bit 2 1"
definition NOT_WRITABLE :: u8 where [gdt_flags]: "NOT_WRITABLE = push_bit 1 0"
definition GDT_WRITABLE :: u8 where [gdt_flags]: "GDT_WRITABLE = push_bit 1 1"
definition CALLABLE_BY_LESS_PRIVILEGED_CODE :: u8 where
  [gdt_flags]: "CALLABLE_BY_LESS_PRIVILEGED_CODE = push_bit 2 0"
definition NOT_CALLABLE_BY_LESS_PRIVILEGED_CODE :: u8 where
  [gdt_flags]: "NOT_CALLABLE_BY_LESS_PRIVILEGED_CODE = push_bit 2 1"
definition NOT_READABLE :: u8 where [gdt_flags]: "NOT_READABLE = push_bit 1 0"
definition READABLE :: u8 where [gdt_flags]: "READABLE = push_bit 1 1"
definition NOT_ACCESSED :: u8 where [gdt_flags]: "NOT_ACCESSED = 0"
definition ACCESSED :: u8 where [gdt_flags]: "ACCESSED = 1"

definition KERNEL_CODE_SEG_GDT_INDEX :: nat where "KERNEL_CODE_SEG_GDT_INDEX = 1"
definition KERNEL_DATA_SEG_GDT_INDEX :: nat where "KERNEL_DATA_SEG_GDT_INDEX = 2"
definition KERNEL_CODE_SEG_SELECTOR :: u16 where "KERNEL_CODE_SEG_SELECTOR = 0x8"
definition NUM_GDT_ENTRIES :: nat where "NUM_GDT_ENTRIES = 3"

subsection \<open>Segment descriptors\<close>

record segment_descriptor =
  segmentlimit_lowbits :: u16
  baseaddress_lowbits :: u16
  baseaddress_middlebits :: u8
  flags_lowbits :: u8
  seglimit_and_flags_highbits :: u8
  baseaddress_highbits :: u8

definition build_segment_descriptor ::
    "segment_descriptor \<Rightarrow> u32 \<Rightarrow> u32 \<Rightarrow> u8 \<Rightarrow> u8 \<Rightarrow> segment_descriptor" where
  "build_segment_descriptor seg_desc baseaddress segmentlimit flag_lowbits flag_highbits =
     seg_desc\<lparr>segmentlimit_lowbits := ucast (segmentlimit AND 0x0000FFFF),
       seglimit_and_flags_highbits := ucast ((drop_bit 16 segmentlimit AND 0x000F) OR ucast flag_highbits),
       baseaddress_lowbits := ucast (baseaddress AND 0x0000FFFF),
       baseaddress_middlebits := ucast (drop_bit 16 baseaddress AND 0x00FF),
       baseaddress_highbits := ucast (drop_bit 24 baseaddress AND 0xFF),
       flags_lowbits := flag_lowbits\<rparr>"

text \<open>
  The state \<open>init_gdt\<close> changes: the table, the register that points to it, and the segment registers,
  which are reloaded after \<open>lgdt\<close>.
\<close>

record gdt_register_data =
  gdt_limit :: u16
  gdt_base :: u32

record segments =
  gdt :: "segment_descriptor list"
  gdtr :: gdt_register_data
  cs :: u16
  ds :: u16
  es :: u16
  fs :: u16
  gs :: u16
  ss :: u16

definition code_flag_lowbits :: u8 where
  "code_flag_lowbits = PROCESS_SEGMENT OR KERNEL_SEGMENT OR SEGMENT_IS_IN_MEMORY OR CODE_SEGMENT OR
     CALLABLE_BY_LESS_PRIVILEGED_CODE OR READABLE OR NOT_ACCESSED"

definition code_flag_highbits :: u8 where
  "code_flag_highbits = NATIVELY_32BIT OR AVAILBLE_FLAG_NOT_USED OR DEFAULT_32BIT_INSTR_SIZE OR EXTENDED_SEGMENT_LIMIT"

definition data_flag_lowbits :: u8 where
  "data_flag_lowbits = 0 OR PROCESS_SEGMENT OR KERNEL_SEGMENT OR SEGMENT_IS_IN_MEMORY OR DATA_SEGMENT OR
     EXPAND_UP OR GDT_WRITABLE OR NOT_ACCESSED"

definition data_flag_highbits :: u8 where
  "data_flag_highbits = 0 OR NATIVELY_32BIT OR AVAILBLE_FLAG_NOT_USED OR ON_32BIT_PLATFORM OR EXTENDED_SEGMENT_LIMIT"

text \<open>\<open>gdt_at\<close> is the address the linker gave to the array \<open>gdt\<close>.\<close>

definition init_gdt :: "u32 \<Rightarrow> segments \<Rightarrow> segments" where
  "init_gdt gdt_at s =
     (let t = gdt s;
          t = t[0 := build_segment_descriptor (t ! 0) 0 0 0 0];
          t = t[KERNEL_CODE_SEG_GDT_INDEX :=
                build_segment_descriptor (t ! KERNEL_CODE_SEG_GDT_INDEX) 0x0 0xFFFFF code_flag_lowbits code_flag_highbits];
          t = t[KERNEL_DATA_SEG_GDT_INDEX :=
                build_segment_descriptor (t ! KERNEL_DATA_SEG_GDT_INDEX) 0x0 0xFFFFF data_flag_lowbits data_flag_highbits];
          gdt_reg_info = \<lparr>gdt_limit = of_nat (8 * NUM_GDT_ENTRIES - 1), gdt_base = phys_addy gdt_at\<rparr>
      in s\<lparr>gdt := t, gdtr := gdt_reg_info, ds := 0x10, ss := 0x10, es := 0x10, fs := 0x10, gs := 0x10, cs := 0x8\<rparr>)"

subsection \<open>Interrupt gates\<close>

record gate_descriptor_32bit =
  offset_low :: u16
  segment_selector :: u16
  unused :: u8
  gate_type :: "3 word"
  gate_bitmode :: "1 word"
  zero :: "1 word"
  desc_priv_level :: "2 word"
  seg_present :: "1 word"
  offset_high :: u16

definition KERNEL_SEG :: u8 where "KERNEL_SEG = 0"
definition USER_SEG :: u8 where "USER_SEG = 3"
definition PRESENT_IN_MEMORY :: u8 where "PRESENT_IN_MEMORY = 1"
definition NOT_PRESENT_IN_MEMORY :: u8 where "NOT_PRESENT_IN_MEMORY = 0"
definition GATE_DESC_IS_32BIT :: u8 where "GATE_DESC_IS_32BIT = 1"
definition GATE_DESC_IS_16BIT :: u8 where "GATE_DESC_IS_16BIT = 0"

definition build_interrupt_gate_descriptor ::
    "gate_descriptor_32bit \<Rightarrow> u32 \<Rightarrow> u16 \<Rightarrow> u8 \<Rightarrow> u8 \<Rightarrow> u8 \<Rightarrow> gate_descriptor_32bit" where
  "build_interrupt_gate_descriptor gate_desc base_address selector bit_mode priv_level present =
     gate_desc\<lparr>offset_low := ucast (base_address AND 0xFFFF),
       offset_high := ucast (drop_bit 16 base_address AND 0xFFFF),
       segment_selector := selector,
       unused := 0,
       gate_type := 0b110,
       gate_bitmode := ucast bit_mode,
       zero := 0,
       desc_priv_level := ucast priv_level,
       seg_present := ucast present\<rparr>"

definition NUM_SUPPORTED_INTERRUPTS :: u32 where "NUM_SUPPORTED_INTERRUPTS = 256"
definition INTERRUPT_GATE_SIZE :: u32 where "INTERRUPT_GATE_SIZE = 8"
definition VECTOR_X_INTERRUPT_VECTOR_HANDLER_MAX_BYTES :: u32 where
  "VECTOR_X_INTERRUPT_VECTOR_HANDLER_MAX_BYTES = 32"

record idt_register_data_32bit =
  idt_limit :: u16
  idt_base_address :: u32

record interrupts =
  idt :: "u32 \<Rightarrow> gate_descriptor_32bit"
  idtr :: idt_register_data_32bit

text \<open>
  \<open>handlers\<close> is the address of the first handler stub and \<open>idt_at\<close> the one of the array \<open>idt\<close>.
\<close>

definition init_idt :: "u32 \<Rightarrow> u32 \<Rightarrow> interrupts \<Rightarrow> interrupts" where
  "init_idt handlers idt_at s =
     (let t = for_loop 0 256 (\<lambda>vector t.
            let interr_handler_addy = handlers + vector * VECTOR_X_INTERRUPT_VECTOR_HANDLER_MAX_BYTES
            in t(vector := build_interrupt_gate_descriptor (t vector) interr_handler_addy KERNEL_CODE_SEG_SELECTOR
                   GATE_DESC_IS_32BIT KERNEL_SEG PRESENT_IN_MEMORY)) (idt s)
      in s\<lparr>idt := t, idtr := \<lparr>idt_limit = ucast (NUM_SUPPORTED_INTERRUPTS * INTERRUPT_GATE_SIZE - 1),
           idt_base_address = idt_at\<rparr>\<rparr>)"

subsection \<open>What the processor reads\<close>

text \<open>The packed layout of a segment descriptor, lowest byte first, and the fields in its 64 bits.\<close>

definition segment_bits :: "segment_descriptor \<Rightarrow> u64" where
  "segment_bits d = ucast (segmentlimit_lowbits d) OR push_bit 16 (ucast (baseaddress_lowbits d)) OR
     push_bit 32 (ucast (baseaddress_middlebits d)) OR push_bit 40 (ucast (flags_lowbits d)) OR
     push_bit 48 (ucast (seglimit_and_flags_highbits d)) OR push_bit 56 (ucast (baseaddress_highbits d))"

definition bit_field :: "nat \<Rightarrow> nat \<Rightarrow> u64 \<Rightarrow> u32" where
  "bit_field i n w = ucast (take_bit n (drop_bit i w))"

definition cpu_segment_base :: "u64 \<Rightarrow> u32" where
  "cpu_segment_base w = bit_field 16 16 w OR push_bit 16 (bit_field 32 8 w) OR push_bit 24 (bit_field 56 8 w)"

definition cpu_segment_limit :: "u64 \<Rightarrow> u32" where
  "cpu_segment_limit w = bit_field 0 16 w OR push_bit 16 (bit_field 48 4 w)"

text \<open>Bits 40 to 47 are the access byte, bits 52 to 55 the flags.\<close>

definition cpu_segment_access :: "u64 \<Rightarrow> u32" where "cpu_segment_access w = bit_field 40 8 w"
definition cpu_segment_flags :: "u64 \<Rightarrow> u32" where "cpu_segment_flags w = bit_field 52 4 w"

text \<open>The highest offset in a segment: with the granularity flag the limit counts pages.\<close>

definition cpu_last_offset :: "u64 \<Rightarrow> nat" where
  "cpu_last_offset w =
     (if bit w 55 then unat (cpu_segment_limit w) * 4096 + 4095 else unat (cpu_segment_limit w))"

definition gate_bits :: "gate_descriptor_32bit \<Rightarrow> u64" where
  "gate_bits g = ucast (offset_low g) OR push_bit 16 (ucast (segment_selector g)) OR
     push_bit 32 (ucast (unused g)) OR push_bit 40 (ucast (gate_type g)) OR push_bit 43 (ucast (gate_bitmode g)) OR
     push_bit 44 (ucast (zero g)) OR push_bit 45 (ucast (desc_priv_level g)) OR push_bit 47 (ucast (seg_present g)) OR
     push_bit 48 (ucast (offset_high g))"

definition cpu_gate_offset :: "u64 \<Rightarrow> u32" where
  "cpu_gate_offset w = bit_field 0 16 w OR push_bit 16 (bit_field 48 16 w)"


subsection \<open>Bit fields\<close>

lemma field_below: "j + LENGTH('a) \<le> i \<Longrightarrow> drop_bit i (push_bit j (ucast (x :: 'a::len word) :: u64)) = 0"
  by (rule bit_word_eqI) (auto simp: bit_simps dest: bit_imp_le_length)

lemma field_above: "i + n \<le> j \<Longrightarrow> take_bit n (drop_bit i (push_bit j w)) = 0" for w :: u64
  by (rule bit_word_eqI) (auto simp: bit_simps)

lemma field_here:
  "j + LENGTH('a) \<le> 64 \<Longrightarrow> i = j \<Longrightarrow> drop_bit i (push_bit j (ucast (x :: 'a::len word) :: u64)) = ucast x"
  by (rule bit_word_eqI) (auto simp: bit_simps dest: bit_imp_le_length)

lemma field_read: "LENGTH('a) \<le> n \<Longrightarrow> take_bit n (ucast (x :: 'a::len word) :: u64) = ucast x"
  by (rule bit_word_eqI) (auto simp: bit_simps dest: bit_imp_le_length)

lemma field_first: "LENGTH('a) \<le> i \<Longrightarrow> drop_bit i (ucast (x :: 'a::len word) :: u64) = 0"
  by (rule bit_word_eqI) (auto simp: bit_simps dest: bit_imp_le_length)

lemma field_above_first: "n \<le> j \<Longrightarrow> take_bit n (push_bit j w) = 0" for w :: u64
  by (rule bit_word_eqI) (auto simp: bit_simps)

lemma field_narrow: "LENGTH('a) \<le> 64 \<Longrightarrow> (ucast (ucast (x :: 'a::len word) :: u64) :: u32) = ucast x"
  by (rule bit_word_eqI) (auto simp: bit_simps dest: bit_imp_le_length)

lemmas field_laws = field_narrow field_above_first field_below field_above field_here field_read field_first
  drop_bit_or take_bit_or

lemma segment_fields:
  "bit_field 0 16 (segment_bits d) = ucast (segmentlimit_lowbits d)"
  "bit_field 16 16 (segment_bits d) = ucast (baseaddress_lowbits d)"
  "bit_field 32 8 (segment_bits d) = ucast (baseaddress_middlebits d)"
  "bit_field 40 8 (segment_bits d) = ucast (flags_lowbits d)"
  "bit_field 56 8 (segment_bits d) = ucast (baseaddress_highbits d)"
  by (simp_all add: bit_field_def segment_bits_def field_laws)

lemma low_masks:
  "w AND 0xFFFF = take_bit 16 w" "w AND 0xFF = take_bit 8 w" "w AND 0xF = take_bit 4 w" for w :: u32
  by (simp_all add: take_bit_eq_mask mask_eq_exp_minus_1)

lemma segment_high_field:
  "bit_field 48 4 (segment_bits d) = ucast (take_bit 4 (seglimit_and_flags_highbits d))"
  "bit_field 52 4 (segment_bits d) = ucast (drop_bit 4 (seglimit_and_flags_highbits d))"
  "bit (segment_bits d) 55 = bit (seglimit_and_flags_highbits d) 7"
proof -
  show "bit_field 48 4 (segment_bits d) = ucast (take_bit 4 (seglimit_and_flags_highbits d))"
    by (simp add: bit_field_def segment_bits_def field_laws) (rule bit_word_eqI, auto simp: bit_simps)
  have "drop_bit 48 (push_bit 56 (ucast (baseaddress_highbits d) :: u64)) = push_bit 8 (ucast (baseaddress_highbits d))"
    by (rule bit_word_eqI) (auto simp: bit_simps dest: bit_imp_le_length)
  then have e: "drop_bit 48 (segment_bits d) = ucast (seglimit_and_flags_highbits d) OR push_bit 8 (ucast (baseaddress_highbits d))"
    by (simp add: segment_bits_def field_laws)
  have "drop_bit 52 (segment_bits d) = drop_bit 4 (drop_bit 48 (segment_bits d))" by simp
  then show "bit_field 52 4 (segment_bits d) = ucast (drop_bit 4 (seglimit_and_flags_highbits d))"
    unfolding bit_field_def e by (intro bit_word_eqI) (auto simp: bit_simps dest: bit_imp_le_length)
  have "bit (segment_bits d) 55 = bit (drop_bit 48 (segment_bits d)) 7" by (simp add: bit_simps)
  then show "bit (segment_bits d) 55 = bit (seglimit_and_flags_highbits d) 7"
    by (simp add: segment_bits_def field_laws bit_simps)
qed

lemma segment_decodes:
  "cpu_segment_base (segment_bits (build_segment_descriptor d base limit lo hi)) = base \<and>
   cpu_segment_limit (segment_bits (build_segment_descriptor d base limit lo hi)) =
     take_bit 20 limit OR push_bit 16 (ucast (take_bit 4 hi)) \<and>
   cpu_segment_access (segment_bits (build_segment_descriptor d base limit lo hi)) = ucast lo \<and>
   cpu_segment_flags (segment_bits (build_segment_descriptor d base limit lo hi)) = ucast (drop_bit 4 hi)"
proof (intro conjI)
  show "cpu_segment_base (segment_bits (build_segment_descriptor d base limit lo hi)) = base"
    unfolding cpu_segment_base_def segment_fields
  proof (rule bit_word_eqI)
    fix n assume "n < LENGTH(32)"
    then show "bit (ucast (baseaddress_lowbits (build_segment_descriptor d base limit lo hi)) OR
          push_bit 16 (ucast (baseaddress_middlebits (build_segment_descriptor d base limit lo hi))) OR
          push_bit 24 (ucast (baseaddress_highbits (build_segment_descriptor d base limit lo hi))) :: u32) n = bit base n"
      by (cases "n < 16"; cases "n < 24") (auto simp: build_segment_descriptor_def low_masks bit_simps)
  qed
  show "cpu_segment_access (segment_bits (build_segment_descriptor d base limit lo hi)) = ucast lo"
    by (simp add: cpu_segment_access_def segment_fields build_segment_descriptor_def)
  show "cpu_segment_flags (segment_bits (build_segment_descriptor d base limit lo hi)) = ucast (drop_bit 4 hi)"
    unfolding cpu_segment_flags_def segment_high_field
    by (rule bit_word_eqI) (auto simp: build_segment_descriptor_def low_masks bit_simps dest: bit_imp_le_length)
  show "cpu_segment_limit (segment_bits (build_segment_descriptor d base limit lo hi)) =
     take_bit 20 limit OR push_bit 16 (ucast (take_bit 4 hi))"
    unfolding cpu_segment_limit_def segment_high_field segment_fields
    by (rule bit_word_eqI) (auto simp: build_segment_descriptor_def low_masks bit_simps)
qed


text \<open>The descriptor a selector names in the table the processor has loaded.\<close>

definition selected :: "segments \<Rightarrow> u16 \<Rightarrow> u64" where
  "selected s sel = segment_bits (gdt s ! (unat sel div 8))"

lemma build_segment:
  "cpu_segment_base (segment_bits (build_segment_descriptor d base limit lo hi)) = base"
  "cpu_segment_limit (segment_bits (build_segment_descriptor d base limit lo hi)) =
     take_bit 20 limit OR push_bit 16 (ucast (take_bit 4 hi))"
  "cpu_segment_access (segment_bits (build_segment_descriptor d base limit lo hi)) = ucast lo"
  "cpu_segment_flags (segment_bits (build_segment_descriptor d base limit lo hi)) = ucast (drop_bit 4 hi)"
  "bit (segment_bits (build_segment_descriptor d base limit lo hi)) 55 = bit hi 7"
  using segment_decodes [of d base limit lo hi]
  by (simp_all add: segment_high_field(3) build_segment_descriptor_def bit_simps)

lemma flag_values:
  "code_flag_lowbits = 0x9A" "code_flag_highbits = 0xC0" "data_flag_lowbits = 0x92" "data_flag_highbits = 0xC0"
  by (simp_all add: code_flag_lowbits_def code_flag_highbits_def data_flag_lowbits_def data_flag_highbits_def gdt_flags)

lemma init_gdt_fields:
  assumes "length (gdt s) = NUM_GDT_ENTRIES"
  shows "gdt (init_gdt gdt_at s) =
      [build_segment_descriptor (gdt s ! 0) 0 0 0 0,
       build_segment_descriptor (gdt s ! 1) 0x0 0xFFFFF 0x9A 0xC0,
       build_segment_descriptor (gdt s ! 2) 0x0 0xFFFFF 0x92 0xC0]"
    "cs (init_gdt gdt_at s) = 0x8" "gdtr (init_gdt gdt_at s) = \<lparr>gdt_limit = 23, gdt_base = phys_addy gdt_at\<rparr>"
    "ds (init_gdt gdt_at s) = 0x10" "es (init_gdt gdt_at s) = 0x10" "fs (init_gdt gdt_at s) = 0x10"
    "gs (init_gdt gdt_at s) = 0x10" "ss (init_gdt gdt_at s) = 0x10"
proof -
  obtain a b c where "gdt s = [a, b, c]"
    using assms by (auto simp: NUM_GDT_ENTRIES_def length_Suc_conv eval_nat_numeral)
  then show "gdt (init_gdt gdt_at s) =
      [build_segment_descriptor (gdt s ! 0) 0 0 0 0,
       build_segment_descriptor (gdt s ! 1) 0x0 0xFFFFF 0x9A 0xC0,
       build_segment_descriptor (gdt s ! 2) 0x0 0xFFFFF 0x92 0xC0]"
    by (simp add: init_gdt_def Let_def flag_values KERNEL_CODE_SEG_GDT_INDEX_def KERNEL_DATA_SEG_GDT_INDEX_def)
qed (simp_all add: init_gdt_def Let_def NUM_GDT_ENTRIES_def)

subsection \<open>Properties\<close>

definition ex_segments :: segments where
  "ex_segments =
     (let d = \<lparr>segmentlimit_lowbits = 0, baseaddress_lowbits = 0, baseaddress_middlebits = 0, flags_lowbits = 0,
            seglimit_and_flags_highbits = 0, baseaddress_highbits = 0\<rparr>
      in \<lparr>gdt = [d, d, d], gdtr = \<lparr>gdt_limit = 0, gdt_base = 0\<rparr>, cs = 0, ds = 0, es = 0, fs = 0, gs = 0, ss = 0\<rparr>)"

lemma init_idt_entry:
  assumes "v < 256"
  shows "idt (init_idt handlers idt_at s) v =
    build_interrupt_gate_descriptor (idt s v) (handlers + 32 * v) KERNEL_CODE_SEG_SELECTOR GATE_DESC_IS_32BIT
      KERNEL_SEG PRESENT_IN_MEMORY"
proof -
  let ?g = "\<lambda>v. build_interrupt_gate_descriptor (idt s v) (handlers + 32 * v) KERNEL_CODE_SEG_SELECTOR
      GATE_DESC_IS_32BIT KERNEL_SEG PRESENT_IN_MEMORY"
  let ?body = "\<lambda>vector t. t(vector := build_interrupt_gate_descriptor (t vector)
      (handlers + vector * VECTOR_X_INTERRUPT_VECTOR_HANDLER_MAX_BYTES) KERNEL_CODE_SEG_SELECTOR
      GATE_DESC_IS_32BIT KERNEL_SEG PRESENT_IN_MEMORY)"
  have "for_loop 0 256 ?body (idt s) = (\<lambda>v. if v < 256 then ?g v else idt s v)"
  proof (rule for_loop_invariant [where P = "\<lambda>i t. t = (\<lambda>v. if v < i then ?g v else idt s v)"])
    fix j :: u32 and t assume j: "j < 256" and t: "t = (\<lambda>v. if v < j then ?g v else idt s v)"
    have "v < j + 1 \<longleftrightarrow> v < j \<or> v = j" for v using word_lt_inc [OF j, of v] by auto
    then show "t(j := build_interrupt_gate_descriptor (t j) (handlers + j * VECTOR_X_INTERRUPT_VECTOR_HANDLER_MAX_BYTES)
          KERNEL_CODE_SEG_SELECTOR GATE_DESC_IS_32BIT KERNEL_SEG PRESENT_IN_MEMORY) =
        (\<lambda>v. if v < j + 1 then ?g v else idt s v)"
      by (auto simp: fun_eq_iff t VECTOR_X_INTERRUPT_VECTOR_HANDLER_MAX_BYTES_def mult.commute)
  qed auto
  then show ?thesis using assms by (simp add: init_idt_def Let_def)
qed

text \<open>The fields of a gate.\<close>

lemma gate_fields:
  "bit_field 0 16 (gate_bits g) = ucast (offset_low g)"
  "bit_field 16 16 (gate_bits g) = ucast (segment_selector g)"
  "bit_field 32 8 (gate_bits g) = ucast (unused g)"
  "bit_field 40 3 (gate_bits g) = ucast (gate_type g)"
  "bit_field 45 2 (gate_bits g) = ucast (desc_priv_level g)"
  "bit_field 48 16 (gate_bits g) = ucast (offset_high g)"
  by (simp_all add: bit_field_def gate_bits_def field_laws)

lemma gate_flags:
  "bit (gate_bits g) 43 = bit (gate_bitmode g) 0"
  "bit (gate_bits g) 44 = bit (zero g) 0"
  "bit (gate_bits g) 47 = bit (seg_present g) 0"
  by (auto simp: gate_bits_def bit_simps dest: bit_imp_le_length)

text \<open>
  C30. The processor reads from a packed segment descriptor the base, the access byte and the flags it
  was built from, and the low 20 bits of the limit; the low half of \<open>flag_highbits\<close> would be mixed
  into the limit.
\<close>

theorem segment_descriptor_decodes:
  "cpu_segment_base (segment_bits (build_segment_descriptor d base limit lo hi)) = base \<and>
   cpu_segment_limit (segment_bits (build_segment_descriptor d base limit lo hi)) =
     take_bit 20 limit OR push_bit 16 (ucast (take_bit 4 hi)) \<and>
   cpu_segment_access (segment_bits (build_segment_descriptor d base limit lo hi)) = ucast lo \<and>
   cpu_segment_flags (segment_bits (build_segment_descriptor d base limit lo hi)) = ucast (drop_bit 4 hi)"
  by (rule segment_decodes)

text \<open>
  C31. After \<open>init_gdt\<close> every segment register selects a present kernel segment that starts at
  address 0 and covers all 4 GiB, 32-bit code for the code register and writable data for the others;
  the selectors lie inside the limit of the table, and entry 0 is the null descriptor. So segmentation
  changes no address.
\<close>

theorem init_gdt_flat:
  assumes "length (gdt s) = NUM_GDT_ENTRIES" and "t = init_gdt gdt_at s"
  shows "cpu_segment_base (selected t (cs t)) = 0 \<and> cpu_last_offset (selected t (cs t)) = 2 ^ 32 - 1 \<and>
    cpu_segment_access (selected t (cs t)) = 0x9A \<and> cpu_segment_flags (selected t (cs t)) = 0xC \<and>
    (\<forall>sel \<in> {ds t, es t, fs t, gs t, ss t}.
       cpu_segment_base (selected t sel) = 0 \<and> cpu_last_offset (selected t sel) = 2 ^ 32 - 1 \<and>
       cpu_segment_access (selected t sel) = 0x92 \<and> cpu_segment_flags (selected t sel) = 0xC \<and>
       unat sel + 7 \<le> unat (gdt_limit (gdtr t))) \<and>
    segment_bits (gdt t ! 0) = 0 \<and> gdt_base (gdtr t) = gdt_at - kernel_vm_offset"
  unfolding assms(2)
  by (simp add: init_gdt_fields [OF assms(1)] selected_def build_segment cpu_last_offset_def phys_addy_def)
    (simp add: segment_bits_def build_segment_descriptor_def)

theorem init_gdt_flat_witness:
  "cpu_last_offset (selected (init_gdt 0xC0101000 ex_segments) (cs (init_gdt 0xC0101000 ex_segments))) = 2 ^ 32 - 1 \<and>
    gdt_base (gdtr (init_gdt 0xC0101000 ex_segments)) = 0x101000"
proof -
  have "length (gdt ex_segments) = NUM_GDT_ENTRIES" by (simp add: ex_segments_def NUM_GDT_ENTRIES_def Let_def)
  from init_gdt_flat [OF this refl, of "0xC0101000"] show ?thesis by (simp add: kernel_vm_offset_def)
qed

text \<open>
  C32. After \<open>init_idt\<close> each of the 256 vectors has a present 32-bit interrupt gate of ring 0 into the
  kernel code segment, at the address of its own stub, and the limit covers exactly the 256 gates.
\<close>

theorem init_idt_gates:
  assumes "v < 256" and "g = gate_bits (idt (init_idt handlers idt_at s) v)"
  shows "cpu_gate_offset g = handlers + 32 * v \<and> bit_field 16 16 g = ucast KERNEL_CODE_SEG_SELECTOR \<and>
    bit_field 40 3 g = 0b110 \<and> bit g 43 \<and> \<not> bit g 44 \<and> bit_field 45 2 g = 0 \<and> bit g 47 \<and>
    unat (idt_limit (idtr (init_idt handlers idt_at s))) + 1 = 256 * 8"
proof -
  have "ucast (ucast (a AND 0xFFFF) :: u16) OR push_bit 16 (ucast (ucast (drop_bit 16 a AND 0xFFFF) :: u16)) = a" for a :: u32
  proof (rule bit_word_eqI)
    fix n assume "n < LENGTH(32)"
    then show "bit (ucast (ucast (a AND 0xFFFF) :: u16) OR push_bit 16 (ucast (ucast (drop_bit 16 a AND 0xFFFF) :: u16)) :: u32) n = bit a n"
      by (cases "n < 16") (auto simp: low_masks bit_simps)
  qed
  then show ?thesis
    unfolding assms(2) init_idt_entry [OF assms(1)]
    by (simp add: cpu_gate_offset_def gate_fields gate_flags build_interrupt_gate_descriptor_def GATE_DESC_IS_32BIT_def
        KERNEL_SEG_def PRESENT_IN_MEMORY_def init_idt_def Let_def NUM_SUPPORTED_INTERRUPTS_def INTERRUPT_GATE_SIZE_def)
qed

text \<open>The keyboard vector, with the stubs at 1 MiB of the kernel.\<close>

definition ex_interrupts :: interrupts where
  "ex_interrupts = \<lparr>idt = (\<lambda>_. \<lparr>offset_low = 0, segment_selector = 0, unused = 0, gate_type = 0, gate_bitmode = 0,
     zero = 0, desc_priv_level = 0, seg_present = 0, offset_high = 0\<rparr>), idtr = \<lparr>idt_limit = 0, idt_base_address = 0\<rparr>\<rparr>"

theorem init_idt_gates_witness:
  "cpu_gate_offset (gate_bits (idt (init_idt 0xC0100000 0xC0200000 ex_interrupts) 0x21)) = 0xC0100420"
proof -
  have "(0x21 :: u32) < 256" by simp
  from init_idt_gates [OF this refl, of "0xC0100000" "0xC0200000" ex_interrupts] show ?thesis by simp
qed

end
