(* ===== verification/Boot.thy ===== *)
theory Boot
  imports Interrupts Descriptors History
begin

text \<open>
  \<^verbatim>\<open>src/boot/finish_booting.c\<close>: the walk over the boot loader's tags and the order in which the
  kernel starts its parts. The boot information lies in the same byte memory the heap and the
  console work on.
\<close>

unbundle bit_operations_syntax

subsection \<open>The boot loader's tags\<close>

definition MULTIBOOT_TAG_TYPE_END :: u32 where "MULTIBOOT_TAG_TYPE_END = 0"
definition MULTIBOOT_TAG_TYPE_MMAP :: u32 where "MULTIBOOT_TAG_TYPE_MMAP = 6"
definition MULTIBOOT_TAG_TYPE_FRAMEBUFFER :: u32 where "MULTIBOOT_TAG_TYPE_FRAMEBUFFER = 8"
definition MULTIBOOT_TAG_TYPE_ACPI_NEW :: u32 where "MULTIBOOT_TAG_TYPE_ACPI_NEW = 15"

lemmas tag_types = MULTIBOOT_TAG_TYPE_END_def MULTIBOOT_TAG_TYPE_MMAP_def MULTIBOOT_TAG_TYPE_FRAMEBUFFER_def
  MULTIBOOT_TAG_TYPE_ACPI_NEW_def

definition read64 :: "mem \<Rightarrow> u32 \<Rightarrow> u64" where
  "read64 m a = ucast (read32 m a) OR push_bit 32 (ucast (read32 m (a + 4)))"

text \<open>\<open>struct multiboot_tag\<close>\<close>

definition tag_type :: "mem \<Rightarrow> u32 \<Rightarrow> u32" where "tag_type m tag = read32 m tag"
definition mb_tag_size :: "mem \<Rightarrow> u32 \<Rightarrow> u32" where "mb_tag_size m tag = read32 m (tag + 4)"

text \<open>\<open>struct multiboot_tag_framebuffer\<close>, the variant with direct colours.\<close>

definition framebuffer_tag_at :: "mem \<Rightarrow> u32 \<Rightarrow> framebuffer_tag" where
  "framebuffer_tag_at m tag =
     \<lparr>framebuffer_addr = read64 m (tag + 8), framebuffer_pitch = read32 m (tag + 16),
      framebuffer_width = read32 m (tag + 20), framebuffer_height = read32 m (tag + 24),
      framebuffer_bpp = m (tag + 28),
      framebuffer_red_field_position = m (tag + 32), framebuffer_red_mask_size = m (tag + 33),
      framebuffer_green_field_position = m (tag + 34), framebuffer_green_mask_size = m (tag + 35),
      framebuffer_blue_field_position = m (tag + 36), framebuffer_blue_mask_size = m (tag + 37)\<rparr>"

text \<open>\<open>struct multiboot_mmap_entry\<close> has 24 bytes; the code steps by these, not by the tag's \<open>entry_size\<close>.\<close>

definition mmap_entry_at :: "mem \<Rightarrow> u32 \<Rightarrow> mmap_entry" where
  "mmap_entry_at m p = \<lparr>addr = read64 m p, len = read64 m (p + 8), mtype = read32 m (p + 16)\<rparr>"

definition mmap_entries_at :: "mem \<Rightarrow> u32 \<Rightarrow> mmap_entry list" where
  "mmap_entries_at m tag =
     map (\<lambda>idx. mmap_entry_at m (tag + 16 + 24 * of_nat idx))
       [0..<unat (num_mmap_entries (mb_tag_size m tag) (read32 m (tag + 8)))]"

definition ALIGN_TO_8_BYTES :: "u32 \<Rightarrow> u32" where
  "ALIGN_TO_8_BYTES sz = (sz + 7) AND NOT 7"

subsection \<open>State\<close>

text \<open>
  What the linker, the stack and the processor contribute: the end of the kernel, the addresses of the
  handler stubs and of the table of gates, the literal and the buffer of the ACPI search, and what
  uninitialised variables hold.
\<close>

record boot_params =
  boot_fuel :: nat
  boot_noflags :: "line_editor \<Rightarrow> u32"
  kernel_end_at :: u32
  handlers_at :: u32
  idt_at :: u32
  sig_at :: u32
  sig_buf :: u32
  uninit_array :: array_hdr
  uninit_entry :: Interrupt_Redirection_Table_Entry
  boot_image :: "line_editor image"

record kernel =
  sys :: "line_editor machine"
  boot :: boot_mem
  gates :: interrupts
  interrupts_enabled :: bool
  port_log :: "io_event list"

subsection \<open>Starting\<close>

definition process_tag :: "boot_params \<Rightarrow> u32 \<Rightarrow> u32 \<Rightarrow> kernel \<Rightarrow> kernel option" where
  "process_tag b ty tag k =
     (let m = hmem (mm (sys k)) in
      if ty = MULTIBOOT_TAG_TYPE_FRAMEBUFFER then
        map_option (\<lambda>e. k\<lparr>sys := (sys k)\<lparr>mm := e\<rparr>\<rparr>)
          (initialize_framebuffer_attributes (boot_fuel b) (boot_noflags b) (framebuffer_tag_at m tag) (mm (sys k)))
      else if ty = MULTIBOOT_TAG_TYPE_ACPI_NEW then
        map_option (\<lambda>(t, m). k\<lparr>sys := (sys k)\<lparr>acpi_tables := t, mm := (mm (sys k))\<lparr>hmem := m\<rparr>\<rparr>\<rparr>)
          (process_acpi_info (sig_buf b) (sig_at b) tag (acpi_tables (sys k)) m)
      else if ty = MULTIBOOT_TAG_TYPE_MMAP then
        map_option (\<lambda>(r, e). k\<lparr>boot := r, sys := (sys k)\<lparr>mm := e\<rparr>\<rparr>)
          (init_memory (boot_fuel b) (boot_noflags b) (kernel_end_at b) (mmap_entry_at m 0) (mmap_entries_at m tag)
             (boot k) (mm (sys k)))
      else Some k)"

partial_function (option) walk_tags :: "boot_params \<Rightarrow> u32 \<Rightarrow> kernel \<Rightarrow> kernel option" where
  "walk_tags b tag k =
     (if tag_type (hmem (mm (sys k))) tag \<noteq> MULTIBOOT_TAG_TYPE_END then
        Option.bind (process_tag b (tag_type (hmem (mm (sys k))) tag) tag k) (\<lambda>k.
          walk_tags b (tag + ALIGN_TO_8_BYTES (mb_tag_size (hmem (mm (sys k))) tag)) k)
      else Some k)"

definition process_multiboot2_bootinfo :: "boot_params \<Rightarrow> u32 \<Rightarrow> kernel \<Rightarrow> kernel option" where
  "process_multiboot2_bootinfo b multiboot2_bootinfo_startaddress k =
     walk_tags b (multiboot2_bootinfo_startaddress + 8) k"

definition initialize_interrupts :: "boot_params \<Rightarrow> mmio_device \<Rightarrow> kernel \<Rightarrow> kernel option" where
  "initialize_interrupts b dev k =
     Option.bind (initialize_lapic (boot_fuel b) (boot_noflags b) dev (sys k)) (\<lambda>s.
     Option.bind (initialize_ioapic (boot_fuel b) (boot_noflags b) (uninit_array b) (uninit_entry b) dev s) (\<lambda>s.
       Some (k\<lparr>sys := s, interrupts_enabled := True\<rparr>)))"

definition initialize_peripheral_devices :: "device \<Rightarrow> kernel \<Rightarrow> kernel option" where
  "initialize_peripheral_devices dev k =
     Option.bind (initialize_ps2keyboard dev (port_log k)) (\<lambda>h.
       let (res, h) = init_serial_port dev h in Some (k\<lparr>port_log := h\<rparr>))"

text \<open>The state in which \<open>start_shell\<close> enters the empty endless loop of \<open>shell_main\<close>.\<close>

definition kernel_start :: "boot_params \<Rightarrow> mmio_device \<Rightarrow> device \<Rightarrow> u32 \<Rightarrow> kernel \<Rightarrow> kernel option" where
  "kernel_start b dev pdev multiboot2_bootinfo_startaddress k =
     (let k = k\<lparr>gates := init_idt (handlers_at b) (idt_at b) (gates k)\<rparr> in
      Option.bind (process_multiboot2_bootinfo b multiboot2_bootinfo_startaddress k) (\<lambda>k.
      Option.bind (initialize_interrupts b dev k) (\<lambda>k.
      Option.bind (initialize_peripheral_devices pdev k) (\<lambda>k.
        map_option (\<lambda>e. k\<lparr>sys := (sys k)\<lparr>mm := e\<rparr>\<rparr>) (init_terminal_subsystem (boot_image b) (mm (sys k)))))))"

subsection \<open>The walk\<close>

text \<open>The space a tag of \<open>n\<close> bytes takes: \<open>n\<close> rounded up to a multiple of 8.\<close>

definition padded :: "u32 \<Rightarrow> u32" where
  "padded n = of_nat (8 * ((unat n + 7) div 8))"

lemma ALIGN_TO_8_BYTES_padded: "ALIGN_TO_8_BYTES sz = padded sz"
proof -
  have seven: "(7 :: u32) = mask 3" by (simp add: mask_eq_exp_minus_1)
  have "ALIGN_TO_8_BYTES sz = push_bit 3 (drop_bit 3 (sz + 7))"
    unfolding ALIGN_TO_8_BYTES_def seven by (rule bit_word_eqI) (auto simp: bit_simps)
  then have "unat (ALIGN_TO_8_BYTES sz) = 8 * (unat (sz + 7) div 8) mod 4294967296"
    by (simp add: push_bit_eq_mult drop_bit_eq_div unat_word_ariths unat_div_distrib mult.commute)
  moreover have "8 * (n mod 4294967296 div 8) mod 4294967296 = 8 * (n div 8) mod (4294967296 :: nat)" for n
  proof -
    have eq: "n = n mod 4294967296 + 8 * (536870912 * (n div 4294967296))" by simp
    have "n div 8 = (n mod 4294967296 + 8 * (536870912 * (n div 4294967296))) div 8"
      by (rule arg_cong [OF eq])
    also have "\<dots> = 536870912 * (n div 4294967296) + n mod 4294967296 div 8" by (rule div_mult_self2) simp
    finally have "n div 8 = 536870912 * (n div 4294967296) + n mod 4294967296 div 8" .
    then have "8 * (n div 8) = 8 * (n mod 4294967296 div 8) + 4294967296 * (n div 4294967296)" by simp
    then show ?thesis by (simp only: mod_mult_self2)
  qed
  moreover have "unat (padded sz) = 8 * ((unat sz + 7) div 8) mod 4294967296"
    unfolding padded_def unat_of_nat by simp
  moreover have "unat (sz + 7) = (unat sz + 7) mod 4294967296" by (simp add: unat_word_ariths)
  ultimately show ?thesis by (simp only: word_unat_eq_iff)
qed

text \<open>From \<open>p\<close> to \<open>e\<close> lie tags with the types and sizes \<open>ts\<close>, each padded to a multiple of 8 bytes.\<close>

fun tags_hold :: "mem \<Rightarrow> u32 \<Rightarrow> (u32 \<times> u32) list \<Rightarrow> u32 \<Rightarrow> bool" where
  "tags_hold m p [] e \<longleftrightarrow> p = e"
| "tags_hold m p (t # ts) e \<longleftrightarrow>
     read32 m p = fst t \<and> read32 m (p + 4) = snd t \<and> tags_hold m (p + padded (snd t)) ts e"

text \<open>What one tag is to do: the framebuffer (8), the ACPI tables (15) and the memory map (6) are set up.\<close>

definition tag_effect :: "boot_params \<Rightarrow> u32 \<Rightarrow> u32 \<Rightarrow> kernel \<Rightarrow> kernel option" where
  "tag_effect b ty tag k =
     (let m = hmem (mm (sys k)) in
      if ty = 8 then
        map_option (\<lambda>e. k\<lparr>sys := (sys k)\<lparr>mm := e\<rparr>\<rparr>)
          (initialize_framebuffer_attributes (boot_fuel b) (boot_noflags b) (framebuffer_tag_at m tag) (mm (sys k)))
      else if ty = 15 then
        map_option (\<lambda>(t, m). k\<lparr>sys := (sys k)\<lparr>acpi_tables := t, mm := (mm (sys k))\<lparr>hmem := m\<rparr>\<rparr>\<rparr>)
          (process_acpi_info (sig_buf b) (sig_at b) tag (acpi_tables (sys k)) m)
      else if ty = 6 then
        map_option (\<lambda>(r, e). k\<lparr>boot := r, sys := (sys k)\<lparr>mm := e\<rparr>\<rparr>)
          (init_memory (boot_fuel b) (boot_noflags b) (kernel_end_at b) (mmap_entry_at m 0) (mmap_entries_at m tag)
             (boot k) (mm (sys k)))
      else Some k)"

primrec tag_effects :: "boot_params \<Rightarrow> u32 \<Rightarrow> (u32 \<times> u32) list \<Rightarrow> kernel \<Rightarrow> kernel option" where
  "tag_effects b p [] k = Some k"
| "tag_effects b p (t # ts) k = Option.bind (tag_effect b (fst t) p k) (tag_effects b (p + padded (snd t)) ts)"

definition is_skipped :: "u32 \<Rightarrow> bool" where "is_skipped ty \<longleftrightarrow> ty \<notin> {0, 6, 8, 15}"

lemma process_tag_effect: "process_tag b ty tag k = tag_effect b ty tag k"
  unfolding process_tag_def tag_effect_def tag_types by (rule refl)

lemma tag_effects_skipped: "\<forall>t \<in> set ts. is_skipped (fst t) \<Longrightarrow> tag_effects b p ts k = Some k"
  by (induction ts arbitrary: p) (simp_all add: tag_effect_def is_skipped_def)

text \<open>The walk does the tags one after the other, as long as doing so leaves them in memory.\<close>

lemma walk_effects:
  assumes "\<And>j k'. j \<le> length ts \<Longrightarrow> tag_effects b p (take j ts) k = Some k' \<Longrightarrow> tags_hold (hmem (mm (sys k'))) p ts e"
    and "\<forall>t \<in> set ts. fst t \<noteq> 0"
  shows "walk_tags b p k = Option.bind (tag_effects b p ts k) (walk_tags b e)"
  using assms
proof (induction ts arbitrary: p k)
  case Nil
  then show ?case using Nil.prems(1) [of 0 k] by simp
next
  case (Cons t ts)
  have ty: "tag_type (hmem (mm (sys k))) p = fst t" using Cons.prems(1) [of 0 k] by (simp add: tag_type_def)
  have ne: "fst t \<noteq> 0" using Cons.prems(2) by simp
  show ?case
  proof (cases "tag_effect b (fst t) p k")
    case None
    then show ?thesis using ne ty
      by (subst walk_tags.simps) (simp add: process_tag_effect MULTIBOOT_TAG_TYPE_END_def)
  next
    case (Some k1)
    let ?p = "p + padded (snd t)"
    have "mb_tag_size (hmem (mm (sys k1))) p = snd t"
      using Cons.prems(1) [of 1 k1] Some by (simp add: mb_tag_size_def)
    then have "walk_tags b p k = walk_tags b ?p k1"
      using ne ty Some
      by (subst walk_tags.simps)
        (simp add: process_tag_effect MULTIBOOT_TAG_TYPE_END_def ALIGN_TO_8_BYTES_padded)
    moreover have "walk_tags b ?p k1 = Option.bind (tag_effects b ?p ts k1) (walk_tags b e)"
    proof (rule Cons.IH)
      fix j k' assume "j \<le> length ts" "tag_effects b ?p (take j ts) k1 = Some k'"
      then show "tags_hold (hmem (mm (sys k'))) ?p ts e"
        using Cons.prems(1) [of "Suc j" k'] Some by simp
    qed (use Cons.prems(2) in simp)
    ultimately show ?thesis using Some by simp
  qed
qed

text \<open>A tag the kernel skips and whose size is 0 is found again and again.\<close>

lemma walk_stuck:
  assumes "walk_tags b p k = Some r" and "is_skipped (tag_type (hmem (mm (sys k))) p)"
  shows "mb_tag_size (hmem (mm (sys k))) p \<noteq> 0"
proof -
  have "is_skipped (tag_type (hmem (mm (sys k))) p) \<longrightarrow> mb_tag_size (hmem (mm (sys k))) p \<noteq> 0"
  proof (rule walk_tags.raw_induct [where P = "\<lambda>b p k r. is_skipped (tag_type (hmem (mm (sys k))) p) \<longrightarrow>
      mb_tag_size (hmem (mm (sys k))) p \<noteq> 0", OF _ assms(1)], intro impI notI)
    fix f b p k and r :: kernel
    assume IH: "\<And>b p k r. f b p k = Some r \<Longrightarrow> is_skipped (tag_type (hmem (mm (sys k))) p) \<longrightarrow>
        mb_tag_size (hmem (mm (sys k))) p \<noteq> 0"
      and run: "(if tag_type (hmem (mm (sys k))) p \<noteq> MULTIBOOT_TAG_TYPE_END then
          Option.bind (process_tag b (tag_type (hmem (mm (sys k))) p) p k) (\<lambda>k.
            f b (p + ALIGN_TO_8_BYTES (mb_tag_size (hmem (mm (sys k))) p)) k)
        else Some k) = Some r"
      and skip: "is_skipped (tag_type (hmem (mm (sys k))) p)" and z: "mb_tag_size (hmem (mm (sys k))) p = 0"
    have "process_tag b (tag_type (hmem (mm (sys k))) p) p k = Some k"
      using skip by (simp add: process_tag_def is_skipped_def tag_types)
    moreover have "ALIGN_TO_8_BYTES 0 = 0" by (simp add: ALIGN_TO_8_BYTES_def)
    ultimately have "f b p k = Some r" using run skip z by (simp add: is_skipped_def tag_types)
    then show False using IH skip z by blast
  qed
  then show ?thesis using assms(2) by blast
qed

subsection \<open>Properties\<close>

text \<open>
  C40. Let tags of the types and sizes \<open>ts\<close>, none of them the end tag, lie one behind the other from the
  eighth byte of the boot information on, each at the next multiple of 8 bytes, and let them stay there
  while they are processed. Then the walk over them is the sequence of their effects, in order and each
  at the tag's own address: the framebuffer, the memory map and the new ACPI tables are set up, and a
  tag of another type has no effect. It fails when one of these fails; else, when the end tag follows,
  it returns the state reached. A tag of another type that follows and gives its size as 0 makes
  the boot hang.
\<close>

theorem bootinfo_walk:
  assumes "\<forall>j k'. j \<le> length ts \<and> tag_effects b (start + 8) (take j ts) k = Some k' \<longrightarrow>
      tags_hold (hmem (mm (sys k'))) (start + 8) ts e"
    and "\<forall>t \<in> set ts. fst t \<noteq> 0"
  shows "(case tag_effects b (start + 8) ts k of
        None \<Rightarrow> process_multiboot2_bootinfo b start k = None
      | Some k' \<Rightarrow>
          (read32 (hmem (mm (sys k'))) e = 0 \<longrightarrow> process_multiboot2_bootinfo b start k = Some k') \<and>
          (is_skipped (read32 (hmem (mm (sys k'))) e) \<and> read32 (hmem (mm (sys k'))) (e + 4) = 0 \<longrightarrow>
            process_multiboot2_bootinfo b start k = None)) \<and>
    ((\<forall>t \<in> set ts. is_skipped (fst t)) \<longrightarrow> tag_effects b (start + 8) ts k = Some k)"
proof -
  have walk: "process_multiboot2_bootinfo b start k = Option.bind (tag_effects b (start + 8) ts k) (walk_tags b e)"
    unfolding process_multiboot2_bootinfo_def using assms by (intro walk_effects) blast+
  have "walk_tags b e k' = Some k'" if "read32 (hmem (mm (sys k'))) e = 0" for k'
    using that by (subst walk_tags.simps) (simp add: tag_types tag_type_def)
  moreover have "walk_tags b e k' = None"
    if "is_skipped (read32 (hmem (mm (sys k'))) e)" "read32 (hmem (mm (sys k'))) (e + 4) = 0" for k'
    using walk_stuck [of b e k'] that by (cases "walk_tags b e k'") (auto simp: tag_type_def mb_tag_size_def)
  ultimately show ?thesis
    unfolding walk using tag_effects_skipped [of ts b "start + 8" k] by (auto split: option.split)
qed

text \<open>
  The command line (13 bytes), then the ACPI tables (44 bytes), whose RSDT at address 0 lists no table,
  then the end tag.
\<close>

definition ex_kernel :: kernel where
  "ex_kernel = \<lparr>sys = \<lparr>mm = ex_editor\<lparr>hmem := (\<lambda>_. 0)(4 := 36, 0x8008 := 1, 0x800C := 13, 0x8018 := 15, 0x801C := 44)\<rparr>,
       acpi_tables = ex_acpi,
       cpuid_edx = 0x100, msr = (\<lambda>_. 0), lapic_base_address = 0, lapic = 0,
       ioapic = \<lparr>IO_Register_Selector = 0, IO_Window_Register = 0, irt = []\<rparr>, mmio = []\<rparr>,
     boot = \<lparr>regions_arr = ex_regions, next_region = 0, acpi_entry = None, mem_length = 0\<rparr>,
     gates = ex_interrupts,
     interrupts_enabled = False, port_log = []\<rparr>"

definition ex_boot_params :: boot_params where
  "ex_boot_params = \<lparr>boot_fuel = 4, boot_noflags = (\<lambda>_. 0), kernel_end_at = 0xC0200000, handlers_at = 0xC0100000,
     idt_at = 0xC0102000, sig_at = 0x4000, sig_buf = 0x3000,
     uninit_array = \<lparr>array_data = 0x8000, curr_size = 7, max_capacity = 0\<rparr>, uninit_entry = ex_entry,
     boot_image = image.truncate ex_image\<rparr>"

theorem bootinfo_walk_witness:
  "\<exists>k'. process_multiboot2_bootinfo ex_boot_params 0x8000 ex_kernel = Some k' \<and>
     acpi_tables (sys k') = \<lparr>rsdp = 0x8020, rsdt = 0, madt = 0\<rparr>"
proof -
  let ?ts = "[(1, 13), (15, 44)] :: (u32 \<times> u32) list" and ?m = "hmem (mm (sys ex_kernel))"
  let ?k = "ex_kernel\<lparr>sys := (sys ex_kernel)\<lparr>acpi_tables := \<lparr>rsdp = 0x8020, rsdt = 0, madt = 0\<rparr>\<rparr>\<rparr>"
  have one: "tag_effect ex_boot_params 1 0x8008 ex_kernel = Some ex_kernel" by (simp add: tag_effect_def)
  have two: "tag_effect ex_boot_params 15 0x8018 ex_kernel = Some ?k"
    by (simp add: tag_effect_def process_acpi_info_def get_system_descriptor_table_def find_table.simps
        acpi_layout Let_def) (simp add: ex_kernel_def read32_def)
  have pad: "padded 13 = 16" "padded 44 = 48" by (simp_all add: padded_def)
  have hold: "tags_hold ?m (0x8000 + 8) ?ts 0x8048"
    by (simp add: ex_kernel_def read32_def pad)
  have eff: "tag_effects ex_boot_params (0x8000 + 8) (take j ?ts) ex_kernel \<in> {Some ex_kernel, Some ?k}" for j
    by (cases j; cases "j - 1"; cases "j - 2") (auto simp: one two pad take_Cons' split: if_splits)
  have all: "tag_effects ex_boot_params (0x8000 + 8) ?ts ex_kernel = Some ?k"
    by (simp add: one two pad)
  have "\<forall>j k'. j \<le> length ?ts \<and> tag_effects ex_boot_params (0x8000 + 8) (take j ?ts) ex_kernel = Some k' \<longrightarrow>
      tags_hold (hmem (mm (sys k'))) (0x8000 + 8) ?ts 0x8048"
  proof (intro allI impI, elim conjE)
    fix j k' assume "tag_effects ex_boot_params (0x8000 + 8) (take j ?ts) ex_kernel = Some k'"
    then have "k' = ex_kernel \<or> k' = ?k" using eff [of j] by auto
    then have "hmem (mm (sys k')) = ?m" by auto
    then show "tags_hold (hmem (mm (sys k'))) (0x8000 + 8) ?ts 0x8048" using hold by (simp only:)
  qed
  moreover have "\<forall>t \<in> set ?ts. fst t \<noteq> 0" by simp
  moreover have "read32 (hmem (mm (sys ?k))) 0x8048 = 0" by (simp add: ex_kernel_def read32_def)
  ultimately have "process_multiboot2_bootinfo ex_boot_params 0x8000 ex_kernel = Some ?k"
    using bootinfo_walk [of ?ts ex_boot_params "0x8000" ex_kernel "0x8048"] unfolding all option.case by blast
  then show ?thesis by (intro exI [of _ ?k]) simp
qed

end
