(* ===== verification/Spec2Isabelle.thy ===== *)
theory Spec2Isabelle
  imports Libc Pmm Early_Paging Kheap Vmm Memory_Runs Boot_Mem Utils Ps2 Screen Display Shell History
    Serial Apic Interrupts Descriptors Boot
begin

text \<open>
  maybeOS is a kernel for 32-bit x86 machines: a boot stage that builds the first page tables and
  segment descriptors, the managers of physical and virtual memory with a kernel heap between them,
  a text console on the framebuffer, a PS/2 keyboard driver behind the APICs, and a terminal with a
  line editor and a small shell. This development translates its C code and proves what the parts
  promise each other. All paths below are under \<^verbatim>\<open>src/src/\<close>.

  \<^bold>\<open>How the program runs.\<close> \<^verbatim>\<open>finish_booting.c\<close> loads descriptors, walks the boot loader's tags (which
  hand the framebuffer, the ACPI root and the memory map to their owners) and starts the parts in
  order. The page allocator takes frames from the bitmap of \<^verbatim>\<open>pmm.c\<close>, \<^verbatim>\<open>paging.c\<close> maps them, \<^verbatim>\<open>vmm.c\<close>
  keeps the list of mapped areas in structures of the heap of \<^verbatim>\<open>kheap.c\<close>, which asks \<^verbatim>\<open>vmm.c\<close> for
  more memory. From then on everything happens in interrupts: a byte of the keyboard is decoded to
  a keycode, the line editor changes the command line in memory and on the screen, and a finished line is
  pushed to the history and given to the shell. Every other interrupt reports over the serial port and stops.

  \<^bold>\<open>The theories and the code they model.\<close>
  \<^item> \<open>Prelude\<close>: words, byte memory, the loop combinators and their rules. \<open>Memory\<close>: 32-bit values and
    arrays of them in the byte memory.
  \<^item> \<open>Libc\<close>: \<^verbatim>\<open>include/libc/string.c\<close>, \<^verbatim>\<open>ctype.c\<close>. \<open>Utils\<close>: \<^verbatim>\<open>include/utils.c\<close>, \<^verbatim>\<open>data_structures.c\<close>.
  \<^item> \<open>Addresses\<close>: the macros of \<^verbatim>\<open>paging.h\<close> and \<^verbatim>\<open>utils.h\<close>. \<open>Pmm\<close>: \<^verbatim>\<open>pmm.c\<close> (state \<open>pmm_state\<close>: memory, the
    bitmap's address and length). \<open>Paging\<close>: \<^verbatim>\<open>paging.c\<close> (state \<open>paging_state\<close>: physical cells and the frame allocator).
    \<open>Early_Paging\<close>: \<^verbatim>\<open>boot/early_paging_setup.c\<close>.
  \<^item> \<open>Kheap\<close>: \<^verbatim>\<open>kheap.c\<close> (\<open>kheap\<close>). \<open>Vmm\<close>: \<^verbatim>\<open>vmm.c\<close>. \<open>Boot_Mem\<close>: \<^verbatim>\<open>mem_map.c\<close>, \<open>init_pmm\<close> and \<^verbatim>\<open>drivers/driver.c\<close>.
    \<open>Memory_Runs\<close>: any run of clients of the frame allocator and of the heap, as step relations.
  \<^item> \<open>Keycodes\<close>, \<open>Ps2\<close>: \<^verbatim>\<open>drivers/keyboard/keycodes.h\<close>, \<^verbatim>\<open>keycodes.c\<close>, \<^verbatim>\<open>ps2.c\<close>. \<open>Serial\<close>: \<^verbatim>\<open>drivers/serial/serial.c\<close>.
  \<^item> \<open>Font\<close>, \<open>Vga\<close>: \<^verbatim>\<open>kernel/console/font.c\<close>, \<^verbatim>\<open>drivers/video/VGA_driver.c\<close>. \<open>Screen\<close>: what these operations
    show, as a grid of cells. \<open>Display\<close>: the contract of the screen with its clients.
  \<^item> \<open>Shell\<close>: \<^verbatim>\<open>terminal.c\<close>, \<^verbatim>\<open>shell.c\<close>. \<open>Line_Editor\<close>: \<^verbatim>\<open>terminal_input_parser.c\<close>. \<open>Editing\<close>: each of its
    operations on text and cursor. \<open>Command_Line\<close>: the abstract editor and the refinement. \<open>History\<close>: the history of lines.
  \<^item> \<open>Descriptors\<close>: \<^verbatim>\<open>boot/gdt.c\<close>, \<^verbatim>\<open>gdt.h\<close>, \<^verbatim>\<open>interrupts/idt.c\<close>. \<open>Acpi\<close>: \<^verbatim>\<open>interrupts/acpi.c\<close>. \<open>Apic\<close>: \<^verbatim>\<open>lapic.c\<close>,
    \<^verbatim>\<open>apic.c\<close>. \<open>Interrupts\<close>: \<^verbatim>\<open>isr.c\<close>. \<open>Boot\<close>: \<^verbatim>\<open>boot/finish_booting.c\<close>. This theory: a keyboard session from
    interrupts to the command line.
\<close>

text \<open>
  \<^bold>\<open>How code becomes definitions.\<close> Integers and pointers are words of their width. C structures that
  live at addresses the code computes (heap tags, areas, ACPI tables, the command buffer) stay bytes in
  a memory \<open>mem\<close>, read and written at the offsets of their fields; the globals of a file are a
  record, and records extend each other where one file works on the state of another. Page tables are
  reached through the two-level walk \<open>translate\<close> alone, so a page fault is a value; \<open>walk\<close> adds to the
  address the two rights that the entries grant, to write and to access from user mode. Counted loops are
  \<open>for_loop\<close> (a body on the state), \<open>for_loop_opt\<close> (a body that may not return) and \<open>for_search\<close>
  (a body that may return from the function); the other loops are \<open>function\<close> with a measure where they
  always end, and \<open>partial_function (option)\<close> where they may not, so that \<open>None\<close> stands for a loop that
  never ends or a page fault. Ports and memory-mapped registers are histories of events: an operation appends what it does
  and a device is any function from the history to the next byte read.

  \<^bold>\<open>Fuel.\<close> \<open>kmalloc\<close> and \<open>vmalloc\<close> call each other: the heap asks for pages when it is full, and the
  new area needs a structure from the heap. The depth of these calls is the fuel of \<open>vmalloc\<close>; no
  property rests on a particular amount, because \<open>kmalloc\<close> takes its source of memory as an argument
  (\<open>request_more\<close>), over which the theorems about the heap are general, and those about \<open>vmm.c\<close> concern the
  operations below \<open>vmalloc\<close>. No other definition has fuel.

  \<^bold>\<open>Parameters\<close> stand for what the C code leaves undefined or takes from outside: \<open>oob\<close> for reads past a
  table, \<open>noret\<close> for what functions that return nothing on a path leave in the result register (for
  \<open>strchr\<close> a function of the memory and both arguments), \<open>noflags\<close> for the missing argument of a
  call, \<open>image\<close> for the addresses the linker assigns to string constants, uninitialised locals as arguments,
  the font file, and the devices. Properties hold for all their values unless they say otherwise.
\<close>

text \<open>
  \<^bold>\<open>What is shown.\<close>
  \<^item> \<^emph>\<open>C library\<close>: copying with overlap against a simultaneous copy, concatenation; tokens, with the
    delimiters that the missing return of \<open>strchr\<close> leaves; \<open>strlen\<close> returns exactly for terminated strings;
    hexadecimal printing read back.
  \<^item> \<^emph>\<open>Physical memory\<close>: first fit (with the extra frame the code demands), failure in exactly the cases
    that cannot be served, free after alloc; in every run of clients no frame is given out twice.
    Start-up leaves free exactly the usable frames above 1 MiB outside the bitmap, and those of the bitmap
    too when the request for them fails, which the code ignores.
  \<^item> \<^emph>\<open>Paging\<close>: mapping and unmapping change the walk, address and rights, of exactly the addresses that share
    one page-table entry (\<open>shares_entry\<close>), with or without a new page table. These are the addresses of one
    page and its aliases: the boot tables map low memory twice, through shared tables. They satisfy
    the invariant \<open>paging_ok\<close> on which the later theorems rest.
  \<^item> \<^emph>\<open>Heap\<close>: the invariant \<open>heap_ok\<close> (the blocks tile the range) is established by \<open>init_kheap\<close>, and kept by
    \<open>kmalloc\<close>, by growth, by writes to objects and by \<open>kfree\<close>, except that the free of the last block reads a tag
    behind the heap and breaks the invariant when that reads as free. Allocation is first fit on the list
    of blocks; in every run of clients that avoids this case, and asks for no more than the growth
    provides, the objects behave as separate arrays of bytes.
  \<^item> \<^emph>\<open>Virtual memory\<close>: a region is backed page by page by fresh frames with the rights asked for; the
    overlap check is characterised: an area that begins where the region ends counts, one that ends
    where it begins does not.
  \<^item> \<^emph>\<open>Keyboard\<close>: the decoder turns any sequence of presses and releases into the events they stand for;
    a controller that handles its commands as the 8042 does is brought up with the right control byte if its
    self test passes the first time, and otherwise the start never ends.
  \<^item> \<^emph>\<open>Console\<close>: each printed character fills its cell with its glyph and leaves the others alone; the
    cursor moves through the grid and scrolls at its end.
  \<^item> \<^emph>\<open>Line editor\<close>: it refines the abstract editor \<open>edit_keys\<close>; finished lines shift the history, and the
    arrow keys bring the unfinished line back.
  \<^item> \<^emph>\<open>Machine set-up\<close>: descriptors and gates read back as the processor does; the walk over the boot tags
    has their effects in order and ends at the end tag, or does not end when a tag has size 0; ACPI tables
    are found by signature, and the search among controllers collects them if its array, which
    has no storage, points to free memory. The accesses of the local APIC's set-up are given one by one, with
    what they do to a chip that stays at its address and to one that moves when its base is cleared;
    the I/O APIC routes the keyboard. Crash reports are sent complete, when the message array, which is
    not initialised, happens to hold a short string.
  \<^item> \<^emph>\<open>The whole\<close>: typed keys, taken one interrupt per byte, give the line that the abstract editor computes.

  \<^bold>\<open>Interfaces.\<close> The locale \<open>frame_allocator\<close> (in \<open>Pmm\<close>) is what a client relies on when it takes and
  returns frames, interpreted by the bitmap; \<open>block_heap\<close> (in \<open>Kheap\<close>) what it relies on when it keeps
  data in heap blocks, interpreted by the heap. \<open>display_op\<close> (in \<open>Display\<close>) is an operation of the
  screen that returns and leaves the text alone, \<open>display_pair\<close> the composition of two of them; they are interpreted
  by the operations of the console that the line editor calls.

  \<^bold>\<open>Not modelled.\<close> The assembly files (boot entry, interrupt stubs) and the processor's own actions on
  loading tables; interrupts that arrive during another one; timing. The translation lookaside buffer:
  a walk always reads the tables, whereas \<open>map_pageframe\<close> invalidates the page it is given (not its aliases) and
  \<open>free_mapping\<close> invalidates nothing. As the entries are global, the processor may go on using a page
  after it is unmapped. The structure definitions of the Multiboot header for tags the kernel skips; the
  process structures, which no code uses; the font's glyph data, a binary file that the image embeds.
  The framebuffer is a byte store of its own, apart from the paged memory, so printing cannot fault.
\<close>

section \<open>From the keyboard to the command line\<close>

text \<open>
  C1. A user who types and releases keys, while the machine takes one interrupt for every byte the
  keyboard sends: no interrupt fails, each reads exactly one byte and is acknowledged exactly once, and
  afterwards the terminal holds the line that the abstract editor computes from the keys, with
  the decoder idle again.
\<close>

theorem typing_by_interrupts:
  fixes s :: "'a line_editor_scheme os"
  assumes "ua \<noteq> NULL" and "image_ok im" and "represents (mm (mach s)) e" and "kbd s = kbd_idle"
    and "\<forall>k \<in> set ks. is_key_byte (key_code k)" and "edit_keys (map (key_event oob) ks) e = Some e'"
    and "bs = concat (map key_bytes ks)" and "delivers dev (ports s) bs"
    and "length frs = length bs" and "\<forall>f \<in> set frs. vector_num f = 0x21"
  shows "\<exists>s'. take_interrupts (interrupt_handler_dispatcher ua oob (handle_keycode im) noret l dev) frs s = Some (Resumes s') \<and>
    represents (mm (mach s')) e' \<and> kbd s' = kbd_idle \<and> ports s' = ports s @ map (In 0x60) bs \<and>
    mmio (mach s') = mmio (mach s) @ replicate (length bs) (MWrite (lapic (mach s) + 0xB0) 0)"
proof -
  obtain t where "handle_all (handle_keycode im) (map (key_event oob) ks) (mm (mach s)) = Some t" and t: "represents t e'"
    using handle_all_refines [OF assms(2,3,6)] by blast
  then have "kbd_run ua oob (handle_keycode im) bs (kbd s, mm (mach s)) = Some (kbd_idle, t)"
    using kbd_stream [OF assms(1,5), of oob "handle_keycode im" "mm (mach s)"] assms(4,7) by simp
  from keyboard_interrupts [OF _ assms(9,8) this] show ?thesis
    using assms(10) t by (simp add: KEYBOARD_IRQ_def)
qed

text \<open>The key \<open>h\<close> pressed and released: three bytes and three interrupts.\<close>

definition ex_keyboard_os :: "line_editor os" where
  "ex_keyboard_os =
     \<lparr>mach = \<lparr>mm = ex_editor, acpi_tables = ex_acpi, cpuid_edx = 0x100, msr = (\<lambda>_. 0), lapic_base_address = 0xFEE00000,
        lapic = 0xFEE00000, ioapic = \<lparr>IO_Register_Selector = 0, IO_Window_Register = 0, irt = []\<rparr>, mmio = []\<rparr>,
      stack = (\<lambda>_. 0), ports = [], kbd = kbd_idle\<rparr>"

definition ex_key_frame :: process_context_t where "ex_key_frame = ex_frame\<lparr>vector_num := 0x21\<rparr>"

theorem typing_by_interrupts_witness:
  "\<exists>s'. take_interrupts (interrupt_handler_dispatcher 0x1000 (\<lambda>_. 0) (handle_keycode ex_image) (\<lambda>_. 0) ex_locals
      (\<lambda>h _. [0x33, 0xF0, 0x33] ! length h)) [ex_key_frame, ex_key_frame, ex_key_frame] ex_keyboard_os = Some (Resumes s') \<and>
    represents (mm (mach s')) \<lparr>line_text = [0x68], line_pos = 1, caps_on = False, shift_on = False\<rparr> \<and>
    mmio (mach s') = replicate 3 (MWrite 0xFEE000B0 0)"
proof -
  let ?dev = "\<lambda>h _. [0x33, 0xF0, 0x33] ! length h :: u8" and ?ks = "[Make 0x33, Break 0x33]"
    and ?frs = "[ex_key_frame, ex_key_frame, ex_key_frame]" and ?bs = "[0x33, 0xF0, 0x33] :: u8 list"
  have edit: "edit_keys (map (key_event (\<lambda>_. 0)) ?ks) empty_line =
    Some \<lparr>line_text = [0x68], line_pos = 1, caps_on = False, shift_on = False\<rparr>"
    by (simp add: edit_key_def keycode_defs empty_line_def typed_char_def base_printable_keycode_mappings_def
        ps2_set2_keycode_def ps2_set2_keycode_table_def)
  have keys: "\<forall>k \<in> set ?ks. is_key_byte (key_code k)" by (simp add: is_key_byte_def utility_scancodes_def)
  have start: "(0x1000 :: u32) \<noteq> NULL" "represents (mm (mach ex_keyboard_os)) empty_line" "kbd ex_keyboard_os = kbd_idle"
    using ex_editor_facts(2) by (simp_all add: ex_keyboard_os_def)
  have "delivers ?dev (ports ex_keyboard_os) ?bs"
    by (simp add: delivers_def ex_keyboard_os_def numeral_eq_Suc All_less_Suc)
  moreover have "?bs = concat (map key_bytes ?ks)" "length ?frs = length ?bs" "\<forall>f \<in> set ?frs. vector_num f = 0x21"
    by (simp_all add: ex_key_frame_def)
  ultimately obtain s' where "take_interrupts (interrupt_handler_dispatcher 0x1000 (\<lambda>_. 0) (handle_keycode ex_image) (\<lambda>_. 0) ex_locals ?dev)
      ?frs ex_keyboard_os = Some (Resumes s')"
      "represents (mm (mach s')) \<lparr>line_text = [0x68], line_pos = 1, caps_on = False, shift_on = False\<rparr>"
      "mmio (mach s') = mmio (mach ex_keyboard_os) @ replicate (length ?bs) (MWrite (lapic (mach ex_keyboard_os) + 0xB0) 0)"
    using typing_by_interrupts [OF start(1) ex_editor_facts(1) start(2,3) keys edit] by blast
  moreover have "mmio (mach ex_keyboard_os) = []" "lapic (mach ex_keyboard_os) + 0xB0 = 0xFEE000B0" "length ?bs = 3"
    by (simp_all add: ex_keyboard_os_def)
  ultimately show ?thesis by (intro exI [of _ s']) (simp only: append_Nil)
qed

end
